(* ===== verification/Prelude.thy ===== *)
theory Prelude
  imports Main "HOL-Library.Word" "HOL-Library.Monad_Syntax"
begin

unbundle bit_operations_syntax

text \<open>
  Shared ground of the development: the machine integer types of the C sources, C arrays,
  the checks that turn an undefined behaviour into the value \<open>None\<close>, the three
  loop shapes the kernel uses, and the lemmas on them that the component theories share.

  Conventions. A C array of \<open>n\<close> elements is a function from \<open>nat\<close>; every access
  whose index is not bounded by the loop around it is preceded by \<open>chk (i < n)\<close>, and an
  access outside the array makes the whole operation \<open>None\<close>. Operations are written in
  the option monad with the state passed explicitly, so \<open>None\<close> stands for "the C program
  has no defined result": an access out of bounds, or a loop that does not end.
\<close>

section \<open>Machine integers and arrays\<close>

type_synonym u8 = "8 word"
type_synonym u16 = "16 word"
type_synonym u32 = "32 word"
type_synonym 'a arr = "nat \<Rightarrow> 'a"

named_theorems kdefs \<open>definitions of the kernel operations, unfolded in functional proofs\<close>
named_theorems kframe \<open>what an operation leaves unchanged\<close>

section \<open>Undefined behaviour\<close>

definition chk :: "bool \<Rightarrow> unit option" where
  "chk b = (if b then Some () else None)"

lemma chk_True [simp]: "chk True = Some ()"
  by (simp add: chk_def)

lemma chk_False [simp]: "chk False = None"
  by (simp add: chk_def)

lemma chk_bind_Some [simp]: "(chk b \<bind> f = Some x) = (b \<and> f () = Some x)"
  by (simp add: chk_def)

lemma chk_bind_None [simp]: "(chk b \<bind> f = None) = (b \<longrightarrow> f () = None)"
  by (simp add: chk_def)

lemma chk_bind [simp]: "b \<Longrightarrow> chk b \<bind> f = f ()"
  by simp

section \<open>Loop shapes\<close>

text \<open>
  \<open>first_idx p n\<close> is the value of \<open>i\<close> after
  \<^verbatim>\<open>for(i = 0; i < n; i++) if(p(i)) break;\<close>
\<close>

primrec scan_up :: "(nat \<Rightarrow> bool) \<Rightarrow> nat \<Rightarrow> nat \<Rightarrow> nat" where
  "scan_up p i 0 = i"
| "scan_up p i (Suc k) = (if p i then i else scan_up p (Suc i) k)"

definition first_idx :: "(nat \<Rightarrow> bool) \<Rightarrow> nat \<Rightarrow> nat" where
  "first_idx p n = scan_up p 0 n"

lemma scan_up_le: "i \<le> scan_up p i k \<and> scan_up p i k \<le> i + k"
proof (induction k arbitrary: i)
  case (Suc k)
  show ?case using Suc [of "Suc i"] by auto
qed simp

lemma scan_up_before: "i \<le> j \<Longrightarrow> j < scan_up p i k \<Longrightarrow> \<not> p j"
proof (induction k arbitrary: i)
  case (Suc k)
  show ?case
  proof (cases "p i \<or> j = i")
    case True
    with Suc.prems show ?thesis by auto
  next
    case False
    with Suc.prems Suc.IH [of "Suc i"] show ?thesis by auto
  qed
qed simp

lemma scan_up_hit: "scan_up p i k < i + k \<Longrightarrow> p (scan_up p i k)"
proof (induction k arbitrary: i)
  case (Suc k)
  then show ?case using Suc.IH [of "Suc i"] by auto
qed simp

lemma first_idx_le: "first_idx p n \<le> n"
  using scan_up_le [of 0 p n] by (simp add: first_idx_def)

lemma first_idx_before: "j < first_idx p n \<Longrightarrow> \<not> p j"
  using scan_up_before [of 0 j p n] by (simp add: first_idx_def)

lemma first_idx_hit: "first_idx p n < n \<Longrightarrow> p (first_idx p n)"
  using scan_up_hit [of p 0 n] by (simp add: first_idx_def)

lemma first_idx_miss: "(first_idx p n = n) = (\<forall>i < n. \<not> p i)"
proof
  assume eq: "first_idx p n = n"
  show "\<forall>i < n. \<not> p i"
    using first_idx_before [where p = p and n = n] by (simp add: eq)
next
  assume none: "\<forall>i < n. \<not> p i"
  show "first_idx p n = n"
    using first_idx_hit [of p n] first_idx_le [of p n] none by (auto simp: le_less)
qed

lemma first_idx_eqI:
  assumes "i < n" and "p i" and "\<And>j. j < i \<Longrightarrow> \<not> p j"
  shows "first_idx p n = i"
proof (rule linorder_cases [of "first_idx p n" i])
  assume lt: "first_idx p n < i"
  have "p (first_idx p n)"
    by (rule first_idx_hit) (use lt assms(1) in simp)
  with assms(3) [OF lt] show ?thesis by simp
next
  assume "i < first_idx p n"
  with assms(2) first_idx_before show ?thesis by blast
qed

text \<open>A loop whose body may have undefined behaviour, over the list of its indices.\<close>

fun foldo :: "('a \<Rightarrow> 's \<Rightarrow> 's option) \<Rightarrow> 'a list \<Rightarrow> 's \<Rightarrow> 's option" where
  "foldo f [] s = Some s"
| "foldo f (x # xs) s = f x s \<bind> foldo f xs"

lemma foldo_append: "foldo f (xs @ ys) s = foldo f xs s \<bind> foldo f ys"
proof (induction xs arbitrary: s)
  case (Cons x xs)
  then show ?case by (cases "f x s") auto
qed simp

lemma foldo_Some: "foldo (\<lambda>x s. Some (g x s)) xs s = Some (fold g xs s)"
  by (induction xs arbitrary: s) auto

lemma upt_split: "i \<le> j \<Longrightarrow> j \<le> k \<Longrightarrow> [i..<k] = [i..<j] @ [j..<k]"
  using upt_add_eq_append [of i j "k - j"] by simp

text \<open>\<^verbatim>\<open>while(1) { }\<close>: a loop with an empty body, which has no result.\<close>

partial_function (option) spin_forever :: "'s \<Rightarrow> 's option" where
  "spin_forever s = spin_forever s"

lemma spin_forever_None [simp]: "spin_forever s = None"
proof (rule ccontr)
  assume "spin_forever s \<noteq> None"
  then obtain r where "spin_forever s = Some r" by auto
  then show False by (rule spin_forever.raw_induct [rotated]) blast
qed

section \<open>Words\<close>

lemma unat_of_nat_u8: "n < 256 \<Longrightarrow> unat (of_nat n :: u8) = n"
  by (simp add: unat_of_nat take_bit_eq_mod)

lemma unat_of_nat_u32: "n < 2 ^ 32 \<Longrightarrow> unat (of_nat n :: u32) = n"
  by (simp add: unat_of_nat take_bit_eq_mod)

lemma unat_u8_bound: "unat (x :: u8) < 256"
  using unsigned_less [where ?'a = nat, of x] by simp

lemma unat_u16_bound: "unat (x :: u16) < 65536"
  using unsigned_less [where ?'a = nat, of x] by simp

lemma unat_ucast_u8_u32 [simp]: "unat (ucast (x :: u8) :: u32) = unat x"
  using unat_u8_bound [of x] by (simp add: unsigned_ucast_eq take_bit_eq_mod)

lemma unat_ucast_u16_u32 [simp]: "unat (ucast (x :: u16) :: u32) = unat x"
  using unat_u16_bound [of x] by (simp add: unsigned_ucast_eq take_bit_eq_mod)

lemma unat_ucast_u32_u8: "unat (x :: u32) < 256 \<Longrightarrow> unat (ucast x :: u8) = unat x"
  by (simp add: unsigned_ucast_eq take_bit_eq_mod)

lemma unat_Suc_u8: "unat (x :: u8) < 255 \<Longrightarrow> unat (x + 1) = Suc (unat x)"
  by (simp add: unat_word_ariths)

lemma unat_pred_u8: "0 < unat (x :: u8) \<Longrightarrow> unat (x - 1) = unat x - 1"
  by (metis One_nat_def Suc_leI unat_1 unat_sub word_le_nat_alt)

lemma unat_pred_u32: "0 < unat (x :: u32) \<Longrightarrow> unat (x - 1) = unat x - 1"
  by (metis One_nat_def Suc_leI unat_1 unat_sub word_le_nat_alt)

lemma u8_lt_unat: "(x < y) = (unat x < unat (y :: u8))"
  by (simp add: word_less_nat_alt)

lemma u8_le_unat: "(x \<le> y) = (unat x \<le> unat (y :: u8))"
  by (simp add: word_le_nat_alt)

end
