(* ===== verification/Kvar.thy ===== *)
theory Kvar
  imports Prelude
begin

text \<open>
  The kernel's data: error and service codes, task states, the user's \<open>task_t\<close> objects,
  the kernel variables of \<^verbatim>\<open>src/kvar.c\<close>, the machine below the kernel
  (memory, task objects, a log of what reached the hardware), the build parameters
  that \<^verbatim>\<open>objgen\<close> and the linker script fix, and the port: what an architecture
  directory under \<^verbatim>\<open>src/arch/\<close> supplies to the common code.
\<close>

section \<open>Codes (error.h, svc.h, defines.h, permissions.h)\<close>

abbreviation (input) ERROR_NONE :: u32 where "ERROR_NONE \<equiv> 0"
abbreviation (input) ERROR_SYSTICK_TICK_VALUE_OVERFLOW :: u32 where
  "ERROR_SYSTICK_TICK_VALUE_OVERFLOW \<equiv> 1"
abbreviation (input) ERROR_OUT_OF_MEMORY :: u32 where "ERROR_OUT_OF_MEMORY \<equiv> 2"
abbreviation (input) ERROR_RESOURCE_LOCKED_INDEFINETLY :: u32 where
  "ERROR_RESOURCE_LOCKED_INDEFINETLY \<equiv> 3"
abbreviation (input) ERROR_MAX_PROCESS_COUNT :: u32 where "ERROR_MAX_PROCESS_COUNT \<equiv> 4"
abbreviation (input) ERROR_PROCESS_ALREADY_RUNNING :: u32 where
  "ERROR_PROCESS_ALREADY_RUNNING \<equiv> 5"
abbreviation (input) ERROR_PROCESS_IS_IDLE :: u32 where "ERROR_PROCESS_IS_IDLE \<equiv> 6"
abbreviation (input) ERROR_WRONG_HEAP_POINTER :: u32 where "ERROR_WRONG_HEAP_POINTER \<equiv> 8"
abbreviation (input) ERROR_EMPTY_HEAP :: u32 where "ERROR_EMPTY_HEAP \<equiv> 9"
abbreviation (input) ERROR_INSUFFICIENT_PERMISSION :: u32 where
  "ERROR_INSUFFICIENT_PERMISSION \<equiv> 11"
abbreviation (input) ERROR_MPU_UNSUPPORTED :: u32 where "ERROR_MPU_UNSUPPORTED \<equiv> 12"
abbreviation (input) ERROR_INVALID_TASK_PRIORITY :: u32 where
  "ERROR_INVALID_TASK_PRIORITY \<equiv> 13"
abbreviation (input) ERROR_INVALID_MPU_REGION :: u32 where "ERROR_INVALID_MPU_REGION \<equiv> 14"
abbreviation (input) ERROR_INVALID_MPU_ADDRESS :: u32 where "ERROR_INVALID_MPU_ADDRESS \<equiv> 15"
abbreviation (input) ERROR_BASE_PROCESS :: u32 where "ERROR_BASE_PROCESS \<equiv> 16"
abbreviation (input) ERROR_NO_INVOCATION :: u32 where "ERROR_NO_INVOCATION \<equiv> 17"
abbreviation (input) ERROR_UNKNOWN_PROCESS_ID :: u32 where "ERROR_UNKNOWN_PROCESS_ID \<equiv> 18"
abbreviation (input) ERROR_SCHEDULER_ALREADY_RUNNING :: u32 where
  "ERROR_SCHEDULER_ALREADY_RUNNING \<equiv> 19"

abbreviation (input) CREATE_TASK :: u32 where "CREATE_TASK \<equiv> 10"
abbreviation (input) HAND_OVER :: u32 where "HAND_OVER \<equiv> 11"
abbreviation (input) KILL_TASK :: u32 where "KILL_TASK \<equiv> 12"
abbreviation (input) HIBERNATE :: u32 where "HIBERNATE \<equiv> 13"
abbreviation (input) PRIORITY_PROMOTE :: u32 where "PRIORITY_PROMOTE \<equiv> 16"
abbreviation (input) PRIORITY_DEMOTE :: u32 where "PRIORITY_DEMOTE \<equiv> 17"
abbreviation (input) INVOKE_BASE :: u32 where "INVOKE_BASE \<equiv> 18"
abbreviation (input) RELEASE_BASE :: u32 where "RELEASE_BASE \<equiv> 19"
abbreviation (input) START_SCHEDULER :: u32 where "START_SCHEDULER \<equiv> 20"
abbreviation (input) INT_ENABLE :: u32 where "INT_ENABLE \<equiv> 21"
abbreviation (input) INT_DISABLE :: u32 where "INT_DISABLE \<equiv> 22"
abbreviation (input) SET_PRIORITY :: u32 where "SET_PRIORITY \<equiv> 23"
abbreviation (input) INT_REGISTER :: u32 where "INT_REGISTER \<equiv> 24"
abbreviation (input) DEVICE_RESET :: u32 where "DEVICE_RESET \<equiv> 40"
abbreviation (input) ENABLE_UMPU :: u32 where "ENABLE_UMPU \<equiv> 41"
abbreviation (input) DISABLE_UMPU :: u32 where "DISABLE_UMPU \<equiv> 42"
abbreviation (input) CPU_FREQ :: u32 where "CPU_FREQ \<equiv> 43"
abbreviation (input) GRANT_PERMISSION :: u32 where "GRANT_PERMISSION \<equiv> 44"
abbreviation (input) HWREG_WRITE :: u32 where "HWREG_WRITE \<equiv> 45"
abbreviation (input) HWREG_READ :: u32 where "HWREG_READ \<equiv> 46"
abbreviation (input) GHEAP_ALLOCATE :: u32 where "GHEAP_ALLOCATE \<equiv> 60"
abbreviation (input) GHEAP_RELEASE :: u32 where "GHEAP_RELEASE \<equiv> 61"

text \<open>
  Task states are the decimal numbers of \<^verbatim>\<open>defines.h\<close>; the mask
  \<open>HIBERNATE_STATE_MASK\<close> is hexadecimal there.
\<close>

abbreviation (input) TASK_STATE_ACTIVE :: u8 where "TASK_STATE_ACTIVE \<equiv> 40"
abbreviation (input) TASK_STATE_SLEEP :: u8 where "TASK_STATE_SLEEP \<equiv> 41"
abbreviation (input) TASK_STATE_IDLE :: u8 where "TASK_STATE_IDLE \<equiv> 42"
abbreviation (input) TASK_STATE_HOLD :: u8 where "TASK_STATE_HOLD \<equiv> 43"
abbreviation (input) TASK_STATE_HIBERNATE_G :: u8 where "TASK_STATE_HIBERNATE_G \<equiv> 80"
abbreviation (input) TASK_STATE_HIBERNATE_L :: u8 where "TASK_STATE_HIBERNATE_L \<equiv> 81"
abbreviation (input) HIBERNATE_STATE_MASK :: u8 where "HIBERNATE_STATE_MASK \<equiv> 0x80"
abbreviation (input) HIBEARNTE_REV_MASK :: u32 where "HIBEARNTE_REV_MASK \<equiv> 0x00010000"

abbreviation (input) PERMISSION_HWREG :: nat where "PERMISSION_HWREG \<equiv> 5"
abbreviation (input) PERMISSION_INTCTRL :: nat where "PERMISSION_INTCTRL \<equiv> 6"

section \<open>Task objects and the machine\<close>

record task_t =
  t_error :: u8
  t_task_id :: u32
  t_priority :: u8
  t_ptr_func :: u32
  t_hibernate :: u8
  t_op1 :: u32
  t_op2 :: u32
  t_value :: u32

text \<open>
  What the kernel does to the world outside its variables, in order: stores to device
  registers (\<open>HWREG\<close>) and, for the simulator port, calls of the Windows API. The last
  event is the head of the list.
\<close>

datatype io =
    RegWrite u32 u32
  | TimerQueue u32
  | ThreadCreate nat u32 u32
  | ThreadSuspend u32
  | ThreadResume u32

text \<open>
  The machine. \<open>mem\<close> is word-addressed memory (the word at an address, RAM and device
  registers alike: a register reads back what was last stored to it); \<open>objs\<close> holds the
  \<open>task_t\<close> objects of the application by address, apart from the other memory;
  \<open>psp_reg\<close> is the stack pointer register of the running task.
\<close>

record mcu =
  psp_reg :: u32
  mem :: "u32 \<Rightarrow> u32"
  objs :: "u32 \<Rightarrow> task_t"
  iolog :: "io list"

definition HWREG :: "u32 \<Rightarrow> mcu \<Rightarrow> u32" where
  "HWREG a m = mem m a"

definition hwreg_store :: "u32 \<Rightarrow> u32 \<Rightarrow> mcu \<Rightarrow> mcu" where
  "hwreg_store a v m = m\<lparr>mem := (mem m)(a := v), iolog := RegWrite a v # iolog m\<rparr>"

text \<open>\<^verbatim>\<open>HWREG(a) |= v\<close> and \<^verbatim>\<open>HWREG(a) &= v\<close>.\<close>

definition hwreg_or :: "u32 \<Rightarrow> u32 \<Rightarrow> mcu \<Rightarrow> mcu" where
  "hwreg_or a v m = hwreg_store a (HWREG a m OR v) m"

definition hwreg_and :: "u32 \<Rightarrow> u32 \<Rightarrow> mcu \<Rightarrow> mcu" where
  "hwreg_and a v m = hwreg_store a (HWREG a m AND v) m"

definition mem_store :: "u32 \<Rightarrow> u32 \<Rightarrow> mcu \<Rightarrow> mcu" where
  "mem_store a v m = m\<lparr>mem := (mem m)(a := v)\<rparr>"

definition obj_update :: "u32 \<Rightarrow> (task_t \<Rightarrow> task_t) \<Rightarrow> mcu \<Rightarrow> mcu" where
  "obj_update a f m = m\<lparr>objs := (objs m)(a := f (objs m a))\<rparr>"

section \<open>Kernel variables (kvar.c)\<close>

text \<open>
  One field per variable, in the order of the file. \<open>priority_cur\<close> and
  \<open>priority_stash\<close> are the columns \<open>TASK_PRIO_CURRENT\<close> and \<open>TASK_PRIO_STASHED\<close>
  of \<open>priority_Array\<close>; \<open>jmp_list\<close> holds the bit patterns of its \<open>int8_t\<close> elements.
\<close>

record kstate =
  current_task :: u32
  next_task :: u32
  max_level :: u8
  maxp_level :: u8
  alc :: u8
  hlc :: u8
  alcp :: u8
  hlcp :: u8
  task_count :: u16
  total_task_count :: u16
  lstash_ptr :: u8
  pstack_addr :: u32
  cpu_freq :: u32
  task_obj :: "u32 arr"
  PSP_Array :: "u32 arr"
  priority_cur :: "u8 arr"
  priority_stash :: "u8 arr"
  mutex_stash :: "u32 arr"
  level_stash :: "u8 arr"
  jmp_list :: "u8 arr"
  state :: "u8 arr"
  task_id :: "u32 arr"
  permissions :: "u16 arr"
  op1 :: "u32 arr"
  op2 :: "u32 arr"
  hib_value :: "u32 arr"
  invocated_task :: u32
  invocated_args :: u32
  self_kill :: bool
  enable_dws :: bool
  first_start :: bool
  normal_schedule :: bool
  mcu :: mcu

definition on_mcu :: "(mcu \<Rightarrow> mcu) \<Rightarrow> kstate \<Rightarrow> kstate" where
  "on_mcu f s = s\<lparr>mcu := f (mcu s)\<rparr>"

text \<open>The values at boot: the initialisers of \<open>.kdat\<close>, zero for \<open>.kbss\<close>.\<close>

definition kvar_init :: "mcu \<Rightarrow> kstate" where
  "kvar_init m = \<lparr>
     current_task = 0, next_task = 0, max_level = 0, maxp_level = 0,
     alc = 0, hlc = 0, alcp = 0, hlcp = 0,
     task_count = 0, total_task_count = 0, lstash_ptr = 1,
     pstack_addr = 0, cpu_freq = 0,
     task_obj = (\<lambda>_. 0), PSP_Array = (\<lambda>_. 0),
     priority_cur = (\<lambda>_. 0), priority_stash = (\<lambda>_. 0),
     mutex_stash = (\<lambda>_. 0), level_stash = (\<lambda>_. 0), jmp_list = (\<lambda>_. 0),
     state = (\<lambda>_. 0), task_id = (\<lambda>_. 0), permissions = (\<lambda>_. 0),
     op1 = (\<lambda>_. 0), op2 = (\<lambda>_. 0), hib_value = (\<lambda>_. 0),
     invocated_task = 0, invocated_args = 0,
     self_kill = False, enable_dws = True, first_start = False, normal_schedule = True,
     mcu = m\<rparr>"

section \<open>Build parameters and the port\<close>

text \<open>
  \<open>params\<close>: the constants of the generated header \<^verbatim>\<open>param.h\<close> and the addresses
  the linker gives to the symbols the C code takes the address of. They are arguments
  of every definition that uses them.
\<close>

record params =
  MAX_TASK_COUNT :: nat
  TASK_STACK_SIZE :: nat
  HEAP_BOOKEEPING_SIZE :: nat
  TASK_PER_SEC :: u32
  NUM_OF_INTERRUPTS :: nat
  KERNEL_START_ADDRESS :: u32
  proc_heap_addr :: u32
  base_task_addr :: u32
  BaseTask_addr :: u32
  base_mutex_addr :: u32
  resolve_end_addr :: u32

text \<open>
  \<open>port\<close>: the operations and macros every architecture directory defines under
  these names (\<^verbatim>\<open>os_support.h\<close>, \<^verbatim>\<open>os_util.c\<close>, \<^verbatim>\<open>os_timer.c\<close>,
  \<^verbatim>\<open>arch_interrupt.c\<close>), on which the common code is parametric.
\<close>

record port = params +
  ENABLE_SCHEDULER :: "mcu \<Rightarrow> mcu"
  DISABLE_SCHEDULER :: "mcu \<Rightarrow> mcu"
  SCHEDULER_TIMER_RESET :: "mcu \<Rightarrow> mcu"
  TRIGGER_CONTEXT_SWITCH :: "mcu \<Rightarrow> mcu"
  TRIGGER_DEVICE_RESET :: "mcu \<Rightarrow> mcu"
  TRIGGER_SCHEDULER :: "kstate \<Rightarrow> kstate option"
  suspend_task :: "u32 \<Rightarrow> mcu \<Rightarrow> mcu"
  resume_task :: "u32 \<Rightarrow> mcu \<Rightarrow> mcu"
  arch_task_stack_init :: "nat \<Rightarrow> u32 \<Rightarrow> u32 \<Rightarrow> kstate \<Rightarrow> kstate"
  btask_psp_correction :: "kstate \<Rightarrow> kstate"
  os_timer_config :: "u32 \<Rightarrow> kstate \<Rightarrow> u32 \<times> kstate"
  arch_interrupt_enable :: "u32 \<Rightarrow> mcu \<Rightarrow> (u32 \<times> mcu) option"
  arch_interrupt_disable :: "u32 \<Rightarrow> mcu \<Rightarrow> (u32 \<times> mcu) option"
  arch_interrupt_register :: "u32 \<Rightarrow> u32 \<Rightarrow> mcu \<Rightarrow> (u32 \<times> mcu) option"
  arch_interrupt_priority :: "u8 \<Rightarrow> u8 \<Rightarrow> mcu \<Rightarrow> (u32 \<times> mcu) option"

text \<open>
  The bounds the object generator keeps: at most 120 tasks
  (\<open>(64 - (3 + 1)) * 1024 / 512\<close>), so every index fits the kernel's 8-bit counters and
  every offset of \<open>jmp_list\<close> its \<open>int8_t\<close> elements.
\<close>

definition wf_params :: "'z params_scheme \<Rightarrow> bool" where
  "wf_params P \<longleftrightarrow> 0 < MAX_TASK_COUNT P \<and> MAX_TASK_COUNT P \<le> 120"

type_synonym svc_args = "u32 arr"

text \<open>
  A service routine \<^verbatim>\<open>uint32_t f(uint32_t *svc_num, uint32_t *arguments)\<close> returns
  its result, the new \<open>*svc_num\<close> (another code makes the dispatcher run that service
  next), the argument block and the state.
\<close>

type_synonym svc_service =
  "port \<Rightarrow> u32 \<Rightarrow> svc_args \<Rightarrow> kstate \<Rightarrow> (u32 \<times> u32 \<times> svc_args \<times> kstate) option"

section \<open>The contract of a port\<close>

text \<open>
  What the task services rely on in a port: preparing the first frame of a task changes
  that task's stack pointer and the memory, none of the other kernel variables and none of
  the application's task objects; setting the stack pointer of the base task changes no
  kernel variable; and the tick timer is configured through its registers and
  \<open>cpu_freq\<close> alone. The timer macros and the thread calls of the simulator leave the task
  objects as they are.
\<close>

locale kernel_port =
  fixes A :: port
  assumes stack_init_frame: "arch_task_stack_init A i f a s =
        s\<lparr>PSP_Array := (PSP_Array s)(i := PSP_Array (arch_task_stack_init A i f a s) i),
          mcu := mcu (arch_task_stack_init A i f a s)\<rparr>"
    and stack_init_objs: "objs (mcu (arch_task_stack_init A i f a s)) = objs (mcu s)"
    and psp_correction_frame: "btask_psp_correction A s =
        s\<lparr>mcu := mcu (btask_psp_correction A s)\<rparr>"
    and timer_config_frame: "snd (os_timer_config A f s) =
        s\<lparr>cpu_freq := cpu_freq (snd (os_timer_config A f s)),
          mcu := mcu (snd (os_timer_config A f s))\<rparr>"
    and enable_objs: "objs (ENABLE_SCHEDULER A m) = objs m"
    and disable_objs: "objs (DISABLE_SCHEDULER A m) = objs m"
    and timer_reset_objs: "objs (SCHEDULER_TIMER_RESET A m) = objs m"
    and context_switch_objs: "objs (TRIGGER_CONTEXT_SWITCH A m) = objs m"
    and suspend_objs: "objs (suspend_task A t m) = objs m"
    and resume_objs: "objs (resume_task A t m) = objs m"
begin

lemma stack_init_fields:
  shows "jmp_list (arch_task_stack_init A i f a s) = jmp_list s"
    and "state (arch_task_stack_init A i f a s) = state s"
    and "task_obj (arch_task_stack_init A i f a s) = task_obj s"
    and "task_id (arch_task_stack_init A i f a s) = task_id s"
    and "priority_cur (arch_task_stack_init A i f a s) = priority_cur s"
    and "task_count (arch_task_stack_init A i f a s) = task_count s"
    and "total_task_count (arch_task_stack_init A i f a s) = total_task_count s"
    and "level_stash (arch_task_stack_init A i f a s) = level_stash s"
    and "lstash_ptr (arch_task_stack_init A i f a s) = lstash_ptr s"
    and "max_level (arch_task_stack_init A i f a s) = max_level s"
    and "alc (arch_task_stack_init A i f a s) = alc s"
    and "hlc (arch_task_stack_init A i f a s) = hlc s"
    and "first_start (arch_task_stack_init A i f a s) = first_start s"
    and "current_task (arch_task_stack_init A i f a s) = current_task s"
    and "next_task (arch_task_stack_init A i f a s) = next_task s"
    and "enable_dws (arch_task_stack_init A i f a s) = enable_dws s"
    and "permissions (arch_task_stack_init A i f a s) = permissions s"
    and "normal_schedule (arch_task_stack_init A i f a s) = normal_schedule s"
    and "self_kill (arch_task_stack_init A i f a s) = self_kill s"
    and "pstack_addr (arch_task_stack_init A i f a s) = pstack_addr s"
  by (subst stack_init_frame, simp)+

end

end
