(* ===== verification/LevelStash.thy ===== *)
theory LevelStash
  imports Kvar
begin

text \<open>
  The level stash: the array \<open>level_stash\<close> with \<open>lstash_ptr\<close> entries, the priority
  levels in use, from which the scheduler takes the next lower level. The three loops on
  it are in \<^verbatim>\<open>src/service/svr_task.c\<close>: the binary search and the insertion of
  \<open>svc_service_task_create\<close> (lines 104-129) and the removal of
  \<open>svc_service_task_kill\<close> (lines 217-232).
\<close>

section \<open>The operations\<close>

text \<open>
  The search loop, at the widths of the source: \<open>lower_index\<close> and \<open>search_index\<close> are
  \<open>uint8_t\<close>, \<open>j\<close> (the upper end, inclusive) is \<open>uint32_t\<close>. The result says
  whether the level was met and gives the last \<open>search_index\<close>.
\<close>

partial_function (option) level_search ::
  "nat \<Rightarrow> u8 arr \<Rightarrow> u8 \<Rightarrow> u8 \<Rightarrow> u32 \<Rightarrow> u8 \<Rightarrow> (bool \<times> u8) option" where
  "level_search n ls p lower_index j search_index =
     (if ucast lower_index \<le> j then
        (let si = ucast (ucast lower_index + (j - ucast lower_index) div 2) :: u8 in
         do {
           chk (unat si < n);
           (if ls (unat si) = p then Some (True, si)
            else if ls (unat si) < p then level_search n ls p (si + 1) j si
            else level_search n ls p lower_index (ucast si - 1) si)
         })
      else Some (False, search_index))"

definition shift_up :: "nat \<Rightarrow> nat \<Rightarrow> u8 arr \<Rightarrow> u8 arr" where
  "shift_up k n ls = fold (\<lambda>j ls. ls(j := ls (j - 1))) (rev [Suc k..<Suc n]) ls"

definition level_add :: "nat \<Rightarrow> u8 \<Rightarrow> u8 arr \<times> u8 \<Rightarrow> (u8 arr \<times> u8) option" where
  "level_add n p = (\<lambda>(ls, ptr). do {
     (found, si) \<leftarrow> level_search n ls p 0 (ucast ptr) 0;
     (if found then Some (ls, ptr)
      else do {
        chk (unat si < unat ptr \<longrightarrow> unat ptr < n);
        Some ((shift_up (unat si) (unat ptr) ls)(unat si := p), ptr + 1)
      })
   })"

definition level_drop_step ::
  "nat \<Rightarrow> u8 \<Rightarrow> nat \<Rightarrow> bool \<times> u8 arr \<Rightarrow> (bool \<times> u8 arr) option" where
  "level_drop_step n p j = (\<lambda>(found, ls).
     do {
       chk (j < n);
       let found' = (found \<or> ls j = p);
       (if found' then do { chk (Suc j < n); Some (True, ls(j := ls (Suc j))) }
        else Some (False, ls))
     })"

definition level_drop :: "nat \<Rightarrow> u8 \<Rightarrow> u8 arr \<times> u8 \<Rightarrow> (u8 arr \<times> u8) option" where
  "level_drop n p = (\<lambda>(ls, ptr). do {
     (found, ls') \<leftarrow> foldo (level_drop_step n p) [0..<unat ptr] (False, ls);
     Some (ls', ptr - 1)
   })"

section \<open>The search against a reference\<close>

text \<open>
  The reference search on natural numbers, over the half-open range from \<open>lo\<close> to
  \<open>hi\<close>; it has no widths to overflow.
\<close>

function ref_search :: "u8 arr \<Rightarrow> u8 \<Rightarrow> nat \<Rightarrow> nat \<Rightarrow> nat \<Rightarrow> bool \<times> nat" where
  "ref_search ls p lo hi si =
     (if lo < hi then
        (let m = lo + (hi - 1 - lo) div 2 in
         if ls m = p then (True, m)
         else if ls m < p then ref_search ls p (Suc m) hi m
         else ref_search ls p lo m m)
      else (False, si))"
  by pat_completeness auto
termination
  by (relation "measure (\<lambda>(ls, p, lo, hi, si). hi - lo)") (auto simp: Let_def)

declare ref_search.simps [simp del]

definition levels :: "u8 arr \<Rightarrow> u8 \<Rightarrow> u8 list" where
  "levels ls ptr = map ls [0..<unat ptr]"

lemma unat_mid:
  fixes lo :: u8 and j :: u32
  assumes "ucast lo \<le> j" and "unat j < 256"
  shows "unat (ucast (ucast lo + (j - ucast lo) div 2) :: u8) = unat lo + (unat j - unat lo) div 2"
proof -
  have le: "unat lo \<le> unat j"
    using assms(1) by (simp add: word_le_nat_alt)
  have d: "unat (j - ucast lo) = unat j - unat lo"
    using assms(1) by (simp add: unat_sub)
  have h: "unat ((j - ucast lo) div 2) = (unat j - unat lo) div 2"
    by (simp add: unat_div d)
  have "unat (ucast lo + (j - ucast lo) div 2) = unat lo + (unat j - unat lo) div 2"
    using le assms(2) by (subst unat_word_ariths(1)) (simp add: h)
  then show ?thesis using le assms(2)
    by (simp add: unat_ucast_u32_u8)
qed

text \<open>
  As long as the first entry is not above the searched level (it is 0, the level of the
  base task), the search stays inside the array, ends, and computes what the reference
  computes.
\<close>

lemma level_search_ref:
  assumes "ls 0 \<le> p" and "n \<le> 120" and "unat j < n" and "unat lo \<le> Suc (unat j)"
    and "unat si < n"
  shows "\<exists>f m. level_search n ls p lo j si = Some (f, m) \<and>
           ref_search ls p (unat lo) (Suc (unat j)) (unat si) = (f, unat m) \<and> unat m < n"
  using assms
proof (induction "Suc (unat j) - unat lo" arbitrary: lo j si rule: less_induct)
  case less
  show ?case
  proof (cases "ucast lo \<le> j")
    case False
    then show ?thesis using less.prems
      by (intro exI [of _ False] exI [of _ si], subst level_search.simps, subst ref_search.simps)
        (simp add: word_le_nat_alt not_le)
  next
    case True
    define m where "m = (ucast (ucast lo + (j - ucast lo) div 2) :: u8)"
    have le: "unat lo \<le> unat j" using True by (simp add: word_le_nat_alt)
    have um: "unat m = unat lo + (unat j - unat lo) div 2"
      using unat_mid [OF True] less.prems by (simp add: m_def)
    have bm: "unat m < n" "unat lo \<le> unat m" "unat m \<le> unat j"
      using um le less.prems by auto
    have unf: "level_search n ls p lo j si =
        (if ls (unat m) = p then Some (True, m)
         else if ls (unat m) < p then level_search n ls p (m + 1) j m
         else level_search n ls p lo (ucast m - 1) m)"
      using True bm by (subst level_search.simps) (simp add: m_def [symmetric] Let_def)
    have unr: "ref_search ls p (unat lo) (Suc (unat j)) (unat si) =
        (if ls (unat m) = p then (True, unat m)
         else if ls (unat m) < p then ref_search ls p (Suc (unat m)) (Suc (unat j)) (unat m)
         else ref_search ls p (unat lo) (unat m) (unat m))"
      using le by (subst ref_search.simps) (simp add: um [symmetric] Let_def)
    consider (eq) "ls (unat m) = p" | (lt) "ls (unat m) < p" | (gt) "p < ls (unat m)"
      by (metis linorder_neqE)
    then show ?thesis
    proof cases
      case eq
      then show ?thesis using bm by (intro exI [of _ True] exI [of _ m]) (simp add: unf unr)
    next
      case lt
      have "unat (m + 1) = Suc (unat m)" using bm less.prems by (intro unat_Suc_u8) simp
      with less.hyps [of j "m + 1" m] bm less.prems lt less_imp_neq [OF lt] show ?thesis
        by (simp add: unf unr less_Suc_eq_le diff_less_mono2 le_imp_less_Suc)
    next
      case gt
      with less.prems(1) have "unat m \<noteq> 0" by (metis leD)
      then have "unat (ucast m - 1 :: u32) = unat m - 1"
        by (simp add: unat_pred_u32)
      with less.hyps [of "ucast m - 1" lo m] bm \<open>unat m \<noteq> 0\<close> less.prems
        less_not_sym [OF gt] less_imp_neq [OF gt] show ?thesis
        by (auto simp: unf unr)
    qed
  qed
qed

lemma ref_search_rule:
  assumes out: "\<And>lo hi si. hi \<le> lo \<Longrightarrow> P lo hi si (False, si)"
    and hit: "\<And>lo hi si k. lo \<le> k \<Longrightarrow> k < hi \<Longrightarrow> ls k = p \<Longrightarrow> P lo hi si (True, k)"
    and up: "\<And>lo hi si k r. lo < hi \<Longrightarrow> k = lo + (hi - 1 - lo) div 2 \<Longrightarrow> lo \<le> k \<Longrightarrow> k < hi \<Longrightarrow>
              ls k < p \<Longrightarrow> P (Suc k) hi k r \<Longrightarrow> P lo hi si r"
    and down: "\<And>lo hi si k r. lo \<le> k \<Longrightarrow> k < hi \<Longrightarrow> p < ls k \<Longrightarrow> P lo k k r \<Longrightarrow> P lo hi si r"
  shows "P lo hi si (ref_search ls p lo hi si)"
proof (induction "hi - lo" arbitrary: lo hi si rule: less_induct)
  case less
  define k where "k = lo + (hi - 1 - lo) div 2"
  show ?case
  proof (cases "lo < hi")
    case True
    then have k: "lo \<le> k" "k < hi" by (auto simp: k_def)
    have unf: "ref_search ls p lo hi si = (if ls k = p then (True, k)
        else if ls k < p then ref_search ls p (Suc k) hi k else ref_search ls p lo k k)"
      using True by (subst ref_search.simps) (simp add: Let_def k_def)
    consider (eq) "ls k = p" | (lt) "ls k < p" | (gt) "p < ls k"
      by (metis linorder_neqE)
    then show ?thesis
    proof cases
      case eq
      with k show ?thesis by (simp add: unf hit)
    next
      case lt
      from k have "P (Suc k) hi k (ref_search ls p (Suc k) hi k)" by (intro less) simp
      with lt k True k_def show ?thesis by (auto simp: unf intro: up)
    next
      case gt
      from k have "P lo k k (ref_search ls p lo k k)" by (intro less) simp
      with gt k show ?thesis by (auto simp: unf intro: down)
    qed
  next
    case False
    then have "ref_search ls p lo hi si = (False, si)" by (subst ref_search.simps) simp
    with False show ?thesis by (simp add: out)
  qed
qed

text \<open>
  Every level searched for is met if the entries are strictly increasing; the entry after
  the last one, which the search range includes, does not mislead it.
\<close>

definition incr_upto :: "nat \<Rightarrow> u8 arr \<Rightarrow> bool" where
  "incr_upto n ls \<longleftrightarrow> (\<forall>i j. i < j \<longrightarrow> j < n \<longrightarrow> ls i < ls j)"

lemma ref_search_complete:
  assumes inc: "incr_upto n ls" and "hi \<le> Suc n" and "lo \<le> i" "i < hi" "i < n" "ls i = p"
  shows "fst (ref_search ls p lo hi si)"
proof -
  have "\<forall>i. hi \<le> Suc n \<longrightarrow> lo \<le> i \<longrightarrow> i < hi \<longrightarrow> i < n \<longrightarrow> ls i = p \<longrightarrow> fst (ref_search ls p lo hi si)"
  proof (rule ref_search_rule [where P = "\<lambda>lo hi si r. \<forall>i. hi \<le> Suc n \<longrightarrow> lo \<le> i \<longrightarrow> i < hi \<longrightarrow>
        i < n \<longrightarrow> ls i = p \<longrightarrow> fst r"], goal_cases)
    case (3 lo hi si k r)
    have "Suc k \<le> i" if "hi \<le> Suc n" "lo \<le> i" "i < n" "ls i = p" for i
    proof (rule ccontr)
      assume "\<not> Suc k \<le> i"
      then have ik: "i \<le> k" by simp
      show False
      proof (cases "k < n")
        case True
        with ik inc 3(5) that show False
          unfolding incr_upto_def by (metis le_less order.asym order.strict_trans)
      next
        case False
        with 3(2,4) that show False by linarith
      qed
    qed
    with 3(6) show ?case by blast
  next
    case (4 lo hi si k r)
    have "i < k" if "i < n" "i < hi" "ls i = p" "hi \<le> Suc n" for i
    proof (rule ccontr)
      assume "\<not> i < k"
      with that 4(3) inc show False
        unfolding incr_upto_def
        by (metis linorder_neqE_nat order.asym order.strict_trans less_irrefl)
    qed
    with 4 show ?case by auto
  qed auto
  with assms show ?thesis by blast
qed

lemma ref_search_found:
  assumes "ref_search ls p lo hi si = (True, m)"
  shows "lo \<le> m \<and> m < hi \<and> ls m = p"
proof -
  have "fst (ref_search ls p lo hi si) \<longrightarrow>
     lo \<le> snd (ref_search ls p lo hi si) \<and> snd (ref_search ls p lo hi si) < hi \<and>
     ls (snd (ref_search ls p lo hi si)) = p"
    by (rule ref_search_rule [where P = "\<lambda>lo hi si r. fst r \<longrightarrow>
        lo \<le> snd r \<and> snd r < hi \<and> ls (snd r) = p"]) auto
  with assms show ?thesis by simp
qed

text \<open>A level above all entries ends at the position after the last entry.\<close>

lemma ref_search_above:
  assumes "\<And>i. i \<le> n \<Longrightarrow> ls i < p" and "lo \<le> n"
  shows "ref_search ls p lo (Suc n) si = (False, n)"
proof -
  have "Suc n = Suc n \<longrightarrow> lo \<le> Suc n \<longrightarrow>
     ref_search ls p lo (Suc n) si = (False, if lo \<le> n then n else si)"
  proof (rule ref_search_rule [where P = "\<lambda>lo hi si r. hi = Suc n \<longrightarrow> lo \<le> Suc n \<longrightarrow>
       r = (False, if lo \<le> n then n else si)"], goal_cases)
    case (2 lo hi si k)
    then show ?case using assms(1) [of k] by auto
  next
    case (4 lo hi si k r)
    then show ?case using assms(1) [of k] by auto
  qed (use assms in auto)
  with assms(2) show ?thesis by simp
qed

section \<open>Insertion and removal as list operations\<close>

lemma shift_up_apply: "k \<le> n \<Longrightarrow> shift_up k n ls j = (if k < j \<and> j \<le> n then ls (j - 1) else ls j)"
proof (induction n arbitrary: ls)
  case 0
  then show ?case by (simp add: shift_up_def)
next
  case (Suc n)
  show ?case
  proof (cases "k = Suc n")
    case True
    then show ?thesis by (auto simp: shift_up_def)
  next
    case False
    with Suc.prems have k: "k \<le> n" by simp
    have "shift_up k (Suc n) ls = shift_up k n (ls(Suc n := ls n))"
      using k by (simp add: shift_up_def)
    with Suc.IH [OF k] k show ?thesis by auto
  qed
qed

lemma shift_up_levels:
  assumes "k \<le> n"
  shows "map ((shift_up k n ls)(k := p)) [0..<Suc n] =
           take k (map ls [0..<n]) @ p # drop k (map ls [0..<n])"
  using assms by (intro nth_equalityI) (auto simp: shift_up_apply nth_append nth_Cons' simp del: upt_Suc)

lemma level_add_cases:
  assumes "ls 0 \<le> p" and "n \<le> 120" and "unat ptr < n"
  obtains (found) m where "level_add n p (ls, ptr) = Some (ls, ptr)"
      "ref_search ls p 0 (Suc (unat ptr)) 0 = (True, m)" "m \<le> unat ptr" "ls m = p"
  | (new) m where "level_add n p (ls, ptr) = Some ((shift_up m (unat ptr) ls)(m := p), ptr + 1)"
      "ref_search ls p 0 (Suc (unat ptr)) 0 = (False, m)" "m \<le> unat ptr"
proof -
  have "unat (0 :: u8) \<le> Suc (unat (ucast ptr :: u32))" by simp
  with level_search_ref [of ls p n "ucast ptr" 0 0] assms obtain f m where
    s: "level_search n ls p 0 (ucast ptr) 0 = Some (f, m)"
    and r: "ref_search ls p 0 (Suc (unat ptr)) 0 = (f, unat m)" by auto
  have le: "unat m \<le> unat ptr"
  proof -
    have "snd (ref_search ls p 0 (Suc (unat ptr)) 0) \<le> unat ptr"
      using ref_search_rule [where P = "\<lambda>lo hi si r. si \<le> unat ptr \<longrightarrow> hi \<le> Suc (unat ptr) \<longrightarrow>
          snd r \<le> unat ptr" and ls = ls and p = p and lo = 0 and hi = "Suc (unat ptr)" and si = 0]
      by auto
    with r show ?thesis by simp
  qed
  show thesis
  proof (cases f)
    case True
    with r ref_search_found [of ls p 0 "Suc (unat ptr)" 0 "unat m"] have "ls (unat m) = p" by simp
    with True s r le show thesis by (intro found [of "unat m"]) (auto simp: level_add_def)
  next
    case False
    with s r le assms(3) show thesis by (intro new [of "unat m"]) (auto simp: level_add_def)
  qed
qed

lemma levels_Suc: "unat ptr < 255 \<Longrightarrow> levels ls (ptr + 1) = map ls [0..<Suc (unat ptr)]"
  by (simp add: levels_def unat_Suc_u8 del: upt_Suc)

text \<open>
  Whatever position the search ends at, an insertion keeps every level and adds the new
  one; the entry behind the last one is 0 and cannot be taken for it.
\<close>

lemma level_add_set:
  assumes "ls 0 \<le> p" and "n \<le> 120" and "unat ptr < n" and "ls (unat ptr) \<noteq> p"
  shows "\<exists>ls' ptr'. level_add n p (ls, ptr) = Some (ls', ptr') \<and>
           set (levels ls' ptr') = insert p (set (levels ls ptr))"
proof (rule level_add_cases [of ls p n ptr, OF assms(1-3)])
  fix m
  assume "level_add n p (ls, ptr) = Some (ls, ptr)" "m \<le> unat ptr" "ls m = p"
  moreover have "m \<noteq> unat ptr" using calculation assms(4) by auto
  ultimately show ?thesis by (auto simp: levels_def)
next
  fix m
  assume m: "level_add n p (ls, ptr) = Some ((shift_up m (unat ptr) ls)(m := p), ptr + 1)"
    "m \<le> unat ptr"
  have "levels ((shift_up m (unat ptr) ls)(m := p)) (ptr + 1) =
      take m (levels ls ptr) @ p # drop m (levels ls ptr)"
    using assms m(2) shift_up_levels [OF m(2), of ls p] levels_Suc [of ptr]
    by (simp add: levels_def [of ls])
  then have "set (levels ((shift_up m (unat ptr) ls)(m := p)) (ptr + 1)) =
      insert p (set (take m (levels ls ptr)) \<union> set (drop m (levels ls ptr)))"
    by simp
  also have "\<dots> = insert p (set (levels ls ptr))"
    by (metis append_take_drop_id set_append)
  finally show ?thesis using m(1) by blast
qed

lemma level_add_known:
  assumes "ls 0 \<le> p" and "n \<le> 120" and "unat ptr < n" and "incr_upto (unat ptr) ls"
    and "p \<in> set (levels ls ptr)"
  shows "level_add n p (ls, ptr) = Some (ls, ptr)"
proof (rule level_add_cases [of ls p n ptr, OF assms(1-3)])
  fix m
  assume miss: "ref_search ls p 0 (Suc (unat ptr)) 0 = (False, m)"
  obtain i where "i < unat ptr" "ls i = p" using assms(5) by (auto simp: levels_def)
  with ref_search_complete [OF assms(4), of "Suc (unat ptr)" 0 i p 0] miss
  show ?thesis by simp
qed

lemma level_add_above:
  assumes "n \<le> 120" and "unat ptr < n" and "\<And>i. i \<le> unat ptr \<Longrightarrow> ls i < p"
  shows "level_add n p (ls, ptr) = Some (ls(unat ptr := p), ptr + 1)"
    and "levels (ls(unat ptr := p)) (ptr + 1) = levels ls ptr @ [p]"
proof -
  have r: "ref_search ls p 0 (Suc (unat ptr)) 0 = (False, unat ptr)"
    using ref_search_above [of "unat ptr" ls p 0 0] assms(3) by simp
  have "ls 0 \<le> p" using assms(3) [of 0] by simp
  then show "level_add n p (ls, ptr) = Some (ls(unat ptr := p), ptr + 1)"
  proof (rule level_add_cases [of ls p n ptr, OF _ assms(1,2)])
    fix m
    assume "level_add n p (ls, ptr) = Some ((shift_up m (unat ptr) ls)(m := p), ptr + 1)"
      "ref_search ls p 0 (Suc (unat ptr)) 0 = (False, m)"
    with r show ?thesis by (simp add: shift_up_def)
  qed (use r in simp)
  show "levels (ls(unat ptr := p)) (ptr + 1) = levels ls ptr @ [p]"
    using assms by (simp add: levels_Suc) (simp add: levels_def)
qed

lemma foldo_drop_step:
  assumes "\<And>i. i < k \<Longrightarrow> ls i \<noteq> p" and "ls k = p" and "m < n"
  shows "foldo (level_drop_step n p) [0..<m] (False, ls) =
           Some (k < m, \<lambda>i. if k \<le> i \<and> i < m then ls (Suc i) else ls i)"
  using assms(3)
proof (induction m)
  case (Suc m)
  then show ?case using assms(1) [of m] assms(2)
    by (cases m k rule: linorder_cases)
      (auto simp: foldo_append level_drop_step_def Let_def fun_eq_iff less_Suc_eq)
qed auto

text \<open>The removal of a level that is in the stash removes its first entry and nothing else.\<close>

lemma level_drop_levels:
  assumes "p \<in> set (levels ls ptr)" and "unat ptr < n"
  shows "\<exists>ls'. level_drop n p (ls, ptr) = Some (ls', ptr - 1) \<and>
           levels ls' (ptr - 1) = remove1 p (levels ls ptr) \<and>
           ls' (unat ptr - 1) = ls (unat ptr) \<and> (\<forall>j \<ge> unat ptr. ls' j = ls j)"
proof -
  define k where "k = (LEAST i. ls i = p)"
  obtain i where i: "i < unat ptr" "ls i = p" using assms(1) by (auto simp: levels_def)
  have k: "ls k = p" unfolding k_def using i(2) by (rule LeastI)
  have kp: "k < unat ptr" using i Least_le [of "\<lambda>i. ls i = p" i] by (simp add: k_def)
  have before: "\<And>i. i < k \<Longrightarrow> ls i \<noteq> p" unfolding k_def by (metis not_less_Least)
  define ls' where "ls' = (\<lambda>i. if k \<le> i \<and> i < unat ptr then ls (Suc i) else ls i)"
  have d: "level_drop n p (ls, ptr) = Some (ls', ptr - 1)"
    using foldo_drop_step [of k ls p "unat ptr" n] before k kp assms(2) by (simp add: level_drop_def ls'_def)
  have up: "[0..<unat ptr] = [0..<k] @ k # [Suc k..<unat ptr]"
    using kp upt_split [of 0 k "unat ptr"] by (simp add: upt_conv_Cons)
  have pt: "unat (ptr - 1) = unat ptr - 1" using kp by (intro unat_pred_u8) simp
  have "remove1 p (levels ls ptr) = map ls [0..<k] @ map ls [Suc k..<unat ptr]"
  proof -
    have "p \<notin> set (map ls [0..<k])" by (auto dest: before)
    then show ?thesis by (simp add: levels_def up remove1_append k del: set_map)
  qed
  also have "\<dots> = map ls' [0..<k] @ map ls' [k..<unat ptr - 1]"
    using kp by (auto simp: ls'_def intro!: nth_equalityI)
  also have "\<dots> = levels ls' (ptr - 1)"
    using kp upt_split [of 0 k "unat ptr - 1"] by (simp add: levels_def pt)
  finally show ?thesis using d kp by (auto simp: ls'_def)
qed

lemma incr_upto_levels: "incr_upto (unat ptr) ls = sorted_wrt (<) (levels ls ptr)"
  by (auto simp: incr_upto_def levels_def sorted_wrt_iff_nth_less)

lemma sorted_wrt_remove1: "sorted_wrt (<) xs \<Longrightarrow> sorted_wrt (<) (remove1 (p :: 'a :: order) xs)"
proof (induction xs)
  case (Cons x xs)
  then show ?case using set_remove1_subset [of p xs] by auto
qed simp

end
