(* ===== verification/JmpList.thy ===== *)
theory JmpList
  imports Kvar
begin

text \<open>
  The task ring. The slots in use form a circular list through \<open>jmp_list\<close>: element
  \<open>i\<close> holds the signed distance from slot \<open>i\<close> to the next slot in use, and the last
  one jumps back to slot 0, the base task. \<open>svc_service_task_create\<close> links a slot in,
  \<open>svc_service_task_kill\<close> takes one out, and the scheduler walks the ring.
\<close>

section \<open>The operations\<close>

text \<open>
  \<open>jmp_link i\<close> is the calculation of \<open>svc_service_task_create\<close> for the first idle
  slot \<open>i\<close>; \<open>jmp_pred\<close> and \<open>jmp_unlink\<close> are those of \<open>svc_service_task_kill\<close>.
\<close>

definition jmp_link :: "nat \<Rightarrow> u8 arr \<Rightarrow> u8 arr" where
  "jmp_link i jl =
     (if i = 0 then jl(i := 0)
      else (let j = i - 1;
                jl1 = jl(i := jl j - of_nat (i - j))
            in jl1(j := of_nat (i - j))))"

definition jmp_pred :: "nat \<Rightarrow> u8 arr \<Rightarrow> nat" where
  "jmp_pred i jl = first_idx (\<lambda>j. int i = int j + sint (jl j)) i"

definition jmp_unlink :: "nat \<Rightarrow> u8 arr \<Rightarrow> u8 arr" where
  "jmp_unlink i jl =
     (let j = jmp_pred i jl;
          jl1 = jl(j := jl j + jl i)
      in jl1(i := 0))"

text \<open>One step along the ring, at the widths of \<open>next_task\<close> and of the counter \<open>k\<close>.\<close>

definition jmp_step32 :: "u8 arr \<Rightarrow> u32 \<Rightarrow> u32" where
  "jmp_step32 jl t = t + scast (jl (unat t))"

definition jmp_step8 :: "u8 arr \<Rightarrow> u8 \<Rightarrow> u8" where
  "jmp_step8 jl k = k + jl (unat k)"

section \<open>The interface of the ring\<close>

text \<open>
  What the scheduler relies on and the task services provide: a state \<open>r\<close> of the ring
  has its slots in order, and \<open>nxt\<close> goes round them.
\<close>

locale task_ring =
  fixes inv :: "'r \<Rightarrow> bool"
    and slots :: "'r \<Rightarrow> nat list"
    and nxt :: "'r \<Rightarrow> nat \<Rightarrow> nat"
    and link :: "nat \<Rightarrow> 'r \<Rightarrow> 'r"
    and unlink :: "nat \<Rightarrow> 'r \<Rightarrow> 'r"
    and bound :: nat
  assumes base_slot: "inv r \<Longrightarrow> 0 \<in> set (slots r)"
    and slots_distinct: "inv r \<Longrightarrow> distinct (slots r)"
    and slots_bound: "inv r \<Longrightarrow> i \<in> set (slots r) \<Longrightarrow> i < bound"
    and nxt_slot: "inv r \<Longrightarrow> k < length (slots r) \<Longrightarrow>
          nxt r (slots r ! k) = slots r ! (Suc k mod length (slots r))"
    and inv_link: "inv r \<Longrightarrow> i < bound \<Longrightarrow> i \<notin> set (slots r) \<Longrightarrow>
          {..<i} \<subseteq> set (slots r) \<Longrightarrow> inv (link i r)"
    and slots_link: "inv r \<Longrightarrow> i < bound \<Longrightarrow> i \<notin> set (slots r) \<Longrightarrow>
          {..<i} \<subseteq> set (slots r) \<Longrightarrow> set (slots (link i r)) = insert i (set (slots r))"
    and inv_unlink: "inv r \<Longrightarrow> i \<in> set (slots r) \<Longrightarrow> i \<noteq> 0 \<Longrightarrow> inv (unlink i r)"
    and slots_unlink: "inv r \<Longrightarrow> i \<in> set (slots r) \<Longrightarrow> i \<noteq> 0 \<Longrightarrow>
          set (slots (unlink i r)) = set (slots r) - {i}"
begin

lemma slots_ne: "inv r \<Longrightarrow> slots r \<noteq> []"
  using base_slot by fastforce

lemma nxt_iter:
  "inv r \<Longrightarrow> k < length (slots r) \<Longrightarrow>
     (nxt r ^^ m) (slots r ! k) = slots r ! ((k + m) mod length (slots r))"
proof (induction m)
  case (Suc m)
  then have "(k + m) mod length (slots r) < length (slots r)" by (intro mod_less_divisor) auto
  with Suc show ?case by (simp add: nxt_slot mod_Suc_eq)
qed simp

text \<open>
  The walk from a slot: the slots met in one round, beginning after \<open>i\<close> and ending
  with \<open>i\<close> itself.
\<close>

definition walk :: "'r \<Rightarrow> nat \<Rightarrow> nat list" where
  "walk r i = map (\<lambda>m. (nxt r ^^ Suc m) i) [0..<length (slots r)]"

lemma length_walk: "length (walk r i) = length (slots r)"
  by (simp add: walk_def)

lemma walk_nth: "m < length (slots r) \<Longrightarrow> walk r i ! m = (nxt r ^^ Suc m) i"
  by (simp add: walk_def)

lemma walk_rotate:
  assumes "inv r" and "k < length (slots r)"
  shows "walk r (slots r ! k) = rotate (Suc k) (slots r)"
proof (rule nth_equalityI)
  fix m
  assume "m < length (walk r (slots r ! k))"
  then have m: "m < length (slots r)" by (simp add: length_walk)
  have "walk r (slots r ! k) ! m = slots r ! ((k + Suc m) mod length (slots r))"
    using nxt_iter [OF assms, of "Suc m"] m by (simp add: walk_nth)
  then show "walk r (slots r ! k) ! m = rotate (Suc k) (slots r) ! m"
    using m by (simp add: nth_rotate del: rotate_Suc)
qed (simp add: length_walk)

lemma walk_set: "inv r \<Longrightarrow> i \<in> set (slots r) \<Longrightarrow> set (walk r i) = set (slots r)"
  by (metis in_set_conv_nth set_rotate walk_rotate)

lemma walk_distinct: "inv r \<Longrightarrow> i \<in> set (slots r) \<Longrightarrow> distinct (walk r i)"
  by (metis in_set_conv_nth distinct_rotate walk_rotate slots_distinct)

lemma walk_last: "inv r \<Longrightarrow> i \<in> set (slots r) \<Longrightarrow> last (walk r i) = i"
proof -
  assume inv: "inv r" and i: "i \<in> set (slots r)"
  then obtain k where k: "k < length (slots r)" "i = slots r ! k" by (metis in_set_conv_nth)
  then obtain n where n: "length (slots r) = Suc n" by (cases "length (slots r)") auto
  have "last (walk r i) = walk r i ! n"
    using n by (subst last_conv_nth) (auto simp: length_walk walk_def)
  also have "\<dots> = slots r ! ((k + Suc n) mod Suc n)"
    using nxt_iter [OF inv k(1), of "Suc n"] k n by (simp add: walk_nth)
  also have "(k + Suc n) mod Suc n = k"
    using k n by (simp only: mod_add_self2 mod_less)
  finally show ?thesis using k by simp
qed

lemma nxt_mem: "inv r \<Longrightarrow> i \<in> set (slots r) \<Longrightarrow> nxt r i \<in> set (slots r)"
  by (metis in_set_conv_nth length_greater_0_conv mod_less_divisor nxt_slot slots_ne)

end

section \<open>The ring of the kernel\<close>

text \<open>
  \<open>is_succ live n i k\<close>: \<open>k\<close> is the first slot in use after \<open>i\<close>, or 0 when
  there is none.
\<close>

definition is_succ :: "(nat \<Rightarrow> bool) \<Rightarrow> nat \<Rightarrow> nat \<Rightarrow> nat \<Rightarrow> bool" where
  "is_succ live n i k \<longleftrightarrow>
     (i < k \<and> k < n \<and> live k \<and> (\<forall>m. i < m \<longrightarrow> m < k \<longrightarrow> \<not> live m)) \<or>
     (k = 0 \<and> (\<forall>m. i < m \<longrightarrow> m < n \<longrightarrow> \<not> live m))"

definition ring_ok :: "nat \<Rightarrow> (nat \<Rightarrow> bool) \<Rightarrow> u8 arr \<Rightarrow> bool" where
  "ring_ok n live jl \<longleftrightarrow> n \<le> 120 \<and> live 0 \<and> 0 < n \<and>
     (\<forall>i < n. live i \<longrightarrow> (\<exists>k. is_succ live n i k \<and> int i + sint (jl i) = int k)) \<and>
     (\<forall>i < n. \<not> live i \<longrightarrow> jl i = 0)"

definition jmp_inv :: "nat \<Rightarrow> (nat \<Rightarrow> bool) \<times> u8 arr \<Rightarrow> bool" where
  "jmp_inv n = (\<lambda>(live, jl). ring_ok n live jl)"

definition jmp_slots :: "nat \<Rightarrow> (nat \<Rightarrow> bool) \<times> u8 arr \<Rightarrow> nat list" where
  "jmp_slots n = (\<lambda>(live, jl). filter live [0..<n])"

definition jmp_nxt :: "(nat \<Rightarrow> bool) \<times> u8 arr \<Rightarrow> nat \<Rightarrow> nat" where
  "jmp_nxt = (\<lambda>(live, jl) i. nat (int i + sint (jl i)))"

definition ring_link :: "nat \<Rightarrow> (nat \<Rightarrow> bool) \<times> u8 arr \<Rightarrow> (nat \<Rightarrow> bool) \<times> u8 arr" where
  "ring_link i = (\<lambda>(live, jl). (live(i := True), jmp_link i jl))"

definition ring_unlink :: "nat \<Rightarrow> (nat \<Rightarrow> bool) \<times> u8 arr \<Rightarrow> (nat \<Rightarrow> bool) \<times> u8 arr" where
  "ring_unlink i = (\<lambda>(live, jl). (live(i := False), jmp_unlink i jl))"

subsection \<open>Signed arithmetic on the offsets\<close>

lemma sint_add_u8:
  "-128 \<le> sint x + sint y \<Longrightarrow> sint x + sint y < 128 \<Longrightarrow> sint (x + y :: u8) = sint x + sint y"
  by (simp add: sint_word_ariths signed_take_bit_int_eq_self)

lemma sint_pred_u8:
  "-128 < sint x \<Longrightarrow> sint (x - 1 :: u8) = sint x - 1"
  using sint_lt [of x] by (simp add: sint_word_ariths signed_take_bit_int_eq_self)

lemma is_succ_unique: "is_succ live n i k \<Longrightarrow> is_succ live n i k' \<Longrightarrow> k = k'"
  unfolding is_succ_def by (metis linorder_neqE_nat order.strict_trans)

lemma is_succ_less: "is_succ live n i k \<Longrightarrow> 0 < n \<Longrightarrow> k < n"
  unfolding is_succ_def by auto

lemma ring_ok_bound: "ring_ok n live jl \<Longrightarrow> n \<le> 120"
  by (simp add: ring_ok_def)

lemma ring_ok_base: "ring_ok n live jl \<Longrightarrow> live 0 \<and> 0 < n"
  by (simp add: ring_ok_def)

lemma ring_okD:
  assumes "ring_ok n live jl" and "i < n" and "live i"
  obtains k where "is_succ live n i k" "int i + sint (jl i) = int k" "k < n" "live k"
proof -
  obtain k where k: "is_succ live n i k" "int i + sint (jl i) = int k"
    using assms by (auto simp: ring_ok_def)
  moreover have "k < n" "live k" using k(1) assms(1) by (auto simp: is_succ_def ring_ok_def)
  ultimately show thesis by (rule that)
qed

subsection \<open>Linking and unlinking\<close>

lemma ring_ok_link:
  assumes ok: "ring_ok n live jl" and i: "i < n" "\<not> live i" and below: "\<And>j. j < i \<Longrightarrow> live j"
  shows "ring_ok n (live(i := True)) (jmp_link i jl)"
proof -
  have n: "n \<le> 120" "live 0" using ok by (auto simp: ring_ok_def)
  with i have i0: "i \<noteq> 0" by (metis)
  define j where "j = i - 1"
  have j: "j < n" "live j" "i = Suc j" using i i0 below by (auto simp: j_def)
  obtain K where K: "is_succ live n j K" "int j + sint (jl j) = int K" "K < n"
    using ok j by (metis ring_okD)
  have jn: "j \<noteq> i" using j by simp
  have jl: "jmp_link i jl = jl(i := jl j - 1, j := 1)"
    using i0 j by (simp add: jmp_link_def Let_def)
  have "sint (jl j - 1) = sint (jl j) - 1"
    using K j n by (intro sint_pred_u8) linarith
  then have si: "int i + sint (jl j - 1) = int K" using K(2) j by simp
  have succ_i: "is_succ (live(i := True)) n i K"
    using K(1) i j unfolding is_succ_def by (auto simp: less_Suc_eq)
  have "\<exists>k. is_succ (live(i := True)) n m k \<and> int m + sint (jmp_link i jl m) = int k"
    if m: "m < n" "(live(i := True)) m" for m
  proof -
    consider "m = i" | "m = j" | "m < j" | "i < m" using j by linarith
    then show ?thesis
    proof cases
      case 1
      with succ_i si jn show ?thesis by (intro exI [of _ K]) (simp add: jl)
    next
      case 2
      then have "is_succ (live(i := True)) n m i" using j i by (auto simp: is_succ_def)
      moreover have "int m + sint (jmp_link i jl m) = int i" using 2 j(3) by (subst jl) simp
      ultimately show ?thesis by blast
    next
      case 3
      with m j obtain k where k: "is_succ live n m k" "int m + sint (jl m) = int k"
        using ok by (metis ring_okD fun_upd_other less_Suc_eq less_irrefl)
      have "is_succ live n m (Suc m)" using 3 below j by (auto simp: is_succ_def)
      with k(1) have "k = Suc m" by (rule is_succ_unique)
      with k 3 j below have "is_succ (live(i := True)) n m k" by (auto simp: is_succ_def)
      moreover have "int m + sint (jmp_link i jl m) = int k" using k 3 j(3) by (subst jl) simp
      ultimately show ?thesis by blast
    next
      case 4
      with m obtain k where k: "is_succ live n m k" "int m + sint (jl m) = int k"
        using ok by (metis ring_okD fun_upd_other less_irrefl)
      with 4 n i0 have "is_succ (live(i := True)) n m k" by (auto simp: is_succ_def)
      moreover have "int m + sint (jmp_link i jl m) = int k" using k 4 j(3) by (subst jl) simp
      ultimately show ?thesis by blast
    qed
  qed
  moreover have "jmp_link i jl m = 0" if "m < n" "\<not> (live(i := True)) m" for m
    using ok j(2) that by (subst jl) (auto simp: ring_ok_def split: if_splits)
  ultimately show ?thesis using n ok i by (auto simp: ring_ok_def)
qed

lemma ring_pred:
  assumes ok: "ring_ok n live jl" and i: "i < n" "live i" "i \<noteq> 0"
  obtains q where "q < i" "live q" "jmp_pred i jl = q" "int q + sint (jl q) = int i"
    "is_succ live n q i" "\<And>m. m < n \<Longrightarrow> live m \<Longrightarrow> m \<noteq> q \<Longrightarrow> int m + sint (jl m) \<noteq> int i"
proof -
  define q where "q = (GREATEST j. j < i \<and> live j)"
  have ex: "0 < i \<and> live 0" using ok i by (auto simp: ring_ok_def)
  have q: "q < i \<and> live q"
    unfolding q_def using ex by (rule GreatestI_nat) (use less_imp_le in blast)
  have top: "j \<le> q" if "j < i" "live j" for j
    unfolding q_def using that by (intro Greatest_le_nat) (auto intro: less_imp_le)
  have succ_q: "is_succ live n q i"
    using q top i by (auto simp: is_succ_def not_le [symmetric])
  have uniq: "m = q" if "is_succ live n m i" "live m" for m
  proof (rule antisym)
    show "m \<le> q" using that i by (intro top) (auto simp: is_succ_def)
    show "q \<le> m" using that q i by (auto simp: is_succ_def not_less [symmetric])
  qed
  have off: "int m + sint (jl m) = int i \<longleftrightarrow> m = q" if "m < n" "live m" for m
    using ok that succ_q is_succ_unique uniq by (metis of_nat_eq_iff ring_okD)
  have "jmp_pred i jl = q"
    unfolding jmp_pred_def
  proof (rule first_idx_eqI)
    show "q < i" and "int i = int q + sint (jl q)" using q off [of q] i by auto
    fix j
    assume j: "j < q"
    show "int i \<noteq> int j + sint (jl j)"
    proof (cases "live j")
      case True
      with off [of j] j q i show ?thesis by force
    next
      case False
      then have "jl j = 0" using ok j q i by (auto simp: ring_ok_def)
      with j q show ?thesis by simp
    qed
  qed
  with q succ_q off i show thesis by (intro that [of q]) auto
qed

lemma ring_ok_unlink:
  assumes ok: "ring_ok n live jl" and i: "i < n" "live i" "i \<noteq> 0"
  shows "ring_ok n (live(i := False)) (jmp_unlink i jl)"
proof -
  obtain q where q: "q < i" "live q" "jmp_pred i jl = q" "int q + sint (jl q) = int i"
    "is_succ live n q i" and other: "\<And>m. m < n \<Longrightarrow> live m \<Longrightarrow> m \<noteq> q \<Longrightarrow> int m + sint (jl m) \<noteq> int i"
    using ring_pred [OF ok i] by blast
  obtain K where K: "is_succ live n i K" "int i + sint (jl i) = int K" "K < n"
    using ok i(1,2) by (metis ring_okD)
  have n: "n \<le> 120" "live 0" "0 < n" using ok by (auto simp: ring_ok_def)
  have jl: "jmp_unlink i jl = jl(q := jl q + jl i, i := 0)"
    by (simp add: jmp_unlink_def q(3) Let_def)
  have "sint (jl q + jl i) = sint (jl q) + sint (jl i)"
    using q(1,4) K(2,3) n(1) i(1) by (intro sint_add_u8) linarith+
  then have sq: "int q + sint (jl q + jl i) = int K" using q(4) K(2) by simp
  have succ_q: "is_succ (live(i := False)) n q K"
    using q(1,5) K(1) i unfolding is_succ_def
    by (auto simp: not_less_iff_gr_or_eq)
  have "\<exists>k. is_succ (live(i := False)) n m k \<and> int m + sint (jmp_unlink i jl m) = int k"
    if m: "m < n" "(live(i := False)) m" for m
  proof (cases "m = q")
    case True
    with succ_q sq q(1) show ?thesis by (auto simp: jl)
  next
    case False
    from m obtain k where k: "is_succ live n m k" "int m + sint (jl m) = int k"
      using ok by (metis ring_okD fun_upd_apply)
    with other [of m] m False have "k \<noteq> i" by (auto split: if_splits)
    with k(1) have "is_succ (live(i := False)) n m k" by (auto simp: is_succ_def)
    with k False m show ?thesis by (auto simp: jl split: if_splits)
  qed
  with n ok i q(1,2) show ?thesis by (auto simp: ring_ok_def jl)
qed

subsection \<open>The kernel's ring implements the interface\<close>

lemma filter_upt_succ:
  assumes "k < length (filter live [0..<n])" and "live 0"
  shows "is_succ live n (filter live [0..<n] ! k)
           (filter live [0..<n] ! (Suc k mod length (filter live [0..<n])))"
proof -
  let ?xs = "filter live [0..<n]"
  have srt: "sorted_wrt (<) ?xs" by (intro sorted_wrt_filter) simp
  have mem: "m \<in> set ?xs \<longleftrightarrow> live m \<and> m < n" for m by auto
  have at: "?xs ! j \<in> set ?xs" if "j < length ?xs" for j using that by (rule nth_mem)
  have mono: "?xs ! a < ?xs ! b" if "a < b" "b < length ?xs" for a b
    using srt that by (rule sorted_wrt_nth_less)
  have idx: "\<exists>j < length ?xs. m = ?xs ! j" if "live m" "m < n" for m
    using that mem [of m] by (metis in_set_conv_nth)
  show ?thesis
  proof (cases "Suc k < length ?xs")
    case True
    have "\<not> live m" if "?xs ! k < m" "m < ?xs ! Suc k" for m
    proof
      assume lm: "live m"
      have "?xs ! Suc k < n" using at [OF True] mem by blast
      with that have "m < n" by simp
      with lm idx obtain j where j: "j < length ?xs" "m = ?xs ! j" by blast
      have "k < j" using that(1) j mono [of j k] assms(1) by (cases j k rule: linorder_cases) auto
      moreover have "j < Suc k" using that(2) j mono [of "Suc k" j] True
        by (cases j "Suc k" rule: linorder_cases) auto
      ultimately show False by simp
    qed
    moreover have "?xs ! Suc k < n" "live (?xs ! Suc k)" using at [OF True] by auto
    ultimately have "is_succ live n (?xs ! k) (?xs ! Suc k)"
      unfolding is_succ_def using mono [of k "Suc k"] True by blast
    with True show ?thesis by (simp only: mod_less)
  next
    case False
    with assms(1) have last: "length ?xs = Suc k" by simp
    have first: "?xs ! 0 = 0"
    proof -
      have "0 < n" using assms(1) by (cases n) auto
      with assms(2) obtain j where "j < length ?xs" "0 = ?xs ! j" using idx by blast
      with mono [of 0 j] show ?thesis by (cases j) auto
    qed
    have "\<not> live m" if "?xs ! k < m" "m < n" for m
    proof
      assume "live m"
      with that idx obtain j where j: "j < length ?xs" "m = ?xs ! j" by blast
      then have "j \<le> k" using last by linarith
      then have "?xs ! j \<le> ?xs ! k" using mono [of j k] assms(1) by (cases "j = k") auto
      with that j(2) show False by linarith
    qed
    then have "is_succ live n (?xs ! k) 0" unfolding is_succ_def by blast
    moreover have "Suc k mod length ?xs = 0" using last by (simp only: mod_self)
    ultimately show ?thesis using first by (simp only:)
  qed
qed

interpretation jr: task_ring "jmp_inv n" "jmp_slots n" jmp_nxt ring_link ring_unlink n for n
proof (unfold_locales, goal_cases)
  case (4 r k)
  obtain live jl where r: "r = (live, jl)" by (cases r)
  let ?xs = "filter live [0..<n]"
  have k: "k < length ?xs" and ok: "ring_ok n live jl"
    using 4 by (simp_all add: r jmp_inv_def jmp_slots_def)
  have "?xs ! k < n" "live (?xs ! k)" using nth_mem [OF k] by auto
  then obtain j where "is_succ live n (?xs ! k) j" "int (?xs ! k) + sint (jl (?xs ! k)) = int j"
    using ok by (metis ring_okD)
  moreover have "live 0" using ok by (simp add: ring_ok_def)
  ultimately show ?case
    using filter_upt_succ [OF k] is_succ_unique by (fastforce simp: r jmp_slots_def jmp_nxt_def)
next
  case (5 r i)
  then show ?case
    by (cases r) (auto simp: jmp_inv_def jmp_slots_def ring_link_def intro!: ring_ok_link)
next
  case (7 r i)
  then show ?case
    by (cases r) (auto simp: jmp_inv_def jmp_slots_def ring_unlink_def intro!: ring_ok_unlink)
qed (auto simp: jmp_inv_def jmp_slots_def ring_link_def ring_unlink_def ring_ok_def
       split: if_splits)

subsection \<open>The steps of the scheduler follow the ring\<close>

lemma jmp_nxt_int:
  assumes "ring_ok n live jl" and "i < n" and "live i"
  shows "int (jmp_nxt (live, jl) i) = int i + sint (jl i)"
    and "jmp_nxt (live, jl) i < n" and "live (jmp_nxt (live, jl) i)"
proof -
  obtain k where k: "int i + sint (jl i) = int k" "k < n" "live k"
    by (rule ring_okD [OF assms])
  have eq: "jmp_nxt (live, jl) i = k" by (simp add: jmp_nxt_def k(1))
  show "int (jmp_nxt (live, jl) i) = int i + sint (jl i)" by (simp only: eq k(1))
  show "jmp_nxt (live, jl) i < n" by (simp only: eq k(2))
  show "live (jmp_nxt (live, jl) i)" by (simp only: eq k(3))
qed

lemma jmp_nxt_bound:
  assumes "ring_ok n live jl" and "i < n" and "live i"
  shows "jmp_nxt (live, jl) i < 256"
  using jmp_nxt_int(2) [OF assms] ring_ok_bound [OF assms(1)] by linarith

lemma jmp_step32_nxt:
  assumes "ring_ok n live jl" and "unat t < n" and "live (unat t)"
  shows "unat (jmp_step32 jl t) = jmp_nxt (live, jl) (unat t)"
proof -
  let ?k = "jmp_nxt (live, jl) (unat t)"
  have "jmp_step32 jl t = word_of_int (int (unat t)) + word_of_int (sint (jl (unat t)))"
    by (simp only: jmp_step32_def scast_eq of_int_of_nat_eq of_nat_unat ucast_id word_of_int_uint)
  also have "\<dots> = word_of_int (int ?k)"
    by (simp only: jmp_nxt_int(1) [OF assms] of_int_add)
  finally have eq: "jmp_step32 jl t = of_nat ?k" by (simp only: of_int_of_nat_eq)
  have "?k < 2 ^ 32" using jmp_nxt_bound [OF assms] by simp
  then show ?thesis by (simp only: eq unat_of_nat_u32)
qed

lemma jmp_step8_nxt:
  assumes "ring_ok n live jl" and "unat k < n" and "live (unat k)"
  shows "unat (jmp_step8 jl k) = jmp_nxt (live, jl) (unat k)"
proof -
  let ?k = "jmp_nxt (live, jl) (unat k)"
  have "jmp_step8 jl k = word_of_int (int (unat k)) + word_of_int (sint (jl (unat k)))"
    by (simp add: jmp_step8_def)
  also have "\<dots> = word_of_int (int ?k)"
    by (simp only: jmp_nxt_int(1) [OF assms] of_int_add)
  finally have eq: "jmp_step8 jl k = of_nat ?k" by (simp only: of_int_of_nat_eq)
  show ?thesis using unat_of_nat_u8 [of ?k] jmp_nxt_bound [OF assms] by (simp only: eq)
qed

end
