(* ===== verification/SvrTask.thy ===== *)
theory SvrTask
  imports LevelStash JmpList
begin

text \<open>
  The task management services of \<^verbatim>\<open>src/service/svr_task.c\<close>: create, kill,
  hibernate, priority promotion and demotion, each as one definition over the kernel
  variables.
\<close>

section \<open>Task creation\<close>

definition set_obj_error :: "u32 \<Rightarrow> u32 \<Rightarrow> kstate \<Rightarrow> kstate" where
  "set_obj_error e obj s = on_mcu (obj_update obj (\<lambda>t. t\<lparr>t_error := ucast e\<rparr>)) s"

text \<open>The checks on the requested priority (lines 44-60); 0 when it is valid.\<close>

definition create_checks :: "u32 \<Rightarrow> kstate \<Rightarrow> u32" where
  "create_checks obj s =
     (let p = t_priority (objs (mcu s) obj) in
      if 127 < p then ERROR_INVALID_TASK_PRIORITY
      else if p = 0 \<and> first_start s then ERROR_INVALID_TASK_PRIORITY
      else ERROR_NONE)"

definition clear_stack :: "nat \<Rightarrow> u32 \<Rightarrow> mcu \<Rightarrow> mcu" where
  "clear_stack n base m = fold (\<lambda>j. mem_store (base + 4 * of_nat j) 0) [0..<n] m"

definition make_task_id :: "nat \<Rightarrow> u16 \<Rightarrow> u32" where
  "make_task_id i cnt = push_bit 16 (of_nat i) OR (ucast cnt + 1)"

text \<open>Entering the object in the task table (lines 92-102).\<close>

definition create_register :: "nat \<Rightarrow> u32 \<Rightarrow> kstate \<Rightarrow> kstate" where
  "create_register i obj s =
     (let tid = make_task_id i (total_task_count s);
          s1 = s\<lparr>task_obj := (task_obj s)(i := obj)\<rparr>;
          s2 = on_mcu (obj_update obj (\<lambda>t. t\<lparr>t_task_id := tid\<rparr>)) s1;
          s3 = s2\<lparr>task_id := (task_id s2)(i := tid)\<rparr>;
          t = objs (mcu s3) obj;
          s4 = (if t_hibernate t AND HIBERNATE_STATE_MASK \<noteq> HIBERNATE_STATE_MASK
                then s3\<lparr>state := (state s3)(i := TASK_STATE_SLEEP)\<rparr> else s3)
      in s4\<lparr>priority_cur := (priority_cur s4)(i := t_priority t)\<rparr>)"

definition create_levels :: "nat \<Rightarrow> nat \<Rightarrow> kstate \<Rightarrow> kstate option" where
  "create_levels n i s = do {
     (ls, ptr) \<leftarrow> level_add n (priority_cur s i) (level_stash s, lstash_ptr s);
     Some (s\<lparr>level_stash := ls, lstash_ptr := ptr\<rparr>)
   }"

definition max_level_step :: "port \<Rightarrow> nat \<Rightarrow> kstate \<Rightarrow> kstate" where
  "max_level_step A j s =
     (if max_level s < priority_cur s j \<and> state s j \<noteq> TASK_STATE_IDLE then
        (let s1 = s\<lparr>max_level := priority_cur s j, alc := 0, hlc := 0\<rparr> in
         if first_start s1 then on_mcu (ENABLE_SCHEDULER A) s1 else s1)
      else s)"

definition hib_masked :: "u8 \<Rightarrow> bool" where
  "hib_masked st \<longleftrightarrow> st AND HIBERNATE_STATE_MASK = HIBERNATE_STATE_MASK"

text \<open>The level counts and the start of the scheduler (lines 157-171).\<close>

definition create_counts :: "port \<Rightarrow> nat \<Rightarrow> kstate \<Rightarrow> kstate" where
  "create_counts A i s =
     (let s1 = (if priority_cur s i = max_level s
                then (if hib_masked (state s i) then s\<lparr>hlc := hlc s + 1\<rparr> else s\<lparr>alc := alc s + 1\<rparr>)
                else s)
      in if unat (alc s1) + unat (hlc s1) = 2 \<and> first_start s1
         then on_mcu (ENABLE_SCHEDULER A) s1 else s1)"

definition svc_service_task_create :: svc_service where
  "svc_service_task_create A svc_num arguments s =
     (let obj = arguments 0; arg = arguments 1 in
      if unat (task_count s) < MAX_TASK_COUNT A then
        (let i = first_idx (\<lambda>i. state s i = TASK_STATE_IDLE) (MAX_TASK_COUNT A);
             e = create_checks obj s in
         if e \<noteq> ERROR_NONE then Some (e, svc_num, arguments, set_obj_error e obj s)
         else do {
           chk (i < MAX_TASK_COUNT A);
           let psp = pstack_addr s + of_nat (i * TASK_STACK_SIZE A * 4);
           let s1 = s\<lparr>PSP_Array := (PSP_Array s)(i := psp)\<rparr>;
           (if psp = 0 then
              Some (ERROR_OUT_OF_MEMORY, svc_num, arguments, set_obj_error ERROR_OUT_OF_MEMORY obj s1)
            else do {
              let s2 = on_mcu (clear_stack (TASK_STACK_SIZE A div 4) psp) s1;
              let s3 = s2\<lparr>jmp_list := jmp_link i (jmp_list s2)\<rparr>;
              let s4 = create_register i obj s3;
              s5 \<leftarrow> create_levels (MAX_TASK_COUNT A) i s4;
              let s6 = arch_task_stack_init A i (t_ptr_func (objs (mcu s5) obj)) arg s5;
              let s7 = s6\<lparr>total_task_count := total_task_count s6 + 1, task_count := task_count s6 + 1\<rparr>;
              let s8 = fold (max_level_step A) [0..<MAX_TASK_COUNT A] s7;
              Some (ERROR_NONE, svc_num, arguments, create_counts A i s8)
            })
         })
      else Some (ERROR_MAX_PROCESS_COUNT, svc_num, arguments,
                 set_obj_error ERROR_MAX_PROCESS_COUNT obj s))"

section \<open>Task kill\<close>

definition pid_slot :: "u32 \<Rightarrow> nat" where
  "pid_slot pid = unat (ucast (drop_bit 16 pid) :: u8)"

text \<open>Lines 204-232: the level leaves the stash unless another slot has the same priority.\<close>

definition kill_levels :: "nat \<Rightarrow> nat \<Rightarrow> kstate \<Rightarrow> kstate option" where
  "kill_levels n i s =
     (if list_ex (\<lambda>j. j \<noteq> i \<and> priority_cur s j = priority_cur s i) [0..<n] then Some s
      else do {
        (ls, ptr) \<leftarrow> level_drop n (priority_cur s i) (level_stash s, lstash_ptr s);
        Some (s\<lparr>level_stash := ls, lstash_ptr := ptr\<rparr>)
      })"

text \<open>Lines 236-239; \<open>task_obj[i]\<close> is dereferenced, so it must not be null.\<close>

definition kill_table :: "nat \<Rightarrow> kstate \<Rightarrow> kstate option" where
  "kill_table i s = do {
     chk (task_obj s i \<noteq> 0);
     let s1 = s\<lparr>state := (state s)(i := TASK_STATE_IDLE)\<rparr>;
     let s2 = on_mcu (obj_update (task_obj s1 i) (\<lambda>t. t\<lparr>t_task_id := 0\<rparr>)) s1;
     Some (s2\<lparr>task_id := (task_id s2)(i := 0), task_obj := (task_obj s2)(i := 0)\<rparr>)
   }"

text \<open>Lines 250-267: out of the ring; a task that ends itself moves \<open>next_task\<close> on.\<close>

definition kill_jmp :: "nat \<Rightarrow> kstate \<Rightarrow> kstate" where
  "kill_jmp i s =
     (let j = jmp_pred i (jmp_list s);
          s1 = s\<lparr>jmp_list := (jmp_list s)(j := jmp_list s j + jmp_list s i)\<rparr>;
          s2 = (if self_kill s1 then s1\<lparr>next_task := next_task s1 + scast (jmp_list s1 i)\<rparr> else s1)
      in s2\<lparr>jmp_list := (jmp_list s2)(i := 0)\<rparr>)"

definition kill_max_step :: "nat \<Rightarrow> kstate \<Rightarrow> kstate" where
  "kill_max_step i s =
     (if max_level s \<le> priority_cur s i \<and> state s i \<noteq> TASK_STATE_IDLE
      then s\<lparr>max_level := priority_cur s i\<rparr> else s)"

definition kill_count_step :: "nat \<Rightarrow> kstate \<Rightarrow> kstate" where
  "kill_count_step i s =
     (if priority_cur s i = max_level s
      then (if hib_masked (state s i) then s\<lparr>hlc := hlc s + 1\<rparr> else s\<lparr>alc := alc s + 1\<rparr>)
      else s)"

definition svc_service_task_kill :: svc_service where
  "svc_service_task_kill A svc_num arguments s =
     (let pid = arguments 0; self_kill_flag = arguments 1; i = pid_slot pid in
      do {
        chk (i < MAX_TASK_COUNT A);
        s1 \<leftarrow> kill_levels (MAX_TASK_COUNT A) i s;
        s2 \<leftarrow> kill_table i s1;
        let s3 = (if self_kill_flag = 1 then s2\<lparr>self_kill := True\<rparr> else s2);
        let svc_num' = (if self_kill_flag = 1 then HAND_OVER else svc_num);
        let s4 = s3\<lparr>task_count := task_count s3 - 1\<rparr>;
        let s5 = kill_jmp i s4;
        let s6 = s5\<lparr>max_level := 0, alc := 0, hlc := 0\<rparr>;
        let s7 = fold kill_max_step [0..<MAX_TASK_COUNT A] s6;
        let s8 = fold kill_count_step [0..<MAX_TASK_COUNT A] s7;
        Some (ERROR_NONE, svc_num', arguments, on_mcu (ENABLE_SCHEDULER A) s8)
      })"

section \<open>Hibernation\<close>

definition svc_service_hibernate :: svc_service where
  "svc_service_hibernate A svc_num arguments s =
     (let process_no = arguments 0; hib_op1 = arguments 1; hib_op2 = arguments 2;
          val = arguments 3; c = unat (current_task s) in
      do {
        chk (c < MAX_TASK_COUNT A);
        let st = (if process_no AND HIBEARNTE_REV_MASK = HIBEARNTE_REV_MASK
                  then TASK_STATE_HIBERNATE_L else TASK_STATE_HIBERNATE_G);
        let s1 = s\<lparr>state := (state s)(c := st), op1 := (op1 s)(c := hib_op1),
                   op2 := (op2 s)(c := hib_op2), hib_value := (hib_value s)(c := val)\<rparr>;
        let s2 = (if priority_cur s1 c = max_level s1
                  then s1\<lparr>hlc := hlc s1 + 1, alc := alc s1 - 1\<rparr> else s1);
        s3 \<leftarrow> TRIGGER_SCHEDULER A (s2\<lparr>normal_schedule := False\<rparr>);
        Some (ERROR_NONE, svc_num, arguments, s3)
      })"

section \<open>Priority promotion and demotion\<close>

definition promote_level :: "kstate \<Rightarrow> kstate" where
  "promote_level s =
     (let s1 = (if maxp_level s = 127
                then s\<lparr>maxp_level := max_level s, max_level := 127, alcp := alc s, hlcp := hlc s,
                       alc := 1, hlc := 0\<rparr>
                else s)
      in s1\<lparr>max_level := max_level s1 + 1\<rparr>)"

definition svc_service_priority_promote :: svc_service where
  "svc_service_priority_promote A svc_num arguments s =
     (let mutex_address = arguments 0;
          s1 = promote_level s;
          index = unat (drop_bit 16 (mem (mcu s1) mutex_address));
          c = unat (current_task s1) in
      do {
        chk (index < MAX_TASK_COUNT A);
        let s2 = s1\<lparr>mutex_stash := (mutex_stash s1)(index := mutex_address),
                    priority_stash := (priority_stash s1)(index := priority_cur s1 index),
                    priority_cur := (priority_cur s1)(index := max_level s1)\<rparr>;
        chk (c < MAX_TASK_COUNT A);
        let s3 = s2\<lparr>state := (state s2)(c := TASK_STATE_HOLD),
                    op1 := (op1 s2)(c := mutex_address), normal_schedule := False\<rparr>;
        s4 \<leftarrow> TRIGGER_SCHEDULER A s3;
        Some (ERROR_NONE, svc_num, arguments, s4)
      })"

definition demote_level :: "kstate \<Rightarrow> kstate" where
  "demote_level s =
     (let s1 = s\<lparr>max_level := max_level s - 1\<rparr> in
      if max_level s1 = 127
      then s1\<lparr>max_level := maxp_level s1, maxp_level := 127, alc := alcp s1, hlc := hlcp s1\<rparr>
      else s1)"

definition release_holder :: "nat \<Rightarrow> u32 \<Rightarrow> kstate \<Rightarrow> kstate" where
  "release_holder n mutex s =
     (let i = first_idx (\<lambda>i. state s i = TASK_STATE_HOLD \<and> op1 s i = mutex) n in
      if i < n then s\<lparr>state := (state s)(i := TASK_STATE_SLEEP)\<rparr> else s)"

definition svc_service_priority_demote :: svc_service where
  "svc_service_priority_demote A svc_num arguments s =
     (let c = unat (current_task s) in
      do {
        chk (c < MAX_TASK_COUNT A);
        let s1 = s\<lparr>priority_cur := (priority_cur s)(c := priority_stash s c),
                   priority_stash := (priority_stash s)(c := 0)\<rparr>;
        let s2 = demote_level s1;
        let s3 = release_holder (MAX_TASK_COUNT A) (mutex_stash s2 c) s2;
        let s4 = s3\<lparr>mutex_stash := (mutex_stash s3)(c := 0)\<rparr>;
        Some (ERROR_NONE, HAND_OVER, arguments, s4)
      })"

end
