(* ===== verification/Scheduler.thy ===== *)
theory Scheduler
  imports SvrTask
begin

text \<open>
  The scheduler of \<^verbatim>\<open>src/kernel.c\<close> (lines 268-378) and the part of the context
  switch that changes kernel variables. The two loops of the scheduler end only if the
  ring and the level stash are in order, so they are partial functions: \<open>None\<close> when
  they leave an array or do not end.
\<close>

section \<open>The operations\<close>

text \<open>One pass of the first loop: a hibernating task whose condition holds is woken.\<close>

definition hib_wake :: "nat \<Rightarrow> kstate \<Rightarrow> kstate" where
  "hib_wake k s =
     (let s1 = s\<lparr>state := (state s)(k := TASK_STATE_SLEEP)\<rparr> in
      if priority_cur s k = max_level s then s1\<lparr>hlc := hlc s1 - 1, alc := alc s1 + 1\<rparr> else s1)"

definition hib_check :: "nat \<Rightarrow> kstate \<Rightarrow> kstate" where
  "hib_check k s =
     (let d = (\<lambda>s. mem (mcu s) (op1 s k) - mem (mcu s) (op2 s k));
          s1 = (if state s k = TASK_STATE_HIBERNATE_G \<and> hib_value s k \<le> d s
                then hib_wake k s else s)
      in if state s1 k = TASK_STATE_HIBERNATE_L \<and> d s1 \<le> hib_value s1 k
         then hib_wake k s1 else s1)"

partial_function (option) hib_loop :: "nat \<Rightarrow> u8 \<Rightarrow> kstate \<Rightarrow> kstate option" where
  "hib_loop n k s = do {
     chk (unat k < n);
     let s1 = hib_check (unat k) s;
     let k1 = jmp_step8 (jmp_list s1) k;
     (if ucast k1 = next_task s1 then Some s1 else hib_loop n k1 s1)
   }"

text \<open>
  The second loop: \<open>level\<close> and \<open>lptr\<close> are the locals of the function; the result is
  the state with the new \<open>next_task\<close> and the level it was found at.
\<close>

definition pass_current :: "nat \<Rightarrow> kstate \<Rightarrow> u8 \<Rightarrow> u8 \<Rightarrow> (u8 \<times> u8) option" where
  "pass_current n s level lptr =
     (if current_task s = next_task s \<and> enable_dws s then
        (let lptr1 = lptr - 1 in do { chk (unat lptr1 < n); Some (level_stash s (unat lptr1), lptr1) })
      else Some (level, lptr))"

partial_function (option) sched_loop :: "nat \<Rightarrow> u8 \<Rightarrow> u8 \<Rightarrow> kstate \<Rightarrow> (kstate \<times> u8) option" where
  "sched_loop n level lptr s = do {
     chk (unat (next_task s) < n);
     let s1 = s\<lparr>next_task := jmp_step32 (jmp_list s) (next_task s)\<rparr>;
     (level1, lptr1) \<leftarrow> pass_current n s1 level lptr;
     chk (unat (next_task s1) < n);
     (if state s1 (unat (next_task s1)) = TASK_STATE_SLEEP \<and>
         priority_cur s1 (unat (next_task s1)) = level1
      then Some (s1, level1)
      else sched_loop n level1 lptr1 s1)
   }"

definition sched_enter :: "port \<Rightarrow> kstate \<Rightarrow> kstate option" where
  "sched_enter A s =
     (let s1 = on_mcu (DISABLE_SCHEDULER A) s in
      do {
        s2 \<leftarrow> (if normal_schedule s1
               then do {
                 chk (unat (current_task s1) < MAX_TASK_COUNT A);
                 Some (s1\<lparr>state := (state s1)(unat (current_task s1) := TASK_STATE_SLEEP)\<rparr>)
               }
               else Some (s1\<lparr>normal_schedule := True\<rparr>));
        Some (on_mcu (suspend_task A (current_task s2)) s2)
      })"

definition sched_leave :: "port \<Rightarrow> u8 \<Rightarrow> kstate \<Rightarrow> kstate" where
  "sched_leave A level s =
     (let s1 = s\<lparr>state := (state s)(unat (next_task s) := TASK_STATE_ACTIVE)\<rparr>;
          s2 = on_mcu (resume_task A (next_task s1)) s1;
          s3 = on_mcu (SCHEDULER_TIMER_RESET A) s2;
          s4 = (if alc s3 = 1 \<and> hlc s3 = 0 then on_mcu (DISABLE_SCHEDULER A) s3
                else on_mcu (ENABLE_SCHEDULER A) s3);
          s5 = (if level \<noteq> max_level s4 then on_mcu (ENABLE_SCHEDULER A) s4 else s4)
      in on_mcu (TRIGGER_CONTEXT_SWITCH A) s5)"

definition scheduler :: "port \<Rightarrow> kstate \<Rightarrow> kstate option" where
  "scheduler A s = do {
     s1 \<leftarrow> sched_enter A s;
     s2 \<leftarrow> hib_loop (MAX_TASK_COUNT A) (ucast (next_task s1)) s1;
     (s3, level) \<leftarrow> sched_loop (MAX_TASK_COUNT A) (max_level s2) (lstash_ptr s2 - 1) s2;
     Some (sched_leave A level s3)
   }"

text \<open>
  The part of the context switch that changes kernel variables: the stack pointer \<open>psp\<close>
  of the interrupted task is saved and the next task becomes the current one.
\<close>

definition context_switch :: "u32 \<Rightarrow> kstate \<Rightarrow> kstate" where
  "context_switch psp s =
     (let s1 = s\<lparr>PSP_Array := (PSP_Array s)(unat (current_task s) := psp)\<rparr>
      in s1\<lparr>current_task := next_task s1\<rparr>)"

text \<open>A tick: the scheduler runs, and after it the context switch it has requested.\<close>

definition kernel_tick :: "port \<Rightarrow> u32 \<Rightarrow> kstate \<Rightarrow> kstate option" where
  "kernel_tick A psp s = map_option (context_switch psp) (scheduler A s)"

end
