(* ===== verification/TaskInv.thy ===== *)
theory TaskInv
  imports SvrTask
begin

text \<open>
  The invariants of the task table and that creation and kill keep them: the ring of the
  slots in use, the identifiers, the highest level with its counts, and the level stash.
\<close>

section \<open>The invariant of the task table\<close>

definition live :: "kstate \<Rightarrow> nat \<Rightarrow> bool" where
  "live s i \<longleftrightarrow> state s i \<noteq> TASK_STATE_IDLE"

text \<open>
  A slot in use has an object, and an identifier that carries the slot in its upper half;
  a slot that is not in use has neither. Two slots never share an identifier.
\<close>

definition table_ok :: "nat \<Rightarrow> kstate \<Rightarrow> bool" where
  "table_ok n s \<longleftrightarrow> (\<forall>i < n.
     if live s i then task_obj s i \<noteq> 0 \<and> task_id s i \<noteq> 0 \<and> pid_slot (task_id s i) = i
     else task_obj s i = 0 \<and> task_id s i = 0)"

definition kinv :: "nat \<Rightarrow> kstate \<Rightarrow> bool" where
  "kinv n s \<longleftrightarrow> ring_ok n (live s) (jmp_list s) \<and> table_ok n s \<and>
     unat (task_count s) = length (filter (live s) [0..<n])"

text \<open>The highest level in use, and the stash of the levels in use.\<close>

definition max_ok :: "nat \<Rightarrow> kstate \<Rightarrow> bool" where
  "max_ok n s \<longleftrightarrow> (\<forall>i < n. live s i \<longrightarrow> priority_cur s i \<le> max_level s) \<and>
     (\<exists>i < n. live s i \<and> priority_cur s i = max_level s)"

definition stash_ok :: "nat \<Rightarrow> kstate \<Rightarrow> bool" where
  "stash_ok n s \<longleftrightarrow> level_stash s 0 = 0 \<and> 0 < unat (lstash_ptr s) \<and> unat (lstash_ptr s) \<le> n \<and>
     incr_upto (unat (lstash_ptr s)) (level_stash s) \<and>
     (\<forall>i < n. live s i \<longrightarrow> priority_cur s i \<in> set (levels (level_stash s) (lstash_ptr s))) \<and>
     (\<forall>j < n. unat (lstash_ptr s) \<le> j \<longrightarrow> level_stash s j = 0)"

lemma table_okD:
  assumes "table_ok n s" and "i < n" and "live s i"
  shows "task_obj s i \<noteq> 0 \<and> task_id s i \<noteq> 0 \<and> pid_slot (task_id s i) = i"
  using assms by (auto simp: table_ok_def)

section \<open>What the parts of creation and kill change\<close>

lemma on_mcu_fields [simp]:
  "jmp_list (on_mcu f s) = jmp_list s" "state (on_mcu f s) = state s"
  "task_obj (on_mcu f s) = task_obj s" "task_id (on_mcu f s) = task_id s"
  "priority_cur (on_mcu f s) = priority_cur s" "task_count (on_mcu f s) = task_count s"
  "total_task_count (on_mcu f s) = total_task_count s"
  "level_stash (on_mcu f s) = level_stash s" "lstash_ptr (on_mcu f s) = lstash_ptr s"
  "max_level (on_mcu f s) = max_level s" "alc (on_mcu f s) = alc s" "hlc (on_mcu f s) = hlc s"
  "first_start (on_mcu f s) = first_start s" "current_task (on_mcu f s) = current_task s"
  "next_task (on_mcu f s) = next_task s" "enable_dws (on_mcu f s) = enable_dws s"
  "permissions (on_mcu f s) = permissions s" "PSP_Array (on_mcu f s) = PSP_Array s"
  "normal_schedule (on_mcu f s) = normal_schedule s" "self_kill (on_mcu f s) = self_kill s"
  "op1 (on_mcu f s) = op1 s" "op2 (on_mcu f s) = op2 s" "hib_value (on_mcu f s) = hib_value s"
  "pstack_addr (on_mcu f s) = pstack_addr s"
  "mcu (on_mcu f s) = f (mcu s)"
  by (simp_all add: on_mcu_def)

lemma max_level_step_frame [kframe]:
  "jmp_list (max_level_step A j s) = jmp_list s" "state (max_level_step A j s) = state s"
  "task_obj (max_level_step A j s) = task_obj s" "task_id (max_level_step A j s) = task_id s"
  "priority_cur (max_level_step A j s) = priority_cur s"
  "task_count (max_level_step A j s) = task_count s"
  "total_task_count (max_level_step A j s) = total_task_count s"
  "level_stash (max_level_step A j s) = level_stash s"
  "lstash_ptr (max_level_step A j s) = lstash_ptr s"
  "first_start (max_level_step A j s) = first_start s"
  "current_task (max_level_step A j s) = current_task s"
  "next_task (max_level_step A j s) = next_task s"
  "permissions (max_level_step A j s) = permissions s"
  "enable_dws (max_level_step A j s) = enable_dws s"
  "normal_schedule (max_level_step A j s) = normal_schedule s"
  "self_kill (max_level_step A j s) = self_kill s" "pstack_addr (max_level_step A j s) = pstack_addr s"
  by (simp_all add: max_level_step_def Let_def)

lemma fold_max_level_frame [kframe]:
  "jmp_list (fold (max_level_step A) xs s) = jmp_list s"
  "state (fold (max_level_step A) xs s) = state s"
  "task_obj (fold (max_level_step A) xs s) = task_obj s"
  "task_id (fold (max_level_step A) xs s) = task_id s"
  "priority_cur (fold (max_level_step A) xs s) = priority_cur s"
  "task_count (fold (max_level_step A) xs s) = task_count s"
  "total_task_count (fold (max_level_step A) xs s) = total_task_count s"
  "level_stash (fold (max_level_step A) xs s) = level_stash s"
  "lstash_ptr (fold (max_level_step A) xs s) = lstash_ptr s"
  "first_start (fold (max_level_step A) xs s) = first_start s"
  "current_task (fold (max_level_step A) xs s) = current_task s"
  "next_task (fold (max_level_step A) xs s) = next_task s"
  "permissions (fold (max_level_step A) xs s) = permissions s"
  "enable_dws (fold (max_level_step A) xs s) = enable_dws s"
  "normal_schedule (fold (max_level_step A) xs s) = normal_schedule s"
  "self_kill (fold (max_level_step A) xs s) = self_kill s" "pstack_addr (fold (max_level_step A) xs s) = pstack_addr s"
  by (induction xs arbitrary: s) (simp_all add: max_level_step_frame)

lemma create_counts_frame [kframe]:
  "jmp_list (create_counts A i s) = jmp_list s" "state (create_counts A i s) = state s"
  "task_obj (create_counts A i s) = task_obj s" "task_id (create_counts A i s) = task_id s"
  "priority_cur (create_counts A i s) = priority_cur s"
  "task_count (create_counts A i s) = task_count s"
  "total_task_count (create_counts A i s) = total_task_count s"
  "level_stash (create_counts A i s) = level_stash s"
  "lstash_ptr (create_counts A i s) = lstash_ptr s" "max_level (create_counts A i s) = max_level s"
  "first_start (create_counts A i s) = first_start s"
  "current_task (create_counts A i s) = current_task s"
  "next_task (create_counts A i s) = next_task s"
  "permissions (create_counts A i s) = permissions s"
  "enable_dws (create_counts A i s) = enable_dws s"
  "normal_schedule (create_counts A i s) = normal_schedule s"
  "self_kill (create_counts A i s) = self_kill s" "pstack_addr (create_counts A i s) = pstack_addr s"
  by (simp_all add: create_counts_def Let_def)

text \<open>The new highest level: the old one, or the highest of the slots in use above it.\<close>

lemma fold_max_level:
  "max_level s \<le> max_level (fold (max_level_step A) xs s) \<and>
   (\<forall>j \<in> set xs. live s j \<longrightarrow> priority_cur s j \<le> max_level (fold (max_level_step A) xs s)) \<and>
   (max_level (fold (max_level_step A) xs s) = max_level s \<and>
      alc (fold (max_level_step A) xs s) = alc s \<and> hlc (fold (max_level_step A) xs s) = hlc s \<or>
    max_level s < max_level (fold (max_level_step A) xs s) \<and>
      (\<exists>j \<in> set xs. live s j \<and> priority_cur s j = max_level (fold (max_level_step A) xs s)) \<and>
      alc (fold (max_level_step A) xs s) = 0 \<and> hlc (fold (max_level_step A) xs s) = 0)"
proof (induction xs arbitrary: s)
  case (Cons x xs)
  define s1 where "s1 = max_level_step A x s"
  have fr: "live s1 = live s" "priority_cur s1 = priority_cur s"
    by (simp_all add: s1_def live_def max_level_step_frame fun_eq_iff)
  have s1: "max_level s1 = (if max_level s < priority_cur s x \<and> live s x then priority_cur s x else max_level s)"
    "max_level s < priority_cur s x \<and> live s x \<Longrightarrow> alc s1 = 0 \<and> hlc s1 = 0"
    "\<not> (max_level s < priority_cur s x \<and> live s x) \<Longrightarrow> alc s1 = alc s \<and> hlc s1 = hlc s"
    by (auto simp: s1_def max_level_step_def live_def Let_def)
  define m where "m = max_level (fold (max_level_step A) xs s1)"
  have IH: "max_level s1 \<le> m" "\<forall>j \<in> set xs. live s j \<longrightarrow> priority_cur s j \<le> m"
    "m = max_level s1 \<and> alc (fold (max_level_step A) xs s1) = alc s1 \<and>
       hlc (fold (max_level_step A) xs s1) = hlc s1 \<or>
     max_level s1 < m \<and> (\<exists>j \<in> set xs. live s j \<and> priority_cur s j = m) \<and>
       alc (fold (max_level_step A) xs s1) = 0 \<and> hlc (fold (max_level_step A) xs s1) = 0"
    using Cons [of s1] unfolding fr m_def by - (elim conjE, assumption)+
  have f: "fold (max_level_step A) (x # xs) s = fold (max_level_step A) xs s1" by (simp add: s1_def)
  show ?case
  proof (cases "max_level s < priority_cur s x \<and> live s x")
    case True
    then have "max_level s1 = priority_cur s x" "alc s1 = 0" "hlc s1 = 0" using s1 by auto
    moreover from this True IH(1) have "max_level s < m"
      by (metis order_less_le_trans)
    ultimately show ?thesis
      using IH True unfolding f m_def [symmetric] by auto
  next
    case False
    then have "max_level s1 = max_level s" "alc s1 = alc s" "hlc s1 = hlc s" using s1 by auto
    moreover from this False IH(1) have "live s x \<longrightarrow> priority_cur s x \<le> m"
      by (metis not_less order_trans)
    ultimately show ?thesis
      using IH unfolding f m_def [symmetric] by auto
  qed
qed simp

section \<open>Creation\<close>

text \<open>
  The conditions under which a request to create a task succeeds, and what it leaves:
  \<open>slot\<close> is the first idle slot, \<open>p\<close> the requested priority.
\<close>

definition create_slot :: "nat \<Rightarrow> kstate \<Rightarrow> nat" where
  "create_slot n s = first_idx (\<lambda>i. state s i = TASK_STATE_IDLE) n"

definition create_ready :: "port \<Rightarrow> svc_args \<Rightarrow> kstate \<Rightarrow> bool" where
  "create_ready A arguments s \<longleftrightarrow>
     unat (task_count s) < MAX_TASK_COUNT A \<and>
     create_checks (arguments 0) s = ERROR_NONE \<and>
     pstack_addr s + of_nat (create_slot (MAX_TASK_COUNT A) s * TASK_STACK_SIZE A * 4) \<noteq> 0 \<and>
     t_hibernate (objs (mcu s) (arguments 0)) AND HIBERNATE_STATE_MASK \<noteq> HIBERNATE_STATE_MASK \<and>
     arguments 0 \<noteq> 0 \<and> unat (total_task_count s) < 65535"

lemma clear_stack_objs: "objs (clear_stack k a m) = objs m"
proof -
  have "objs (fold (\<lambda>j. mem_store (a + 4 * of_nat j) 0) xs m) = objs m" for xs
    by (induction xs arbitrary: m) (simp_all add: mem_store_def)
  then show ?thesis by (simp add: clear_stack_def)
qed

lemma create_register_frame:
  assumes "t_hibernate (objs (mcu s) obj) AND HIBERNATE_STATE_MASK \<noteq> HIBERNATE_STATE_MASK"
  shows "jmp_list (create_register i obj s) = jmp_list s"
    and "state (create_register i obj s) = (state s)(i := TASK_STATE_SLEEP)"
    and "task_obj (create_register i obj s) = (task_obj s)(i := obj)"
    and "task_id (create_register i obj s) = (task_id s)(i := make_task_id i (total_task_count s))"
    and "priority_cur (create_register i obj s) = (priority_cur s)(i := t_priority (objs (mcu s) obj))"
    and "task_count (create_register i obj s) = task_count s"
    and "total_task_count (create_register i obj s) = total_task_count s"
    and "level_stash (create_register i obj s) = level_stash s"
    and "lstash_ptr (create_register i obj s) = lstash_ptr s"
    and "max_level (create_register i obj s) = max_level s"
    and "alc (create_register i obj s) = alc s" and "hlc (create_register i obj s) = hlc s"
    and "first_start (create_register i obj s) = first_start s"
    and "current_task (create_register i obj s) = current_task s"
    and "next_task (create_register i obj s) = next_task s"
    and "permissions (create_register i obj s) = permissions s"
    and "enable_dws (create_register i obj s) = enable_dws s"
    and "normal_schedule (create_register i obj s) = normal_schedule s"
    and "self_kill (create_register i obj s) = self_kill s"
    and "pstack_addr (create_register i obj s) = pstack_addr s"
    and "objs (mcu (create_register i obj s)) = (objs (mcu s))(obj := (objs (mcu s) obj)
           \<lparr>t_task_id := make_task_id i (total_task_count s)\<rparr>)"
  using assms by (simp_all add: create_register_def Let_def on_mcu_def obj_update_def)

context kernel_port
begin

lemma fold_max_level_objs: "objs (mcu (fold (max_level_step A) xs s)) = objs (mcu s)"
proof (induction xs arbitrary: s)
  case (Cons x xs)
  then show ?case by (simp add: max_level_step_def Let_def enable_objs)
qed simp

lemma create_counts_objs: "objs (mcu (create_counts A i s)) = objs (mcu s)"
  by (simp add: create_counts_def Let_def enable_objs)

text \<open>The whole service, on the path without an error.\<close>

lemma create_success:
  assumes "create_ready A arguments s"
    and i: "i = create_slot (MAX_TASK_COUNT A) s" "i < MAX_TASK_COUNT A"
    and p: "p = t_priority (objs (mcu s) (arguments 0))"
    and lv: "level_add (MAX_TASK_COUNT A) p (level_stash s, lstash_ptr s) = Some (ls, ptr)"
  obtains s7 s' where
    "svc_service_task_create A svc_num arguments s = Some (ERROR_NONE, svc_num, arguments, s')"
    "s' = create_counts A i (fold (max_level_step A) [0..<MAX_TASK_COUNT A] s7)"
    "jmp_list s' = jmp_link i (jmp_list s)" "state s' = (state s)(i := TASK_STATE_SLEEP)"
    "task_obj s' = (task_obj s)(i := arguments 0)"
    "task_id s' = (task_id s)(i := make_task_id i (total_task_count s))"
    "priority_cur s' = (priority_cur s)(i := p)"
    "task_count s' = task_count s + 1" "total_task_count s' = total_task_count s + 1"
    "level_stash s' = ls" "lstash_ptr s' = ptr"
    "current_task s' = current_task s" "next_task s' = next_task s"
    "permissions s' = permissions s" "enable_dws s' = enable_dws s" "first_start s' = first_start s"
    "normal_schedule s' = normal_schedule s" "self_kill s' = self_kill s"
    "objs (mcu s') = (objs (mcu s))(arguments 0 := (objs (mcu s) (arguments 0))
        \<lparr>t_task_id := make_task_id i (total_task_count s)\<rparr>)"
    "state s7 = state s'" "priority_cur s7 = priority_cur s'" "max_level s7 = max_level s"
    "alc s7 = alc s" "hlc s7 = hlc s" "pstack_addr s' = pstack_addr s"
proof -
  note ready = assms(1) [unfolded create_ready_def, folded i(1)] i(2)
  define psp where "psp = pstack_addr s + of_nat (i * TASK_STACK_SIZE A * 4)"
  define s3 where "s3 = (let s2 = on_mcu (clear_stack (TASK_STACK_SIZE A div 4) psp)
      (s\<lparr>PSP_Array := (PSP_Array s)(i := psp)\<rparr>) in s2\<lparr>jmp_list := jmp_link i (jmp_list s2)\<rparr>)"
  have o3: "objs (mcu s3) = objs (mcu s)" by (simp add: s3_def Let_def clear_stack_objs)
  have f3: "jmp_list s3 = jmp_link i (jmp_list s)" "state s3 = state s" "task_obj s3 = task_obj s"
    "task_id s3 = task_id s" "priority_cur s3 = priority_cur s" "task_count s3 = task_count s"
    "total_task_count s3 = total_task_count s" "level_stash s3 = level_stash s"
    "lstash_ptr s3 = lstash_ptr s" "max_level s3 = max_level s" "alc s3 = alc s" "hlc s3 = hlc s"
    "first_start s3 = first_start s" "current_task s3 = current_task s" "next_task s3 = next_task s"
    "permissions s3 = permissions s" "enable_dws s3 = enable_dws s"
    "normal_schedule s3 = normal_schedule s" "self_kill s3 = self_kill s" "pstack_addr s3 = pstack_addr s"
    by (simp_all add: s3_def Let_def)
  define s4 where "s4 = create_register i (arguments 0) s3"
  note f4 = create_register_frame [of s3 "arguments 0" i, folded s4_def, unfolded o3 f3]
  define s5 where "s5 = s4\<lparr>level_stash := ls, lstash_ptr := ptr\<rparr>"
  have s5: "create_levels (MAX_TASK_COUNT A) i s4 = Some s5"
    using lv ready by (simp add: create_levels_def f4 s5_def p)
  define s6 where "s6 = arch_task_stack_init A i (t_ptr_func (objs (mcu s5) (arguments 0))) (arguments 1) s5"
  define s7 where "s7 = s6\<lparr>total_task_count := total_task_count s6 + 1, task_count := task_count s6 + 1\<rparr>"
  define s' where "s' = create_counts A i (fold (max_level_step A) [0..<MAX_TASK_COUNT A] s7)"
  have r: "svc_service_task_create A svc_num arguments s = Some (ERROR_NONE, svc_num, arguments, s')"
    using ready s5
    by (simp add: svc_service_task_create_def Let_def create_slot_def [symmetric] i(1) [symmetric]
        psp_def s3_def s4_def s6_def s7_def s'_def)
  show thesis
    by (rule that [OF r s'_def])
      (use ready in \<open>simp_all add: s'_def kframe s7_def s6_def stack_init_fields s5_def f4 p
        create_counts_objs fold_max_level_objs stack_init_objs\<close>)
qed

text \<open>The call does not return when the insertion of the level does not.\<close>

lemma create_stuck:
  assumes "create_ready A arguments s"
    and i: "i = create_slot (MAX_TASK_COUNT A) s" "i < MAX_TASK_COUNT A"
    and lv: "level_add (MAX_TASK_COUNT A) (t_priority (objs (mcu s) (arguments 0))) (level_stash s, lstash_ptr s) = None"
  shows "svc_service_task_create A svc_num arguments s = None"
proof -
  note ready = assms(1) [unfolded create_ready_def, folded i(1)] i(2)
  define psp where "psp = pstack_addr s + of_nat (i * TASK_STACK_SIZE A * 4)"
  define s3 where "s3 = (let s2 = on_mcu (clear_stack (TASK_STACK_SIZE A div 4) psp)
      (s\<lparr>PSP_Array := (PSP_Array s)(i := psp)\<rparr>) in s2\<lparr>jmp_list := jmp_link i (jmp_list s2)\<rparr>)"
  have o3: "objs (mcu s3) = objs (mcu s)" "level_stash s3 = level_stash s" "lstash_ptr s3 = lstash_ptr s"
    "priority_cur s3 = priority_cur s"
    by (simp_all add: s3_def Let_def clear_stack_objs)
  note f = create_register_frame [of s3 "arguments 0" i, unfolded o3]
  have "create_levels (MAX_TASK_COUNT A) i (create_register i (arguments 0) s3) = None"
    using lv ready by (simp add: create_levels_def f)
  then show ?thesis
    using ready by (simp add: svc_service_task_create_def Let_def create_slot_def [symmetric] i(1) [symmetric]
        psp_def s3_def)
qed

end

section \<open>Identifiers\<close>

lemma make_task_id_low:
  assumes "unat cnt < 65535"
  shows "unat (ucast (cnt :: u16) + 1 :: u32) = Suc (unat cnt)"
  using assms by (simp add: unat_word_ariths)

lemma make_task_id_slot:
  assumes "i < 256" and "unat cnt < 65535"
  shows "pid_slot (make_task_id i cnt) = i" and "make_task_id i cnt \<noteq> 0"
proof -
  have low: "drop_bit 16 (ucast cnt + 1 :: u32) = 0"
    by (rule word_unat_eq_iff [THEN iffD2])
      (use make_task_id_low [OF assms(2)] assms(2) in \<open>simp add: drop_bit_eq_div unat_div\<close>)
  have "unat (push_bit 16 (of_nat i) :: u32) = i * 65536"
    using assms(1) by (simp add: push_bit_eq_mult unat_word_ariths unat_of_nat take_bit_eq_mod)
  then have high: "drop_bit 16 (push_bit 16 (of_nat i) :: u32) = of_nat i"
    by (intro word_unat_eq_iff [THEN iffD2])
      (use assms(1) in \<open>simp add: drop_bit_eq_div unat_div unat_of_nat take_bit_eq_mod\<close>)
  show "pid_slot (make_task_id i cnt) = i"
    using assms(1) by (simp add: pid_slot_def make_task_id_def low high unat_ucast_u32_u8
        unat_of_nat take_bit_eq_mod)
  have "ucast cnt + 1 \<noteq> (0 :: u32)" using make_task_id_low [OF assms(2)] by auto
  then show "make_task_id i cnt \<noteq> 0" by (simp add: make_task_id_def or_eq_0_iff)
qed

section \<open>Creation keeps the invariants\<close>

lemma create_slot_props:
  assumes "create_slot n s < n"
  shows "\<not> live s (create_slot n s)" and "\<And>j. j < create_slot n s \<Longrightarrow> live s j"
proof -
  show "\<not> live s (create_slot n s)"
    using first_idx_hit [of "\<lambda>i. state s i = TASK_STATE_IDLE" n] assms
    by (simp add: create_slot_def live_def)
  show "live s j" if "j < create_slot n s" for j
    using first_idx_before [of j "\<lambda>i. state s i = TASK_STATE_IDLE" n] that
    by (simp add: create_slot_def live_def)
qed

lemma live_upd: "st \<noteq> TASK_STATE_IDLE \<Longrightarrow> state s' = (state s)(i := st) \<Longrightarrow> live s' = (live s)(i := True)"
  by (auto simp: live_def fun_eq_iff)

lemma live_upd_idle: "state s' = (state s)(i := TASK_STATE_IDLE) \<Longrightarrow> live s' = (live s)(i := False)"
  by (auto simp: live_def fun_eq_iff)

lemma length_filter_upd:
  assumes "i < n" and "\<not> P i"
  shows "length (filter (P(i := True)) [0..<n]) = Suc (length (filter P [0..<n]))"
proof -
  have up: "[0..<n] = [0..<i] @ i # [Suc i..<n]"
    using assms(1) upt_split [of 0 i n] by (simp add: upt_conv_Cons)
  have "filter (P(i := True)) [0..<i] = filter P [0..<i]"
    "filter (P(i := True)) [Suc i..<n] = filter P [Suc i..<n]" by (auto intro: filter_cong)
  then show ?thesis using assms(2) by (subst (1 2) up) simp
qed

lemma length_filter_upd_idle:
  assumes "i < n" and "P i"
  shows "Suc (length (filter (P(i := False)) [0..<n])) = length (filter P [0..<n])"
proof -
  have eq: "(P(i := False))(i := True) = P" using assms(2) by (auto simp: fun_eq_iff)
  from length_filter_upd [of i n "P(i := False)"] assms(1) show ?thesis
    unfolding eq by simp
qed

text \<open>The level the stash gets: one that is there already, or one above all.\<close>

definition level_in_order :: "kstate \<Rightarrow> u8 \<Rightarrow> bool" where
  "level_in_order s p \<longleftrightarrow> p \<in> set (levels (level_stash s) (lstash_ptr s)) \<or>
     (\<forall>q \<in> set (levels (level_stash s) (lstash_ptr s)). q < p)"

lemma kinv_link:
  assumes kinv: "kinv n s" and i: "i < n" "\<not> live s i" "\<And>j. j < i \<Longrightarrow> live s j"
    and st: "state s' = (state s)(i := TASK_STATE_SLEEP)"
    and jl: "jmp_list s' = jmp_link i (jmp_list s)"
    and tab: "task_obj s' = (task_obj s)(i := obj)" "task_id s' = (task_id s)(i := make_task_id i cnt)"
    and cnt: "task_count s' = task_count s + 1" "unat cnt < 65535" and obj: "obj \<noteq> 0"
  shows "kinv n s'"
proof -
  have lv: "live s' = (live s)(i := True)" by (rule live_upd [OF _ st]) simp
  have n: "n \<le> 120" using kinv ring_ok_bound by (auto simp: kinv_def)
  have ring: "ring_ok n (live s') (jmp_list s')"
    unfolding lv jl using kinv i by (intro ring_ok_link) (auto simp: kinv_def)
  have "make_task_id i cnt \<noteq> 0 \<and> pid_slot (make_task_id i cnt) = i"
    using make_task_id_slot [of i cnt] cnt i n by simp
  with kinv tab obj have "table_ok n s'"
    unfolding kinv_def table_ok_def lv by simp
  moreover have "unat (task_count s') = length (filter (live s') [0..<n])"
  proof -
    have "length (filter (live s) [0..<n]) \<le> n"
      using length_filter_le [of "live s" "[0..<n]"] by simp
    then have "unat (task_count s) < 65535" using kinv n by (simp add: kinv_def)
    then have "unat (task_count s') = Suc (unat (task_count s))"
      by (simp add: cnt unat_word_ariths)
    then show ?thesis using kinv i length_filter_upd [of i n "live s"] by (simp add: kinv_def lv)
  qed
  ultimately show ?thesis using ring by (simp add: kinv_def)
qed

lemma stash_add:
  assumes ok: "stash_ok n s" and n: "n \<le> 120" "unat (lstash_ptr s) < n" and ord: "level_in_order s p"
  shows "\<exists>ls ptr. level_add n p (level_stash s, lstash_ptr s) = Some (ls, ptr) \<and>
    set (levels ls ptr) = insert p (set (levels (level_stash s) (lstash_ptr s))) \<and>
    ls 0 = 0 \<and> 0 < unat ptr \<and> unat ptr \<le> n \<and> incr_upto (unat ptr) ls \<and>
    (\<forall>j < n. unat ptr \<le> j \<longrightarrow> ls j = 0)"
proof (cases "p \<in> set (levels (level_stash s) (lstash_ptr s))")
  case True
  have "level_add n p (level_stash s, lstash_ptr s) = Some (level_stash s, lstash_ptr s)"
    using ok n True by (intro level_add_known) (auto simp: stash_ok_def)
  with True ok show ?thesis by (auto simp: stash_ok_def)
next
  case False
  let ?ls = "level_stash s" and ?k = "unat (lstash_ptr s)"
  have lt: "\<forall>i < ?k. ?ls i < p" using ord False by (auto simp: level_in_order_def levels_def)
  have k0: "0 < ?k" and z: "?ls 0 = 0" using ok by (auto simp: stash_ok_def)
  then have "0 < p" using lt by metis
  moreover have "?ls ?k = 0" using ok n by (auto simp: stash_ok_def)
  ultimately have le: "?ls i < p" if "i \<le> ?k" for i using lt that by (cases "i = ?k") auto
  note add = level_add_above [OF n le]
  have k1: "unat (lstash_ptr s + 1) = Suc ?k" using n by (intro unat_Suc_u8) simp
  have "incr_upto (Suc ?k) (?ls(?k := p))"
    using ok lt by (auto simp: stash_ok_def incr_upto_def less_Suc_eq)
  with add k1 k0 n ok show ?thesis by (auto simp: stash_ok_def)
qed

text \<open>
  Without the order of the levels: a level that is in the stash is found, another one is inserted
  somewhere, so the stash gains exactly this level.
\<close>

lemma stash_add_any:
  assumes ok: "stash_ok n s" and n: "n \<le> 120" "unat (lstash_ptr s) < n"
  obtains (known) "p \<in> set (levels (level_stash s) (lstash_ptr s))"
      "level_add n p (level_stash s, lstash_ptr s) = Some (level_stash s, lstash_ptr s)"
  | (new) m where "p \<notin> set (levels (level_stash s) (lstash_ptr s))" "m \<le> unat (lstash_ptr s)"
      "level_add n p (level_stash s, lstash_ptr s) =
        Some ((shift_up m (unat (lstash_ptr s)) (level_stash s))(m := p), lstash_ptr s + 1)"
      "levels ((shift_up m (unat (lstash_ptr s)) (level_stash s))(m := p)) (lstash_ptr s + 1) =
        take m (levels (level_stash s) (lstash_ptr s)) @ p # drop m (levels (level_stash s) (lstash_ptr s))"
proof (cases "p \<in> set (levels (level_stash s) (lstash_ptr s))")
  case True
  show thesis
    by (rule known [OF True level_add_known]) (use ok n True in \<open>auto simp: stash_ok_def\<close>)
next
  case False
  have z: "level_stash s 0 = 0" "0 < unat (lstash_ptr s)" "level_stash s (unat (lstash_ptr s)) = 0"
    using ok n by (auto simp: stash_ok_def)
  then have "0 \<in> set (levels (level_stash s) (lstash_ptr s))" by (force simp: levels_def)
  with False z(3) have ne: "level_stash s (unat (lstash_ptr s)) \<noteq> p" by metis
  have le: "level_stash s 0 \<le> p" by (simp add: z)
  show thesis
  proof (rule level_add_cases [where ls = "level_stash s", OF le n])
    fix m
    assume "m \<le> unat (lstash_ptr s)" "level_stash s m = p"
    with ne have "m < unat (lstash_ptr s)" "level_stash s m = p" by (auto simp: le_less)
    then have "p \<in> set (levels (level_stash s) (lstash_ptr s))" by (auto simp: levels_def)
    with False show thesis by simp
  next
    fix m
    assume m: "level_add n p (level_stash s, lstash_ptr s) =
        Some ((shift_up m (unat (lstash_ptr s)) (level_stash s))(m := p), lstash_ptr s + 1)"
      "m \<le> unat (lstash_ptr s)"
    show thesis
      by (rule new [OF False m(2,1)])
        (use n m(2) shift_up_levels [OF m(2), of "level_stash s" p] levels_Suc in
          \<open>simp add: levels_def [of "level_stash s"] del: upt_Suc\<close>)
  qed
qed

lemma set_insert_at: "set (take m xs @ x # drop m xs) = insert x (set xs)"
proof -
  have "set (take m xs) \<union> set (drop m xs) = set xs" by (metis append_take_drop_id set_append)
  then show ?thesis by auto
qed

lemma stash_add_set:
  assumes "stash_ok n s" and "n \<le> 120" "unat (lstash_ptr s) < n"
    and "level_add n p (level_stash s, lstash_ptr s) = Some (ls, lp)"
  shows "set (levels ls lp) = insert p (set (levels (level_stash s) (lstash_ptr s)))"
proof (rule stash_add_any [OF assms(1-3), of p])
  assume "p \<in> set (levels (level_stash s) (lstash_ptr s))"
    "level_add n p (level_stash s, lstash_ptr s) = Some (level_stash s, lstash_ptr s)"
  with assms(4) show ?thesis by auto
next
  fix m
  let ?L = "levels (level_stash s) (lstash_ptr s)"
  assume "level_add n p (level_stash s, lstash_ptr s) =
      Some ((shift_up m (unat (lstash_ptr s)) (level_stash s))(m := p), lstash_ptr s + 1)"
    and l: "levels ((shift_up m (unat (lstash_ptr s)) (level_stash s))(m := p)) (lstash_ptr s + 1) =
        take m ?L @ p # drop m ?L"
  with assms(4) have "levels ls lp = take m ?L @ p # drop m ?L" by simp
  then show ?thesis by (simp only: set_insert_at)
qed

lemma stash_ok_upd:
  assumes "stash_ok n s" and "live s' = (live s)(i := True)" and "priority_cur s' = (priority_cur s)(i := p)"
    and "set (levels (level_stash s') (lstash_ptr s')) = insert p (set (levels (level_stash s) (lstash_ptr s)))"
    and "level_stash s' 0 = 0" "0 < unat (lstash_ptr s')" "unat (lstash_ptr s') \<le> n"
    and "incr_upto (unat (lstash_ptr s')) (level_stash s')"
    and "\<forall>j < n. unat (lstash_ptr s') \<le> j \<longrightarrow> level_stash s' j = 0"
  shows "stash_ok n s'"
  using assms by (auto simp: stash_ok_def)

text \<open>The number of slots in use at the highest level, which \<open>alc + hlc\<close> counts.\<close>

definition top_slots :: "nat \<Rightarrow> kstate \<Rightarrow> nat list" where
  "top_slots n s = filter (\<lambda>i. live s i \<and> priority_cur s i = max_level s) [0..<n]"

definition count_ok :: "nat \<Rightarrow> kstate \<Rightarrow> bool" where
  "count_ok n s \<longleftrightarrow> unat (alc s) + unat (hlc s) = length (top_slots n s)"

lemma hib_masked_sleep [simp]: "\<not> hib_masked TASK_STATE_SLEEP"
  by (simp add: hib_masked_def)

lemma create_max_counts:
  assumes s': "s' = create_counts A i (fold (max_level_step A) [0..<n] s7)"
    and i: "i < n" "n \<le> 120" "\<not> live s i" and ok: "max_ok n s"
    and lv: "state s' = (state s)(i := TASK_STATE_SLEEP)" "priority_cur s' = (priority_cur s)(i := p)"
    and s7: "state s7 = state s'" "priority_cur s7 = priority_cur s'" "max_level s7 = max_level s"
      "alc s7 = alc s" "hlc s7 = hlc s"
  shows "max_level s' = max (max_level s) p" and "max_ok n s'" and "count_ok n s \<Longrightarrow> count_ok n s'"
proof -
  let ?f = "fold (max_level_step A) [0..<n] s7"
  have live: "live s' = (live s)(i := True)" "live s7 = live s'"
    by (rule live_upd [OF _ lv(1)]) (simp_all add: live_def fun_eq_iff s7)
  have m: "max_level s' = max_level ?f" by (simp add: s' create_counts_frame)
  have st: "state ?f i = TASK_STATE_SLEEP" "priority_cur ?f i = p"
    by (simp_all add: kframe s7 lv)
  have old: "\<forall>j < n. live s j \<longrightarrow> priority_cur s j \<le> max_level s" using ok by (simp add: max_ok_def)
  note mf = fold_max_level [of s7 A "[0..<n]", unfolded s7(3-5) live(2) s7(2), folded m]
  have "\<forall>j \<in> set [0..<n]. live s' j \<longrightarrow> priority_cur s' j \<le> max_level s'" using mf by blast
  then have pm: "p \<le> max_level s'" using i live lv by (auto dest: bspec [of _ _ i])
  have new: "max_level s' = p" if "max_level s < max_level s'" "j < n" "live s' j" "priority_cur s' j = max_level s'" for j
    using that old by (auto simp: live lv leD split: if_splits)
  have cases: "max_level s' = max_level s \<and> alc ?f = alc s \<and> hlc ?f = hlc s \<or>
      max_level s < max_level s' \<and> max_level s' = p \<and> alc ?f = 0 \<and> hlc ?f = 0"
    using mf new by (elim conjE disjE bexE) auto
  then show mx: "max_level s' = max (max_level s) p" using pm by (auto simp: max_def not_le)
  show "max_ok n s'"
    using ok i by (auto simp: max_ok_def live lv mx max_def le_max_iff_disj)
  have len: "length (top_slots n s) \<le> 120"
    using i length_filter_le [of "\<lambda>i. live s i \<and> priority_cur s i = max_level s" "[0..<n]"]
    by (simp add: top_slots_def)
  have al: "alc s' = (if p = max_level s' then alc ?f + 1 else alc ?f)" "hlc s' = hlc ?f"
    using st by (simp_all add: s' create_counts_def Let_def)
  show "count_ok n s'" if cnt: "count_ok n s"
    using cases
  proof
    assume a: "max_level s' = max_level s \<and> alc ?f = alc s \<and> hlc ?f = hlc s"
    show ?thesis
    proof (cases "p = max_level s")
      case True
      then have "top_slots n s' = filter ((\<lambda>j. live s j \<and> priority_cur s j = max_level s)(i := True)) [0..<n]"
        unfolding top_slots_def by (intro filter_cong) (auto simp: a live lv)
      moreover have "unat (alc s + 1) = Suc (unat (alc s))"
        using len cnt by (intro unat_Suc_u8) (simp add: count_ok_def)
      ultimately show ?thesis
        using cnt i length_filter_upd [of i n "\<lambda>j. live s j \<and> priority_cur s j = max_level s"]
        by (simp add: count_ok_def al a True top_slots_def [of n s])
    next
      case False
      then have "top_slots n s' = top_slots n s"
        unfolding top_slots_def using i by (intro filter_cong) (auto simp: a live lv)
      with False cnt show ?thesis by (simp add: count_ok_def al a)
    qed
  next
    assume b: "max_level s < max_level s' \<and> max_level s' = p \<and> alc ?f = 0 \<and> hlc ?f = 0"
    then have "top_slots n s' = filter ((\<lambda>j. False)(i := True)) [0..<n]"
      unfolding top_slots_def using old by (intro filter_cong) (auto simp: live lv)
    with b i length_filter_upd [of i n "\<lambda>j. False"] show ?thesis by (simp add: count_ok_def al)
  qed
qed

lemma free_slot:
  assumes "unat (task_count s) = length (filter (live s) [0..<n])" and "unat (task_count s) < n"
  shows "create_slot n s < n"
proof (rule ccontr)
  assume "\<not> create_slot n s < n"
  then have "create_slot n s = n"
    unfolding create_slot_def using first_idx_le le_neq_implies_less by blast
  then have "\<forall>i < n. live s i" by (simp add: create_slot_def first_idx_miss live_def)
  then have "filter (live s) [0..<n] = [0..<n]" by (simp add: filter_id_conv)
  with assms show False by simp
qed

text \<open>The four invariants together.\<close>

definition kernel_ok :: "nat \<Rightarrow> kstate \<Rightarrow> bool" where
  "kernel_ok n s \<longleftrightarrow> kinv n s \<and> stash_ok n s \<and> max_ok n s"

context kernel_port
begin

lemma create_any:
  assumes ready: "create_ready A arguments s" and ok: "kernel_ok (MAX_TASK_COUNT A) s"
    and ptr: "unat (lstash_ptr s) < MAX_TASK_COUNT A"
  obtains s' ls lp where
    "svc_service_task_create A svc_num arguments s = Some (ERROR_NONE, svc_num, arguments, s')"
    "kinv (MAX_TASK_COUNT A) s'" "max_ok (MAX_TASK_COUNT A) s'"
    "level_in_order s (t_priority (objs (mcu s) (arguments 0))) \<Longrightarrow> kernel_ok (MAX_TASK_COUNT A) s'"
    "count_ok (MAX_TASK_COUNT A) s \<Longrightarrow> count_ok (MAX_TASK_COUNT A) s'"
    "max_level s' = max (max_level s) (t_priority (objs (mcu s) (arguments 0)))"
    "level_add (MAX_TASK_COUNT A) (t_priority (objs (mcu s) (arguments 0))) (level_stash s, lstash_ptr s) =
       Some (ls, lp)" "level_stash s' = ls" "lstash_ptr s' = lp"
    "state s' = (state s)(create_slot (MAX_TASK_COUNT A) s := TASK_STATE_SLEEP)"
    "\<not> live s (create_slot (MAX_TASK_COUNT A) s)"
    "current_task s' = current_task s" "next_task s' = next_task s" "enable_dws s' = enable_dws s"
    "normal_schedule s' = normal_schedule s" "self_kill s' = self_kill s"
    "priority_cur s' = (priority_cur s)(create_slot (MAX_TASK_COUNT A) s :=
       t_priority (objs (mcu s) (arguments 0)))"
proof -
  let ?n = "MAX_TASK_COUNT A" and ?p = "t_priority (objs (mcu s) (arguments 0))"
  let ?i = "create_slot ?n s"
  have k: "kinv ?n s" "stash_ok ?n s" "max_ok ?n s" using ok by (auto simp: kernel_ok_def)
  have n: "?n \<le> 120" using k(1) ring_ok_bound by (auto simp: kinv_def)
  have i: "?i < ?n"
    by (rule free_slot) (use k(1) ready in \<open>auto simp: kinv_def create_ready_def\<close>)
  obtain ls lp where lv: "level_add ?n ?p (level_stash s, lstash_ptr s) = Some (ls, lp)"
    by (rule stash_add_any [OF k(2) n ptr, of ?p]) blast+
  have ord: "set (levels ls lp) = insert ?p (set (levels (level_stash s) (lstash_ptr s))) \<and>
      ls 0 = 0 \<and> 0 < unat lp \<and> unat lp \<le> ?n \<and> incr_upto (unat lp) ls \<and>
      (\<forall>j < ?n. unat lp \<le> j \<longrightarrow> ls j = 0)" if "level_in_order s ?p"
    using stash_add [OF k(2) n ptr that] lv by auto
  obtain s7 s' where c:
    "svc_service_task_create A svc_num arguments s = Some (ERROR_NONE, svc_num, arguments, s')"
    "s' = create_counts A ?i (fold (max_level_step A) [0..<?n] s7)"
    "jmp_list s' = jmp_link ?i (jmp_list s)" "state s' = (state s)(?i := TASK_STATE_SLEEP)"
    "task_obj s' = (task_obj s)(?i := arguments 0)"
    "task_id s' = (task_id s)(?i := make_task_id ?i (total_task_count s))"
    "priority_cur s' = (priority_cur s)(?i := ?p)" "task_count s' = task_count s + 1"
    "level_stash s' = ls" "lstash_ptr s' = lp"
    "state s7 = state s'" "priority_cur s7 = priority_cur s'" "max_level s7 = max_level s"
    "alc s7 = alc s" "hlc s7 = hlc s"
    "current_task s' = current_task s" "next_task s' = next_task s" "enable_dws s' = enable_dws s"
    "normal_schedule s' = normal_schedule s" "self_kill s' = self_kill s"
    by (rule create_success [OF ready refl i refl lv, of svc_num]) blast
  note slot = create_slot_props [OF i]
  have ki: "kinv ?n s'"
    by (rule kinv_link [OF k(1) i slot c(4,3,5,6,8)]) (use ready in \<open>auto simp: create_ready_def\<close>)
  note mc = create_max_counts [OF c(2) i n slot(1) k(3) c(4,7,11-15)]
  have "kernel_ok ?n s'" if "level_in_order s ?p"
  proof -
    have "stash_ok ?n s'"
      by (rule stash_ok_upd [OF k(2) live_upd [OF _ c(4)] c(7)]) (use ord [OF that] in \<open>simp_all add: c(9,10)\<close>)
    with ki mc show ?thesis by (simp add: kernel_ok_def)
  qed
  then show thesis using that [OF c(1) ki] mc lv slot(1) c(4,7,9,10,16-20) by simp
qed

lemma create_preserves:
  assumes ready: "create_ready A arguments s" and ok: "kernel_ok (MAX_TASK_COUNT A) s"
    and ptr: "unat (lstash_ptr s) < MAX_TASK_COUNT A"
    and ord: "level_in_order s (t_priority (objs (mcu s) (arguments 0)))"
  obtains s' where
    "svc_service_task_create A svc_num arguments s = Some (ERROR_NONE, svc_num, arguments, s')"
    "kernel_ok (MAX_TASK_COUNT A) s'"
    "count_ok (MAX_TASK_COUNT A) s \<Longrightarrow> count_ok (MAX_TASK_COUNT A) s'"
    "max_level s' = max (max_level s) (t_priority (objs (mcu s) (arguments 0)))"
    "state s' = (state s)(create_slot (MAX_TASK_COUNT A) s := TASK_STATE_SLEEP)"
    "\<not> live s (create_slot (MAX_TASK_COUNT A) s)"
    "current_task s' = current_task s" "next_task s' = next_task s" "enable_dws s' = enable_dws s"
    "normal_schedule s' = normal_schedule s" "self_kill s' = self_kill s"
    "priority_cur s' = (priority_cur s)(create_slot (MAX_TASK_COUNT A) s :=
       t_priority (objs (mcu s) (arguments 0)))"
  by (rule create_any [OF ready ok ptr, of svc_num]) (rule that, use ord in \<open>simp_all\<close>)

end

section \<open>Kill\<close>

lemma kill_max_step_frame [kframe]:
  "jmp_list (kill_max_step j s) = jmp_list s" "state (kill_max_step j s) = state s"
  "task_obj (kill_max_step j s) = task_obj s" "task_id (kill_max_step j s) = task_id s"
  "priority_cur (kill_max_step j s) = priority_cur s" "task_count (kill_max_step j s) = task_count s"
  "level_stash (kill_max_step j s) = level_stash s" "lstash_ptr (kill_max_step j s) = lstash_ptr s"
  "current_task (kill_max_step j s) = current_task s" "next_task (kill_max_step j s) = next_task s"
  "self_kill (kill_max_step j s) = self_kill s" "enable_dws (kill_max_step j s) = enable_dws s"
  "normal_schedule (kill_max_step j s) = normal_schedule s"
  "alc (kill_max_step j s) = alc s" "hlc (kill_max_step j s) = hlc s"
  "mcu (kill_max_step j s) = mcu s" "permissions (kill_max_step j s) = permissions s"
  by (simp_all add: kill_max_step_def)

lemma fold_kill_max_frame [kframe]:
  "jmp_list (fold kill_max_step xs s) = jmp_list s" "state (fold kill_max_step xs s) = state s"
  "task_obj (fold kill_max_step xs s) = task_obj s" "task_id (fold kill_max_step xs s) = task_id s"
  "priority_cur (fold kill_max_step xs s) = priority_cur s"
  "task_count (fold kill_max_step xs s) = task_count s"
  "level_stash (fold kill_max_step xs s) = level_stash s"
  "lstash_ptr (fold kill_max_step xs s) = lstash_ptr s"
  "current_task (fold kill_max_step xs s) = current_task s"
  "next_task (fold kill_max_step xs s) = next_task s"
  "self_kill (fold kill_max_step xs s) = self_kill s"
  "enable_dws (fold kill_max_step xs s) = enable_dws s"
  "normal_schedule (fold kill_max_step xs s) = normal_schedule s"
  "alc (fold kill_max_step xs s) = alc s" "hlc (fold kill_max_step xs s) = hlc s"
  "mcu (fold kill_max_step xs s) = mcu s" "permissions (fold kill_max_step xs s) = permissions s"
  by (induction xs arbitrary: s) (simp_all add: kill_max_step_frame)

lemma kill_count_step_frame [kframe]:
  "jmp_list (kill_count_step j s) = jmp_list s" "state (kill_count_step j s) = state s"
  "task_obj (kill_count_step j s) = task_obj s" "task_id (kill_count_step j s) = task_id s"
  "priority_cur (kill_count_step j s) = priority_cur s"
  "task_count (kill_count_step j s) = task_count s"
  "level_stash (kill_count_step j s) = level_stash s" "lstash_ptr (kill_count_step j s) = lstash_ptr s"
  "current_task (kill_count_step j s) = current_task s" "next_task (kill_count_step j s) = next_task s"
  "self_kill (kill_count_step j s) = self_kill s" "enable_dws (kill_count_step j s) = enable_dws s"
  "normal_schedule (kill_count_step j s) = normal_schedule s"
  "max_level (kill_count_step j s) = max_level s"
  "mcu (kill_count_step j s) = mcu s" "permissions (kill_count_step j s) = permissions s"
  by (simp_all add: kill_count_step_def)

lemma fold_kill_count_frame [kframe]:
  "jmp_list (fold kill_count_step xs s) = jmp_list s" "state (fold kill_count_step xs s) = state s"
  "task_obj (fold kill_count_step xs s) = task_obj s" "task_id (fold kill_count_step xs s) = task_id s"
  "priority_cur (fold kill_count_step xs s) = priority_cur s"
  "task_count (fold kill_count_step xs s) = task_count s"
  "level_stash (fold kill_count_step xs s) = level_stash s"
  "lstash_ptr (fold kill_count_step xs s) = lstash_ptr s"
  "current_task (fold kill_count_step xs s) = current_task s"
  "next_task (fold kill_count_step xs s) = next_task s"
  "self_kill (fold kill_count_step xs s) = self_kill s"
  "enable_dws (fold kill_count_step xs s) = enable_dws s"
  "normal_schedule (fold kill_count_step xs s) = normal_schedule s"
  "max_level (fold kill_count_step xs s) = max_level s"
  "mcu (fold kill_count_step xs s) = mcu s" "permissions (fold kill_count_step xs s) = permissions s"
  by (induction xs arbitrary: s) (simp_all add: kill_count_step_frame)

lemma fold_kill_max:
  "max_level s \<le> max_level (fold kill_max_step xs s) \<and>
   (\<forall>j \<in> set xs. live s j \<longrightarrow> priority_cur s j \<le> max_level (fold kill_max_step xs s)) \<and>
   (max_level (fold kill_max_step xs s) = max_level s \<or>
     (\<exists>j \<in> set xs. live s j \<and> priority_cur s j = max_level (fold kill_max_step xs s)))"
proof (induction xs arbitrary: s)
  case (Cons x xs)
  define s1 where "s1 = kill_max_step x s"
  have fr: "live s1 = live s" "priority_cur s1 = priority_cur s"
    by (simp_all add: s1_def live_def kill_max_step_frame fun_eq_iff)
  define m where "m = max_level (fold kill_max_step xs s1)"
  have IH: "max_level s1 \<le> m" "\<forall>j \<in> set xs. live s j \<longrightarrow> priority_cur s j \<le> m"
    "m = max_level s1 \<or> (\<exists>j \<in> set xs. live s j \<and> priority_cur s j = m)"
    using Cons [of s1] unfolding fr m_def by - (elim conjE, assumption)+
  have f: "fold kill_max_step (x # xs) s = fold kill_max_step xs s1" by (simp add: s1_def)
  have s1: "max_level s1 = (if max_level s \<le> priority_cur s x \<and> live s x then priority_cur s x else max_level s)"
    by (simp add: s1_def kill_max_step_def live_def)
  have "max_level s \<le> m" "live s x \<longrightarrow> priority_cur s x \<le> m"
    using IH(1) s1 by (metis order_trans, metis linorder_le_cases order_trans)
  with IH s1 show ?case unfolding f m_def [symmetric] by (auto split: if_splits)
qed simp

text \<open>The recount takes every slot, in use or not, whose priority is the highest level.\<close>

lemma fold_kill_count:
  "alc (fold kill_count_step xs s) = alc s + of_nat (length (filter
      (\<lambda>i. priority_cur s i = max_level s \<and> \<not> hib_masked (state s i)) xs))"
  "hlc (fold kill_count_step xs s) = hlc s + of_nat (length (filter
      (\<lambda>i. priority_cur s i = max_level s \<and> hib_masked (state s i)) xs))"
proof (induction xs arbitrary: s)
  case (Cons x xs)
  { case 1 show ?case by (simp add: Cons(1) kill_count_step_frame) (simp add: kill_count_step_def) }
  { case 2 show ?case by (simp add: Cons(2) kill_count_step_frame) (simp add: kill_count_step_def) }
qed simp_all

lemma kill_jmp_fields:
  assumes "jmp_pred i (jmp_list s) \<noteq> i"
  shows "jmp_list (kill_jmp i s) = jmp_unlink i (jmp_list s)"
    and "next_task (kill_jmp i s) =
      (if self_kill s then next_task s + scast (jmp_list s i) else next_task s)"
    and "state (kill_jmp i s) = state s" "task_obj (kill_jmp i s) = task_obj s"
    and "task_id (kill_jmp i s) = task_id s" "priority_cur (kill_jmp i s) = priority_cur s"
    and "task_count (kill_jmp i s) = task_count s" "level_stash (kill_jmp i s) = level_stash s"
    and "lstash_ptr (kill_jmp i s) = lstash_ptr s" "current_task (kill_jmp i s) = current_task s"
    and "self_kill (kill_jmp i s) = self_kill s" "enable_dws (kill_jmp i s) = enable_dws s"
    and "mcu (kill_jmp i s) = mcu s" "permissions (kill_jmp i s) = permissions s"
    and "normal_schedule (kill_jmp i s) = normal_schedule s"
  using assms by (simp_all add: kill_jmp_def jmp_unlink_def Let_def)

text \<open>The whole kill service, for a slot of the ring other than the base task's.\<close>

lemma kill_success:
  assumes i: "i = pid_slot (arguments 0)" "i < MAX_TASK_COUNT A" "task_obj s i \<noteq> 0"
    and pred: "jmp_pred i (jmp_list s) \<noteq> i"
    and lv: "kill_levels (MAX_TASK_COUNT A) i s = Some (s\<lparr>level_stash := ls, lstash_ptr := ptr\<rparr>)"
  obtains s6 s' where
    "svc_service_task_kill A svc_num arguments s =
       Some (ERROR_NONE, if arguments 1 = 1 then HAND_OVER else svc_num, arguments, s')"
    "jmp_list s' = jmp_unlink i (jmp_list s)" "state s' = (state s)(i := TASK_STATE_IDLE)"
    "task_obj s' = (task_obj s)(i := 0)" "task_id s' = (task_id s)(i := 0)"
    "task_count s' = task_count s - 1" "priority_cur s' = priority_cur s"
    "level_stash s' = ls" "lstash_ptr s' = ptr" "current_task s' = current_task s"
    "next_task s' = (if self_kill s \<or> arguments 1 = 1 then next_task s + scast (jmp_list s i)
                     else next_task s)"
    "self_kill s' = (self_kill s \<or> arguments 1 = 1)" "enable_dws s' = enable_dws s"
    "permissions s' = permissions s" "normal_schedule s' = normal_schedule s"
    "max_level s' = max_level (fold kill_max_step [0..<MAX_TASK_COUNT A] s6)"
    "state s6 = state s'" "priority_cur s6 = priority_cur s" "max_level s6 = 0"
    "alc s' = of_nat (length (filter (\<lambda>i. priority_cur s i = max_level s' \<and> \<not> hib_masked (state s' i))
       [0..<MAX_TASK_COUNT A]))"
    "hlc s' = of_nat (length (filter (\<lambda>i. priority_cur s i = max_level s' \<and> hib_masked (state s' i))
       [0..<MAX_TASK_COUNT A]))"
proof -
  let ?n = "MAX_TASK_COUNT A"
  define s1 where "s1 = s\<lparr>level_stash := ls, lstash_ptr := ptr\<rparr>"
  define s2 where "s2 = (let s2 = on_mcu (obj_update (task_obj s i) (\<lambda>t. t\<lparr>t_task_id := 0\<rparr>))
      (s1\<lparr>state := (state s1)(i := TASK_STATE_IDLE)\<rparr>)
      in s2\<lparr>task_id := (task_id s2)(i := 0), task_obj := (task_obj s2)(i := 0)\<rparr>)"
  have k2: "kill_table i s1 = Some s2"
    using i(3) by (simp add: kill_table_def s1_def s2_def Let_def)
  define s4 where "s4 = (let s3 = (if arguments 1 = 1 then s2\<lparr>self_kill := True\<rparr> else s2)
      in s3\<lparr>task_count := task_count s3 - 1\<rparr>)"
  have f4: "jmp_list s4 = jmp_list s" "state s4 = (state s)(i := TASK_STATE_IDLE)"
    "task_obj s4 = (task_obj s)(i := 0)" "task_id s4 = (task_id s)(i := 0)"
    "task_count s4 = task_count s - 1" "priority_cur s4 = priority_cur s"
    "level_stash s4 = ls" "lstash_ptr s4 = ptr" "current_task s4 = current_task s"
    "next_task s4 = next_task s" "self_kill s4 = (self_kill s \<or> arguments 1 = 1)"
    "enable_dws s4 = enable_dws s" "permissions s4 = permissions s"
    "normal_schedule s4 = normal_schedule s"
    by (simp_all add: s4_def s2_def s1_def Let_def)
  have "jmp_pred i (jmp_list s4) \<noteq> i" using pred by (simp add: f4)
  note f5 = kill_jmp_fields [OF this, unfolded f4]
  define s6 where "s6 = (kill_jmp i s4)\<lparr>max_level := 0, alc := 0, hlc := 0\<rparr>"
  define s' where "s' = on_mcu (ENABLE_SCHEDULER A)
      (fold kill_count_step [0..<?n] (fold kill_max_step [0..<?n] s6))"
  have r: "svc_service_task_kill A svc_num arguments s =
      Some (ERROR_NONE, if arguments 1 = 1 then HAND_OVER else svc_num, arguments, s')"
    using i(2) lv k2
    by (simp add: svc_service_task_kill_def Let_def i(1) [symmetric] s1_def [symmetric]
        s4_def s6_def s'_def)
  have m6: "alc s6 = 0" "hlc s6 = 0" by (simp_all add: s6_def)
  show thesis
    by (rule that [OF r, of s6])
      (simp_all add: s'_def kframe f5 fold_kill_count m6, simp_all add: s6_def f5 f4)
qed

lemma kill_levels_ok:
  assumes ok: "stash_ok n s" and i: "i < n" "live s i" "i \<noteq> 0" and ptr: "unat (lstash_ptr s) < n"
    and base: "priority_cur s 0 = 0" "live s 0"
  obtains ls lp where "kill_levels n i s = Some (s\<lparr>level_stash := ls, lstash_ptr := lp\<rparr>)"
    "\<And>s'. level_stash s' = ls \<Longrightarrow> lstash_ptr s' = lp \<Longrightarrow> priority_cur s' = priority_cur s \<Longrightarrow>
       live s' = (live s)(i := False) \<Longrightarrow> stash_ok n s'"
    "set (levels ls lp) = set (levels (level_stash s) (lstash_ptr s)) -
       (if \<exists>j < n. j \<noteq> i \<and> priority_cur s j = priority_cur s i then {} else {priority_cur s i})"
proof (cases "list_ex (\<lambda>j. j \<noteq> i \<and> priority_cur s j = priority_cur s i) [0..<n]")
  case True
  then have "\<exists>j < n. j \<noteq> i \<and> priority_cur s j = priority_cur s i" by (auto simp: list_ex_iff)
  with True ok show thesis
    by (intro that [where ls = "level_stash s" and lp = "lstash_ptr s"])
      (auto simp: kill_levels_def stash_ok_def)
next
  case False
  let ?p = "priority_cur s i" and ?L = "levels (level_stash s) (lstash_ptr s)"
  have none: "priority_cur s j \<noteq> ?p" if "j < n" "j \<noteq> i" for j
    using False that by (auto simp: list_ex_iff)
  have mem: "?p \<in> set ?L" using ok i by (auto simp: stash_ok_def)
  have inc: "sorted_wrt (<) ?L" using ok by (simp add: stash_ok_def incr_upto_levels)
  obtain ls where d: "level_drop n ?p (level_stash s, lstash_ptr s) = Some (ls, lstash_ptr s - 1)"
    and l: "levels ls (lstash_ptr s - 1) = remove1 ?p ?L"
    and z: "ls (unat (lstash_ptr s) - 1) = level_stash s (unat (lstash_ptr s))"
      "\<forall>j \<ge> unat (lstash_ptr s). ls j = level_stash s j"
    using level_drop_levels [OF mem ptr] by blast
  have p0: "?p \<noteq> 0" using none [of 0] base i by auto
  have pt: "unat (lstash_ptr s - 1) = unat (lstash_ptr s) - 1"
    using ok by (intro unat_pred_u8) (simp add: stash_ok_def)
  have st: "set (remove1 ?p ?L) = set ?L - {?p}"
    using inc by (intro set_remove1_eq) (simp add: strict_sorted_iff)
  have L0: "?L = 0 # tl ?L" using ok by (auto simp: stash_ok_def levels_def upt_conv_Cons)
  then have r0: "remove1 ?p ?L = 0 # remove1 ?p (tl ?L)" using p0 by (metis remove1.simps(2))
  have len: "0 < unat (lstash_ptr s - 1)"
    using r0 l by (metis length_0_conv length_map length_upt levels_def list.distinct(1) minus_nat.diff_0 not_gr_zero)
  have ls0: "ls 0 = 0" 
    using r0 l len by (metis levels_def list.sel(1) nth_Cons_0 nth_map_upt plus_nat.add_0 minus_nat.diff_0)
  have inc': "incr_upto (unat (lstash_ptr s - 1)) ls"
    unfolding incr_upto_levels l using inc by (rule sorted_wrt_remove1)
  have zero: "\<forall>j < n. unat (lstash_ptr s - 1) \<le> j \<longrightarrow> ls j = 0"
  proof (intro allI impI)
    fix j
    assume j: "j < n" "unat (lstash_ptr s - 1) \<le> j"
    then consider "j = unat (lstash_ptr s) - 1" | "unat (lstash_ptr s) \<le> j" using pt by linarith
    then show "ls j = 0" using z ok ptr j by cases (auto simp: stash_ok_def)
  qed
  have kl: "kill_levels n i s = Some (s\<lparr>level_stash := ls, lstash_ptr := lstash_ptr s - 1\<rparr>)"
    using False d by (simp add: kill_levels_def)
  show thesis
  proof (rule that [OF kl])
    show "set (levels ls (lstash_ptr s - 1)) = set ?L -
       (if \<exists>j < n. j \<noteq> i \<and> priority_cur s j = ?p then {} else {?p})"
      using none st l by auto
    fix s'
    assume s': "level_stash s' = ls" "lstash_ptr s' = lstash_ptr s - 1"
      "priority_cur s' = priority_cur s" "live s' = (live s)(i := False)"
    show "stash_ok n s'"
      using ok none ls0 len inc' zero pt ptr by (simp add: stash_ok_def s' l st)
  qed
qed

lemma kinv_unlink:
  assumes kinv: "kinv n s" and i: "i < n" "live s i" "i \<noteq> 0"
    and st: "state s' = (state s)(i := TASK_STATE_IDLE)"
    and jl: "jmp_list s' = jmp_unlink i (jmp_list s)"
    and tab: "task_obj s' = (task_obj s)(i := 0)" "task_id s' = (task_id s)(i := 0)"
    and cnt: "task_count s' = task_count s - 1"
  shows "kinv n s'"
proof -
  have lv: "live s' = (live s)(i := False)" by (rule live_upd_idle [OF st])
  have ring: "ring_ok n (live s') (jmp_list s')"
    unfolding lv jl using kinv i by (intro ring_ok_unlink) (auto simp: kinv_def)
  have "table_ok n s'" using kinv tab unfolding kinv_def table_ok_def lv by simp
  moreover have "unat (task_count s') = length (filter (live s') [0..<n])"
  proof -
    have len: "Suc (length (filter ((live s)(i := False)) [0..<n])) = unat (task_count s)"
      using kinv length_filter_upd_idle [of i n "live s"] i by (simp add: kinv_def)
    then have "unat (task_count s') = unat (task_count s) - 1"
      unfolding cnt by (metis One_nat_def Suc_leI unat_1 unat_sub word_le_nat_alt zero_less_Suc)
    with len show ?thesis by (simp add: lv)
  qed
  ultimately show ?thesis using ring by (simp add: kinv_def)
qed

text \<open>A kill of a slot in use, other than the base task's, whatever the stash holds.\<close>

lemma kill_any:
  assumes k: "kinv (MAX_TASK_COUNT A) s"
    and i: "i < MAX_TASK_COUNT A" "live s i" "i \<noteq> 0" and pid: "arguments 0 = task_id s i"
    and kl: "kill_levels (MAX_TASK_COUNT A) i s = Some (s\<lparr>level_stash := ls, lstash_ptr := lp\<rparr>)"
  obtains s' where
    "svc_service_task_kill A svc_num arguments s =
       Some (ERROR_NONE, if arguments 1 = 1 then HAND_OVER else svc_num, arguments, s')"
    "kinv (MAX_TASK_COUNT A) s'" "priority_cur s 0 = 0 \<Longrightarrow> max_ok (MAX_TASK_COUNT A) s'"
    "live s' = (live s)(i := False)" "level_stash s' = ls" "lstash_ptr s' = lp"
    "priority_cur s' = priority_cur s" "jmp_list s' = jmp_unlink i (jmp_list s)"
    "next_task s' = (if self_kill s \<or> arguments 1 = 1 then next_task s + scast (jmp_list s i)
                     else next_task s)"
    "current_task s' = current_task s" "enable_dws s' = enable_dws s"
    "self_kill s' = (self_kill s \<or> arguments 1 = 1)"
    "state s' = (state s)(i := TASK_STATE_IDLE)" "task_obj s' = (task_obj s)(i := 0)"
    "task_id s' = (task_id s)(i := 0)" "task_count s' = task_count s - 1"
    "alc s' = of_nat (length (filter (\<lambda>i. priority_cur s i = max_level s' \<and> \<not> hib_masked (state s' i))
       [0..<MAX_TASK_COUNT A]))"
    "permissions s' = permissions s" "normal_schedule s' = normal_schedule s"
proof -
  let ?n = "MAX_TASK_COUNT A"
  have ring: "ring_ok ?n (live s) (jmp_list s)" and tab: "table_ok ?n s" using k by (auto simp: kinv_def)
  have slot: "i = pid_slot (arguments 0)" "task_obj s i \<noteq> 0"
    unfolding pid using table_okD [OF tab i(1,2)] by argo+
  obtain q where "q < i" "jmp_pred i (jmp_list s) = q" using ring_pred [OF ring i] by blast
  then have pred: "jmp_pred i (jmp_list s) \<noteq> i" by simp
  have base0: "live s 0" "0 < ?n" using ring_ok_base [OF ring] by auto
  show thesis
  proof (rule kill_success [where arguments = arguments and svc_num = svc_num,
        OF slot(1) i(1) slot(2) pred kl])
    fix s6 s'
    assume c: "svc_service_task_kill A svc_num arguments s =
       Some (ERROR_NONE, if arguments 1 = 1 then HAND_OVER else svc_num, arguments, s')"
      "jmp_list s' = jmp_unlink i (jmp_list s)" "state s' = (state s)(i := TASK_STATE_IDLE)"
      "task_obj s' = (task_obj s)(i := 0)" "task_id s' = (task_id s)(i := 0)"
      "task_count s' = task_count s - 1" "priority_cur s' = priority_cur s"
      "level_stash s' = ls" "lstash_ptr s' = lp"
      and m: "max_level s' = max_level (fold kill_max_step [0..<?n] s6)" "state s6 = state s'"
      "priority_cur s6 = priority_cur s" "max_level s6 = 0"
      and rest: "current_task s' = current_task s"
      "next_task s' = (if self_kill s \<or> arguments 1 = 1 then next_task s + scast (jmp_list s i)
                     else next_task s)"
      "self_kill s' = (self_kill s \<or> arguments 1 = 1)" "enable_dws s' = enable_dws s"
      "permissions s' = permissions s" "normal_schedule s' = normal_schedule s"
      "alc s' = of_nat (length (filter (\<lambda>i. priority_cur s i = max_level s' \<and> \<not> hib_masked (state s' i))
       [0..<?n]))"
    have lv: "live s' = (live s)(i := False)" by (rule live_upd_idle [OF c(3)])
    have lv6: "live s6 = live s'" by (simp add: live_def fun_eq_iff m)
    have mx: "max_ok ?n s'" if base: "priority_cur s 0 = 0"
    proof -
      have b: "live s' 0" "priority_cur s' 0 = 0" using base base0 i by (simp_all add: lv c)
      show ?thesis
        using fold_kill_max [of s6 "[0..<?n]", folded m(1), unfolded lv6 m(3,4), folded c(7)] b base0
        by (auto simp: max_ok_def)
    qed
    have "kinv ?n s'" by (rule kinv_unlink [OF k i c(3,2,4,5,6)])
    then show thesis using mx by (intro that [OF c(1)]) (simp_all only: c lv rest)
  qed
qed

text \<open>A kill of a slot in use, other than the base task's, keeps the invariants.\<close>

lemma kill_preserves:
  assumes ok: "kernel_ok (MAX_TASK_COUNT A) s"
    and i: "i < MAX_TASK_COUNT A" "live s i" "i \<noteq> 0" and pid: "arguments 0 = task_id s i"
    and ptr: "unat (lstash_ptr s) < MAX_TASK_COUNT A" and base: "priority_cur s 0 = 0"
  obtains s' where
    "svc_service_task_kill A svc_num arguments s =
       Some (ERROR_NONE, if arguments 1 = 1 then HAND_OVER else svc_num, arguments, s')"
    "kernel_ok (MAX_TASK_COUNT A) s'" "live s' = (live s)(i := False)"
    "set (levels (level_stash s') (lstash_ptr s')) = set (levels (level_stash s) (lstash_ptr s)) -
       (if \<exists>j < MAX_TASK_COUNT A. j \<noteq> i \<and> priority_cur s j = priority_cur s i then {}
        else {priority_cur s i})"
    "priority_cur s' = priority_cur s" "jmp_list s' = jmp_unlink i (jmp_list s)"
    "next_task s' = (if self_kill s \<or> arguments 1 = 1 then next_task s + scast (jmp_list s i)
                     else next_task s)"
    "current_task s' = current_task s" "enable_dws s' = enable_dws s"
    "self_kill s' = (self_kill s \<or> arguments 1 = 1)"
    "state s' = (state s)(i := TASK_STATE_IDLE)" "task_obj s' = (task_obj s)(i := 0)"
    "task_id s' = (task_id s)(i := 0)" "task_count s' = task_count s - 1"
    "alc s' = of_nat (length (filter (\<lambda>i. priority_cur s i = max_level s' \<and> \<not> hib_masked (state s' i))
       [0..<MAX_TASK_COUNT A]))"
    "permissions s' = permissions s" "normal_schedule s' = normal_schedule s"
proof -
  let ?n = "MAX_TASK_COUNT A"
  have k: "kinv ?n s" "stash_ok ?n s" using ok by (auto simp: kernel_ok_def)
  have base0: "live s 0" using k(1) ring_ok_base by (auto simp: kinv_def)
  show thesis
  proof (rule kill_levels_ok [OF k(2) i ptr base base0])
    fix ls lp
    assume kl: "kill_levels ?n i s = Some (s\<lparr>level_stash := ls, lstash_ptr := lp\<rparr>)"
    and kst: "\<And>s'. level_stash s' = ls \<Longrightarrow> lstash_ptr s' = lp \<Longrightarrow> priority_cur s' = priority_cur s \<Longrightarrow>
       live s' = (live s)(i := False) \<Longrightarrow> stash_ok ?n s'"
    and ksl: "set (levels ls lp) = set (levels (level_stash s) (lstash_ptr s)) -
       (if \<exists>j < ?n. j \<noteq> i \<and> priority_cur s j = priority_cur s i then {} else {priority_cur s i})"
    show thesis
      by (rule kill_any [where arguments = arguments and svc_num = svc_num, OF k(1) i pid kl])
        (rule that, assumption, use kst base ksl in \<open>simp_all add: kernel_ok_def\<close>)
  qed
qed

section \<open>The ring is determined by the slots in use\<close>

lemma ring_unique:
  assumes "ring_ok n lv jl" and "ring_ok n lv jl'" and "i < n"
  shows "jl i = jl' i"
proof (cases "lv i")
  case True
  obtain k where k: "is_succ lv n i k" "int i + sint (jl i) = int k"
    using ring_okD [OF assms(1,3) True] by blast
  obtain k' where k': "is_succ lv n i k'" "int i + sint (jl' i) = int k'"
    using ring_okD [OF assms(2,3) True] by blast
  have "k = k'" using k(1) k'(1) by (rule is_succ_unique)
  with k(2) k'(2) have "sint (jl i) = sint (jl' i)" by linarith
  then show ?thesis by (metis signed_word_eqI)
next
  case False
  then show ?thesis using assms by (simp add: ring_ok_def)
qed

text \<open>The search for the identifier of a task finds its slot.\<close>

lemma task_id_first:
  assumes "kinv n s" and i: "i < n" "live s i"
  shows "first_idx (\<lambda>j. task_id s j = task_id s i) n = i"
proof -
  have tab: "table_ok n s" using assms(1) by (simp add: kinv_def)
  have ti: "task_id s i \<noteq> 0 \<and> pid_slot (task_id s i) = i" using table_okD [OF tab i] by simp
  have ne: "task_id s j \<noteq> task_id s i" if "j < i" for j
  proof (cases "live s j")
    case True
    then have "pid_slot (task_id s j) = j" using table_okD [OF tab] that i(1) by simp
    with ti that show ?thesis by auto
  next
    case False
    then have "task_id s j = 0" using tab that i(1) by (simp add: table_ok_def)
    with ti show ?thesis by simp
  qed
  show ?thesis using i(1) ne by (intro first_idx_eqI) simp_all
qed

end
