(* ===== verification/SchedInv.thy ===== *)
theory SchedInv
  imports Scheduler TaskInv
begin

text \<open>
  Correctness of the scheduler: the first loop visits every slot of the ring once and wakes
  exactly the hibernating tasks whose condition holds; the second loop takes the first
  ready task in a fixed order of slots and levels, and ends without leaving an array
  exactly when there is one.
\<close>

section \<open>Walking the ring of a state\<close>

definition ring_nxt :: "kstate \<Rightarrow> nat \<Rightarrow> nat" where
  "ring_nxt s = jmp_nxt (live s, jmp_list s)"

definition live_slots :: "nat \<Rightarrow> kstate \<Rightarrow> nat list" where
  "live_slots n s = filter (live s) [0..<n]"

text \<open>One round: the slots from \<open>i\<close> on, in the order of the ring.\<close>

definition ring_round :: "nat \<Rightarrow> kstate \<Rightarrow> nat \<Rightarrow> nat list" where
  "ring_round n s i = map (\<lambda>m. (ring_nxt s ^^ m) i) [0..<length (live_slots n s)]"

abbreviation (input) ring_of :: "kstate \<Rightarrow> (nat \<Rightarrow> bool) \<times> u8 arr" where
  "ring_of s \<equiv> (live s, jmp_list s)"

lemma slots_ring: "jmp_slots n (ring_of s) = live_slots n s"
  by (simp add: jmp_slots_def live_slots_def)

lemma inv_ring: "jmp_inv n (ring_of s) = ring_ok n (live s) (jmp_list s)"
  by (simp add: jmp_inv_def)

lemma live_slots_mem: "i \<in> set (live_slots n s) \<longleftrightarrow> i < n \<and> live s i"
  by (auto simp: live_slots_def)

lemma ring_iter_mem:
  assumes "ring_ok n (live s) (jmp_list s)" and "i < n" "live s i"
  shows "(ring_nxt s ^^ m) i < n \<and> live s ((ring_nxt s ^^ m) i)"
proof (induction m)
  case (Suc m)
  then show ?case using jmp_nxt_int(2,3) [OF assms(1)] by (simp add: ring_nxt_def)
qed (use assms in simp)

text \<open>The round from \<open>i\<close> is the walk from \<open>i\<close>, which ends at \<open>i\<close>, turned by one.\<close>

lemma ring_round_walk:
  assumes "ring_ok n (live s) (jmp_list s)" and "i < n" "live s i"
  shows "jr.walk n (ring_of s) i = tl (ring_round n s i) @ [i]" and "hd (ring_round n s i) = i"
    and "ring_round n s i \<noteq> []"
proof -
  have inv: "jmp_inv n (ring_of s)" "i \<in> set (jmp_slots n (ring_of s))"
    using assms by (simp_all add: inv_ring slots_ring live_slots_mem)
  obtain m where m: "length (live_slots n s) = Suc m"
    using jr.slots_ne [OF inv(1)] by (cases "live_slots n s") (auto simp: slots_ring)
  have w: "jr.walk n (ring_of s) i = map (\<lambda>m. (ring_nxt s ^^ Suc m) i) [0..<Suc m]"
    by (simp only: jr.walk_def slots_ring m ring_nxt_def)
  have "jr.walk n (ring_of s) i \<noteq> []" by (simp only: w) simp
  then have "(ring_nxt s ^^ Suc m) i = i"
    using jr.walk_last [OF inv] by (simp add: w)
  moreover have "tl (ring_round n s i) = map (\<lambda>m. (ring_nxt s ^^ Suc m) i) [0..<m]"
    by (rule nth_equalityI) (simp_all add: ring_round_def m nth_tl del: upt_Suc funpow.simps)
  ultimately show "jr.walk n (ring_of s) i = tl (ring_round n s i) @ [i]"
    by (simp only: w upt_Suc) simp
  show "hd (ring_round n s i) = i" and "ring_round n s i \<noteq> []"
    unfolding ring_round_def m by (simp_all add: upt_conv_Cons del: upt_Suc)
qed

lemma ring_round_set:
  assumes "ring_ok n (live s) (jmp_list s)" and "i < n" "live s i"
  shows "set (ring_round n s i) = {j. j < n \<and> live s j}" and "distinct (ring_round n s i)"
proof -
  have inv: "jmp_inv n (ring_of s)" "i \<in> set (jmp_slots n (ring_of s))"
    using assms by (simp_all add: inv_ring slots_ring live_slots_mem)
  note w = ring_round_walk [OF assms]
  have perm: "ring_round n s i = i # tl (ring_round n s i)"
    using w(2,3) by (metis list.collapse)
  have "set (ring_round n s i) = set (jr.walk n (ring_of s) i)"
    by (subst perm) (simp add: w(1))
  then show "set (ring_round n s i) = {j. j < n \<and> live s j}"
    using jr.walk_set [OF inv] by (auto simp: slots_ring live_slots_mem)
  have "distinct (tl (ring_round n s i) @ [i])" using jr.walk_distinct [OF inv] w(1) by simp
  then show "distinct (ring_round n s i)" by (subst perm) simp
qed

section \<open>Waking the hibernating tasks\<close>

text \<open>The condition a hibernating task waits for: \<open>*op1 - *op2\<close> has reached its value.\<close>

definition due :: "kstate \<Rightarrow> nat \<Rightarrow> bool" where
  "due s k \<longleftrightarrow>
     (let d = mem (mcu s) (op1 s k) - mem (mcu s) (op2 s k) in
      state s k = TASK_STATE_HIBERNATE_G \<and> hib_value s k \<le> d \<or>
      state s k = TASK_STATE_HIBERNATE_L \<and> d \<le> hib_value s k)"

lemma hib_check_due: "hib_check k s = (if due s k then hib_wake k s else s)"
  by (auto simp: hib_check_def due_def hib_wake_def Let_def)

lemma hib_wake_frame:
  "state (hib_wake k s) = (state s)(k := TASK_STATE_SLEEP)"
  "jmp_list (hib_wake k s) = jmp_list s" "next_task (hib_wake k s) = next_task s"
  "current_task (hib_wake k s) = current_task s" "enable_dws (hib_wake k s) = enable_dws s"
  "priority_cur (hib_wake k s) = priority_cur s" "max_level (hib_wake k s) = max_level s"
  "level_stash (hib_wake k s) = level_stash s" "lstash_ptr (hib_wake k s) = lstash_ptr s"
  "task_obj (hib_wake k s) = task_obj s" "task_id (hib_wake k s) = task_id s"
  "task_count (hib_wake k s) = task_count s" "mcu (hib_wake k s) = mcu s"
  "op1 (hib_wake k s) = op1 s" "op2 (hib_wake k s) = op2 s" "hib_value (hib_wake k s) = hib_value s"
  "alc (hib_wake k s) + hlc (hib_wake k s) = alc s + hlc s"
  "permissions (hib_wake k s) = permissions s"
  by (simp_all add: hib_wake_def Let_def)

lemma hib_check_frame [kframe]:
  "jmp_list (hib_check k s) = jmp_list s" "next_task (hib_check k s) = next_task s"
  "current_task (hib_check k s) = current_task s" "enable_dws (hib_check k s) = enable_dws s"
  "priority_cur (hib_check k s) = priority_cur s" "max_level (hib_check k s) = max_level s"
  "level_stash (hib_check k s) = level_stash s" "lstash_ptr (hib_check k s) = lstash_ptr s"
  "task_obj (hib_check k s) = task_obj s" "task_id (hib_check k s) = task_id s"
  "task_count (hib_check k s) = task_count s" "mcu (hib_check k s) = mcu s"
  "op1 (hib_check k s) = op1 s" "op2 (hib_check k s) = op2 s" "hib_value (hib_check k s) = hib_value s"
  "alc (hib_check k s) + hlc (hib_check k s) = alc s + hlc s"
  "permissions (hib_check k s) = permissions s"
  by (simp_all add: hib_check_due hib_wake_frame)

lemma hib_check_state: "state (hib_check k s) = (if due s k then (state s)(k := TASK_STATE_SLEEP) else state s)"
  by (simp add: hib_check_due hib_wake_frame)

lemma hib_check_live: "live (hib_check k s) = live s"
  by (auto simp: live_def hib_check_state due_def fun_eq_iff Let_def)

lemma due_hib_check: "k \<noteq> j \<Longrightarrow> due (hib_check k s) j = due s j"
  by (simp add: due_def hib_check_frame hib_check_state)

lemma fold_hib_frame [kframe]:
  "jmp_list (fold hib_check xs s) = jmp_list s" "next_task (fold hib_check xs s) = next_task s"
  "current_task (fold hib_check xs s) = current_task s" "enable_dws (fold hib_check xs s) = enable_dws s"
  "priority_cur (fold hib_check xs s) = priority_cur s" "max_level (fold hib_check xs s) = max_level s"
  "level_stash (fold hib_check xs s) = level_stash s" "lstash_ptr (fold hib_check xs s) = lstash_ptr s"
  "task_obj (fold hib_check xs s) = task_obj s" "task_id (fold hib_check xs s) = task_id s"
  "task_count (fold hib_check xs s) = task_count s" "mcu (fold hib_check xs s) = mcu s"
  "alc (fold hib_check xs s) + hlc (fold hib_check xs s) = alc s + hlc s"
  "live (fold hib_check xs s) = live s" "permissions (fold hib_check xs s) = permissions s"
  by (induction xs arbitrary: s) (simp_all add: hib_check_frame hib_check_live)

lemma fold_hib_state:
  "distinct xs \<Longrightarrow> state (fold hib_check xs s) j =
     (if j \<in> set xs \<and> due s j then TASK_STATE_SLEEP else state s j)"
proof (induction xs arbitrary: s)
  case (Cons x xs)
  have "state (fold hib_check xs (hib_check x s)) j =
      (if j \<in> set xs \<and> due (hib_check x s) j then TASK_STATE_SLEEP else state (hib_check x s) j)"
    using Cons by simp
  then show ?case using Cons.prems by (auto simp: hib_check_state due_hib_check)
qed simp

lemma hib_loop_step:
  assumes ok: "ring_ok n (live s) (jmp_list s)" and a: "a < n" "live s a"
  shows "hib_loop n (of_nat a) s =
    (if ring_nxt s a = unat (next_task s) then Some (hib_check a s)
     else hib_loop n (of_nat (ring_nxt s a)) (hib_check a s))"
proof -
  have n: "n \<le> 120" using ok by (rule ring_ok_bound)
  have ua: "unat (of_nat a :: u8) = a" using a n by (intro unat_of_nat_u8) simp
  have b: "ring_nxt s a < n" using jmp_nxt_int(2) [OF ok a] by (simp add: ring_nxt_def)
  have st: "unat (jmp_step8 (jmp_list s) (of_nat a)) = ring_nxt s a"
    using jmp_step8_nxt [OF ok, of "of_nat a"] a by (simp add: ua ring_nxt_def)
  then have st': "jmp_step8 (jmp_list s) (of_nat a) = of_nat (ring_nxt s a)"
    using unat_of_nat_u8 [of "ring_nxt s a"] b n by (intro word_unat_eq_iff [THEN iffD2]) simp
  have "(ucast (jmp_step8 (jmp_list s) (of_nat a)) = next_task s) = (ring_nxt s a = unat (next_task s))"
    unfolding st [symmetric] by (metis unat_ucast_u8_u32 unsigned_word_eqI)
  then show ?thesis
    using a by (subst hib_loop.simps) (simp add: ua hib_check_frame st')
qed

text \<open>The loop from slot \<open>a\<close>, \<open>r\<close> steps before it is back at \<open>next_task\<close>.\<close>

lemma hib_loop_run:
  assumes "ring_ok n (live s) (jmp_list s)" and "a < n" "live s a"
    and "(ring_nxt s ^^ Suc r) a = unat (next_task s)"
    and "\<And>j. j < r \<Longrightarrow> (ring_nxt s ^^ Suc j) a \<noteq> unat (next_task s)"
  shows "hib_loop n (of_nat a) s =
    Some (fold hib_check (map (\<lambda>m. (ring_nxt s ^^ m) a) [0..<Suc r]) s)"
  using assms
proof (induction r arbitrary: a s)
  case 0
  then show ?case by (simp add: hib_loop_step)
next
  case (Suc r)
  let ?s = "hib_check a s" and ?b = "ring_nxt s a"
  have fr: "live ?s = live s" "jmp_list ?s = jmp_list s" "next_task ?s = next_task s"
    "ring_nxt ?s = ring_nxt s" by (simp_all add: hib_check_frame hib_check_live ring_nxt_def)
  have b: "?b < n" "live s ?b" using ring_iter_mem [OF Suc.prems(1-3), of 1] by simp_all
  have "hib_loop n (of_nat a) s = hib_loop n (of_nat ?b) ?s"
    using Suc.prems(5) [of 0] by (subst hib_loop_step [OF Suc.prems(1-3)]) simp
  also have "\<dots> = Some (fold hib_check (map (\<lambda>m. (ring_nxt s ^^ m) ?b) [0..<Suc r]) ?s)"
  proof (rule Suc.IH [of ?s ?b, unfolded fr])
    show "(ring_nxt s ^^ Suc r) ?b = unat (next_task s)"
      using Suc.prems(4) by (simp add: funpow_swap1)
    show "(ring_nxt s ^^ Suc j) ?b \<noteq> unat (next_task s)" if "j < r" for j
      using Suc.prems(5) [of "Suc j"] that by (simp add: funpow_swap1)
  qed (use Suc.prems b in auto)
  also have "\<dots> = Some (fold hib_check (map (\<lambda>m. (ring_nxt s ^^ m) a) [0..<Suc (Suc r)]) s)"
  proof -
    have "map (\<lambda>m. (ring_nxt s ^^ m) a) [0..<Suc (Suc r)] =
        a # map (\<lambda>m. (ring_nxt s ^^ m) ?b) [0..<Suc r]"
      by (rule nth_equalityI) (auto simp: nth_Cons' funpow_swap1 gr0_conv_Suc simp del: upt_Suc)
    then show ?thesis by (simp del: upt_Suc)
  qed
  finally show ?case .
qed

lemma hib_loop_round:
  assumes ok: "ring_ok n (live s) (jmp_list s)" and a: "unat (next_task s) < n" "live s (unat (next_task s))"
  shows "hib_loop n (ucast (next_task s)) s =
    Some (fold hib_check (ring_round n s (unat (next_task s))) s)"
proof -
  let ?a = "unat (next_task s)"
  have n: "n \<le> 120" using ok by (rule ring_ok_bound)
  obtain m where m: "length (live_slots n s) = Suc m"
    using ring_round_walk(3) [OF ok a] by (cases "live_slots n s") (auto simp: ring_round_def)
  have w: "jr.walk n (ring_of s) ?a = map (\<lambda>m. (ring_nxt s ^^ Suc m) ?a) [0..<Suc m]"
    by (simp only: jr.walk_def slots_ring m ring_nxt_def)
  have inv: "jmp_inv n (ring_of s)" "?a \<in> set (jmp_slots n (ring_of s))"
    using ok a by (simp_all add: inv_ring slots_ring live_slots_mem)
  have home: "(ring_nxt s ^^ Suc m) ?a = ?a"
    using jr.walk_last [OF inv] by (simp add: w)
  have dw: "distinct (map (\<lambda>m. (ring_nxt s ^^ Suc m) ?a) [0..<Suc m])"
    using jr.walk_distinct [OF inv] by (simp only: w)
  have dist: "(ring_nxt s ^^ Suc j) ?a \<noteq> ?a" if "j < m" for j
    using nth_eq_iff_index_eq [OF dw, of j m] that home by (simp del: upt_Suc funpow.simps)
  have "ucast (next_task s) = (of_nat ?a :: u8)" by simp
  then show ?thesis
    using hib_loop_run [OF ok a home dist] by (simp only: ring_round_def m)
qed

section \<open>The choice of the next task\<close>

definition ready :: "kstate \<Rightarrow> u8 \<Rightarrow> nat \<Rightarrow> bool" where
  "ready s level i \<longleftrightarrow> state s i = TASK_STATE_SLEEP \<and> priority_cur s i = level"

text \<open>
  The order in which the second loop looks at slots and levels: first the slots after the
  current one, at the highest level; then, for every lower level of the stash from
  the top down, the whole ring beginning with the current slot.
\<close>

definition lower_levels :: "kstate \<Rightarrow> u8 \<Rightarrow> u8 list" where
  "lower_levels s lptr = map (level_stash s) (rev [0..<unat lptr])"

definition round_at :: "nat \<Rightarrow> kstate \<Rightarrow> nat \<Rightarrow> u8 \<Rightarrow> (nat \<times> u8) list" where
  "round_at n s c l = map (\<lambda>i. (i, l)) (ring_round n s c)"

definition sched_order :: "nat \<Rightarrow> kstate \<Rightarrow> nat \<Rightarrow> (nat \<times> u8) list" where
  "sched_order n s c = tl (round_at n s c (max_level s)) @
     concat (map (round_at n s c) (lower_levels s (lstash_ptr s - 1)))"

definition is_ready :: "kstate \<Rightarrow> nat \<times> u8 \<Rightarrow> bool" where
  "is_ready s = (\<lambda>(i, l). ready s l i)"

definition chosen :: "kstate \<Rightarrow> nat \<times> u8 \<Rightarrow> kstate \<times> u8" where
  "chosen s = (\<lambda>(i, l). (s\<lparr>next_task := of_nat i\<rparr>, l))"

lemma sched_loop_step:
  assumes ok: "ring_ok n (live s) (jmp_list s)" and a: "a < n" "live s a" and p: "unat p \<le> n"
    and dws: "enable_dws s"
  shows "sched_loop n l p (s\<lparr>next_task := of_nat a\<rparr>) =
    (let b = ring_nxt s a; l' = level_stash s (unat p - 1) in
     if b = unat (current_task s) then
       (if p = 0 then None
        else if ready s l' b then Some (s\<lparr>next_task := of_nat b\<rparr>, l')
        else sched_loop n l' (p - 1) (s\<lparr>next_task := of_nat b\<rparr>))
     else if ready s l b then Some (s\<lparr>next_task := of_nat b\<rparr>, l)
     else sched_loop n l p (s\<lparr>next_task := of_nat b\<rparr>))"
proof -
  let ?b = "ring_nxt s a"
  have n: "n \<le> 120" using ok by (rule ring_ok_bound)
  have ua: "unat (of_nat a :: u32) = a" using a n by (intro unat_of_nat_u32) simp
  have b: "?b < n" using jmp_nxt_int(2) [OF ok a] by (simp add: ring_nxt_def)
  have ub: "unat (of_nat ?b :: u32) = ?b" using b n by (intro unat_of_nat_u32) simp
  have st: "jmp_step32 (jmp_list s) (of_nat a) = of_nat ?b"
    using jmp_step32_nxt [OF ok, of "of_nat a"] a ub
    by (intro word_unat_eq_iff [THEN iffD2]) (simp only: ua ring_nxt_def)
  have cur: "(current_task s = of_nat ?b) = (?b = unat (current_task s))"
    using ub by (metis of_nat_unat ucast_id)
  have p0: "unat (p - 1) = unat p - 1" if "p \<noteq> 0"
    using that by (intro unat_pred_u8) (simp add: unat_gt_0)
  have "unat (- 1 :: u8) = 255" by (simp add: unsigned_minus_1_eq_mask mask_eq_exp_minus_1)
  then have m1: "\<not> unat (- 1 :: u8) < n" using n by simp
  have pn: "unat p - 1 < n" if "p \<noteq> 0" using that p by (metis One_nat_def Suc_pred le_simps(2) unat_gt_0 Suc_le_eq)
  show ?thesis
    using a b dws m1 p0 pn
    by (subst sched_loop.simps)
      (auto simp: ua ub st cur pass_current_def ready_def Let_def)
qed

text \<open>The loop over a stretch of the ring that does not meet the current slot.\<close>

lemma sched_loop_stretch:
  assumes ok: "ring_ok n (live s) (jmp_list s)" and a: "a < n" "live s a" and p: "unat p \<le> n"
    and dws: "enable_dws s"
    and off: "\<And>j. j < r \<Longrightarrow> (ring_nxt s ^^ Suc j) a \<noteq> unat (current_task s)"
  shows "sched_loop n l p (s\<lparr>next_task := of_nat a\<rparr>) =
    (case find (is_ready s) (map (\<lambda>m. ((ring_nxt s ^^ Suc m) a, l)) [0..<r]) of
       Some c \<Rightarrow> Some (chosen s c)
     | None \<Rightarrow> sched_loop n l p (s\<lparr>next_task := of_nat ((ring_nxt s ^^ r) a)\<rparr>))"
  using a off
proof (induction r arbitrary: a)
  case (Suc r)
  let ?b = "ring_nxt s a"
  have b: "?b < n" "live s ?b" using ring_iter_mem [OF ok Suc.prems(1,2), of 1] by simp_all
  have mp: "map (\<lambda>m. ((ring_nxt s ^^ Suc m) a, l)) [0..<Suc r] =
      (?b, l) # map (\<lambda>m. ((ring_nxt s ^^ Suc m) ?b, l)) [0..<r]"
    by (rule nth_equalityI) (auto simp: nth_Cons' funpow_swap1 gr0_conv_Suc simp del: upt_Suc)
  have IH: "sched_loop n l p (s\<lparr>next_task := of_nat ?b\<rparr>) =
    (case find (is_ready s) (map (\<lambda>m. ((ring_nxt s ^^ Suc m) ?b, l)) [0..<r]) of
       Some c \<Rightarrow> Some (chosen s c)
     | None \<Rightarrow> sched_loop n l p (s\<lparr>next_task := of_nat ((ring_nxt s ^^ r) ?b)\<rparr>))"
    using Suc.prems(3) [of "Suc _"] by (intro Suc.IH b) (simp add: funpow_swap1)
  have off0: "?b \<noteq> unat (current_task s)" using Suc.prems(3) [of 0] by simp
  have fp: "(ring_nxt s ^^ Suc r) a = (ring_nxt s ^^ r) ?b" by (simp add: funpow_swap1)
  show ?case
    unfolding mp fp using off0
    by (subst sched_loop_step [OF ok Suc.prems(1,2) p dws]) (simp add: IH is_ready_def chosen_def Let_def)
qed simp

lemma find_append_case:
  "find P (xs @ ys) = (case find P xs of None \<Rightarrow> find P ys | Some x \<Rightarrow> Some x)"
  by (induction xs) auto

lemma lower_levels_Cons:
  assumes "p \<noteq> 0"
  shows "lower_levels s p = level_stash s (unat p - 1) # lower_levels s (p - 1)"
proof -
  have "unat (p - 1) = unat p - 1" using assms by (intro unat_pred_u8) (simp add: unat_gt_0)
  moreover obtain k where "unat p = Suc k" using assms by (metis not0_implies_Suc unat_eq_0)
  ultimately show ?thesis by (simp add: lower_levels_def)
qed

lemma sched_loop_levels:
  assumes ok: "ring_ok n (live s) (jmp_list s)" and c: "c < n" "live s c" "c = unat (current_task s)"
    and dws: "enable_dws s" and p: "unat p \<le> n"
  shows "sched_loop n l p (s\<lparr>next_task := of_nat c\<rparr>) =
    map_option (chosen s) (find (is_ready s)
      (tl (round_at n s c l) @ concat (map (round_at n s c) (lower_levels s p))))"
  using p
proof (induction "unat p" arbitrary: l p rule: less_induct)
  case less
  obtain m where m: "length (live_slots n s) = Suc m"
    using ring_round_walk(3) [OF ok c(1,2)] by (cases "live_slots n s") (auto simp: ring_round_def)
  have tr: "tl (ring_round n s c) = map (\<lambda>m. (ring_nxt s ^^ Suc m) c) [0..<m]"
    by (rule nth_equalityI) (simp_all add: ring_round_def m nth_tl del: upt_Suc funpow.simps)
  have ra: "round_at n s c l' = (c, l') # tl (round_at n s c l')" for l'
    using ring_round_walk(2,3) [OF ok c(1,2)] by (cases "ring_round n s c") (auto simp: round_at_def)
  have tl_ra: "tl (round_at n s c l) = map (\<lambda>m. ((ring_nxt s ^^ Suc m) c, l)) [0..<m]"
    by (simp add: round_at_def map_tl [symmetric] tr del: funpow.simps)
  have "distinct (c # tl (ring_round n s c))"
    using ring_round_set(2) [OF ok c(1,2)] ring_round_walk(2,3) [OF ok c(1,2)] by (metis list.collapse)
  then have "c \<notin> set (map (\<lambda>m. (ring_nxt s ^^ Suc m) c) [0..<m])" by (simp only: tr distinct.simps) simp
  then have off: "(ring_nxt s ^^ Suc j) c \<noteq> unat (current_task s)" if "j < m" for j
    using that unfolding c(3) [symmetric] by force
  have inv: "jmp_inv n (ring_of s)" "c \<in> set (jmp_slots n (ring_of s))"
    using ok c by (simp_all add: inv_ring slots_ring live_slots_mem)
  have "jr.walk n (ring_of s) c = map (\<lambda>m. (ring_nxt s ^^ Suc m) c) [0..<Suc m]"
    by (simp only: jr.walk_def slots_ring m ring_nxt_def)
  then have home: "ring_nxt s ((ring_nxt s ^^ m) c) = unat (current_task s)"
    using jr.walk_last [OF inv] unfolding c(3) [symmetric] by simp
  note e = ring_iter_mem [OF ok c(1,2), of m]
  note last_step = sched_loop_step [OF ok e [THEN conjunct1] e [THEN conjunct2] less.prems dws, of l,
      unfolded home Let_def, folded c(3)]
  have stretch: "sched_loop n l p (s\<lparr>next_task := of_nat c\<rparr>) =
    (case find (is_ready s) (tl (round_at n s c l)) of
       Some c \<Rightarrow> Some (chosen s c)
     | None \<Rightarrow> sched_loop n l p (s\<lparr>next_task := of_nat ((ring_nxt s ^^ m) c)\<rparr>))"
    unfolding tl_ra by (rule sched_loop_stretch [OF ok c(1,2) less.prems dws off])
  show ?case
  proof (cases "p = 0")
    case True
    have "sched_loop n l p (s\<lparr>next_task := of_nat ((ring_nxt s ^^ m) c)\<rparr>) = None"
      by (subst last_step) (simp add: True)
    then show ?thesis
      unfolding stretch by (simp add: True lower_levels_def split: option.splits)
  next
    case False
    let ?l = "level_stash s (unat p - 1)"
    have lt: "unat (p - 1) < unat p" "unat (p - 1) \<le> n"
      using False unat_pred_u8 [of p] less.prems by (auto simp: unat_gt_0)
    have "sched_loop n l p (s\<lparr>next_task := of_nat ((ring_nxt s ^^ m) c)\<rparr>) =
        map_option (chosen s) (find (is_ready s)
          ((c, ?l) # tl (round_at n s c ?l) @ concat (map (round_at n s c) (lower_levels s (p - 1)))))"
      using less.hyps [OF lt, of ?l] False
      by (subst last_step) (simp add: is_ready_def chosen_def)
    then show ?thesis
      unfolding stretch lower_levels_Cons [OF False] list.map concat.simps
      by (subst ra [of ?l]) (simp add: find_append_case split: option.splits)
  qed
qed

section \<open>The scheduler against a reference\<close>

text \<open>
  The reference: the interrupted task goes to sleep unless it left by itself, the due
  tasks are woken, and the first ready task of \<open>sched_order\<close> is chosen.
\<close>

definition entered :: "port \<Rightarrow> kstate \<Rightarrow> kstate" where
  "entered A s =
     (let s1 = on_mcu (DISABLE_SCHEDULER A) s;
          s2 = (if normal_schedule s
                then s1\<lparr>state := (state s)(unat (current_task s) := TASK_STATE_SLEEP)\<rparr>
                else s1\<lparr>normal_schedule := True\<rparr>)
      in on_mcu (suspend_task A (current_task s)) s2)"

definition woken :: "port \<Rightarrow> kstate \<Rightarrow> kstate" where
  "woken A s = fold hib_check
     (ring_round (MAX_TASK_COUNT A) (entered A s) (unat (next_task s))) (entered A s)"

definition sched_pick :: "port \<Rightarrow> kstate \<Rightarrow> (nat \<times> u8) option" where
  "sched_pick A s = find (is_ready (woken A s))
     (sched_order (MAX_TASK_COUNT A) (woken A s) (unat (current_task s)))"

lemma entered_frame:
  "jmp_list (entered A s) = jmp_list s" "next_task (entered A s) = next_task s"
  "current_task (entered A s) = current_task s" "enable_dws (entered A s) = enable_dws s"
  "priority_cur (entered A s) = priority_cur s" "max_level (entered A s) = max_level s"
  "level_stash (entered A s) = level_stash s" "lstash_ptr (entered A s) = lstash_ptr s"
  "task_obj (entered A s) = task_obj s" "task_id (entered A s) = task_id s"
  "task_count (entered A s) = task_count s"
  "alc (entered A s) = alc s" "hlc (entered A s) = hlc s"
  "permissions (entered A s) = permissions s"
  by (simp_all add: entered_def Let_def)

lemma entered_state: "state (entered A s) =
    (if normal_schedule s then (state s)(unat (current_task s) := TASK_STATE_SLEEP) else state s)"
  by (simp add: entered_def Let_def)

lemma entered_live: "live s (unat (current_task s)) \<Longrightarrow> live (entered A s) = live s"
  by (auto simp: live_def entered_state fun_eq_iff)

lemma woken_frame:
  "jmp_list (woken A s) = jmp_list s" "next_task (woken A s) = next_task s"
  "current_task (woken A s) = current_task s" "enable_dws (woken A s) = enable_dws s"
  "priority_cur (woken A s) = priority_cur s" "max_level (woken A s) = max_level s"
  "level_stash (woken A s) = level_stash s" "lstash_ptr (woken A s) = lstash_ptr s"
  "task_obj (woken A s) = task_obj s" "task_id (woken A s) = task_id s"
  "task_count (woken A s) = task_count s"
  "alc (woken A s) + hlc (woken A s) = alc s + hlc s"
  "live (woken A s) = live (entered A s)" "permissions (woken A s) = permissions s"
  by (simp_all add: woken_def fold_hib_frame entered_frame)

lemma sched_enter_entered:
  "unat (current_task s) < MAX_TASK_COUNT A \<Longrightarrow> sched_enter A s = Some (entered A s)"
  by (simp add: sched_enter_def entered_def Let_def)

lemma scheduler_pick:
  assumes ring: "ring_ok (MAX_TASK_COUNT A) (live s) (jmp_list s)"
    and cur: "next_task s = current_task s" "unat (current_task s) < MAX_TASK_COUNT A"
      "live s (unat (current_task s))"
    and dws: "enable_dws s" and ptr: "0 < unat (lstash_ptr s)" "unat (lstash_ptr s) \<le> MAX_TASK_COUNT A"
  shows "scheduler A s = map_option (\<lambda>(i, l). sched_leave A l ((woken A s)\<lparr>next_task := of_nat i\<rparr>))
    (sched_pick A s)"
proof -
  let ?n = "MAX_TASK_COUNT A" and ?c = "unat (current_task s)" and ?w = "woken A s"
  have lv: "live (entered A s) = live s" using cur(3) by (rule entered_live)
  have h: "hib_loop ?n (ucast (next_task (entered A s))) (entered A s) = Some ?w"
    unfolding woken_def
    using hib_loop_round [of ?n "entered A s"] ring cur by (simp add: entered_frame lv)
  have lp: "unat (lstash_ptr s - 1) \<le> ?n" using unat_pred_u8 [of "lstash_ptr s"] ptr by simp
  have nt: "?w\<lparr>next_task := of_nat ?c\<rparr> = ?w"
    using cur(1) by (simp add: woken_frame(2) [symmetric, of s A])
  have "sched_loop ?n (max_level ?w) (lstash_ptr ?w - 1) ?w =
      map_option (chosen ?w) (sched_pick A s)"
    unfolding sched_pick_def sched_order_def
  proof (subst nt [symmetric], rule sched_loop_levels)
    show "ring_ok ?n (live ?w) (jmp_list ?w)" "live ?w ?c"
      using ring cur(3) by (simp_all only: woken_frame lv)
  qed (use cur dws lp in \<open>simp_all only: woken_frame\<close>)
  then show ?thesis
    using h sched_enter_entered [OF cur(2)]
    by (cases "sched_pick A s") (simp_all add: scheduler_def chosen_def split: prod.splits)
qed

text \<open>What the first ready task of the order means for priorities.\<close>

lemma find_rounds:
  assumes "sorted_wrt (>) ls" and "find (is_ready s) (concat (map (round_at n s c) ls)) = Some (i, l)"
    and "q \<in> set ls" "l < q" "j \<in> set (ring_round n s c)"
  shows "\<not> ready s q j"
  using assms(1-4)
proof (induction ls)
  case (Cons a ls)
  have sp: "find (is_ready s) (round_at n s c a) = Some (i, l) \<or>
      find (is_ready s) (round_at n s c a) = None \<and>
      find (is_ready s) (concat (map (round_at n s c) ls)) = Some (i, l)"
    using Cons.prems(2) by (auto simp: find_append_case split: option.splits)
  show ?case
  proof (cases "find (is_ready s) (round_at n s c a)")
    case None
    then have "\<not> ready s a j" using assms(5) by (auto simp: find_None_iff round_at_def is_ready_def)
    with None sp Cons show ?thesis by auto
  next
    case (Some x)
    with sp have "(i, l) \<in> set (round_at n s c a)" by (auto simp: find_Some_iff)
    then have "l = a" by (auto simp: round_at_def)
    with Cons.prems show ?thesis by auto
  qed
qed simp

end
