(* ===== verification/SchedSafe.thy ===== *)
theory SchedSafe
  imports SchedInv
begin

text \<open>
  What the choice of the scheduler guarantees: the chosen task was ready, no ready task of
  a higher level was passed over (but for the task that ran before, when it is at the
  highest level), a task is always found when the base task is ready, and the
  invariants are kept.
\<close>

section \<open>The chosen task\<close>

lemma lower_levels_sorted:
  assumes "incr_upto (unat (lstash_ptr s)) (level_stash s)" and "0 < unat (lstash_ptr s)"
  shows "sorted_wrt (>) (lower_levels s (lstash_ptr s - 1))"
proof -
  have u: "unat (lstash_ptr s - 1) = unat (lstash_ptr s) - 1" using assms(2) by (rule unat_pred_u8)
  have "sorted_wrt (\<lambda>x y. y < x) (rev (map (level_stash s) [0..<unat (lstash_ptr s) - 1]))"
    unfolding sorted_wrt_rev using assms(1) by (auto simp: sorted_wrt_iff_nth_less incr_upto_def)
  then show ?thesis by (simp add: lower_levels_def u rev_map)
qed

lemma lower_levels_set:
  assumes "0 < unat (lstash_ptr s)"
  shows "set (levels (level_stash s) (lstash_ptr s)) =
    insert (level_stash s (unat (lstash_ptr s) - 1)) (set (lower_levels s (lstash_ptr s - 1)))"
proof -
  obtain k where k: "unat (lstash_ptr s) = Suc k" using assms by (metis gr0_implies_Suc)
  moreover have "unat (lstash_ptr s - 1) = k" using unat_pred_u8 [OF assms] k by simp
  ultimately show ?thesis by (simp add: levels_def lower_levels_def)
qed

lemma round_at_mem: "(i, l) \<in> set (round_at n s c l') \<longleftrightarrow> l = l' \<and> i \<in> set (ring_round n s c)"
  by (auto simp: round_at_def)

lemma in_set_tl: "x \<in> set (tl xs) \<Longrightarrow> x \<in> set xs"
  by (cases xs) auto

lemma pick_in_order:
  assumes "find (is_ready s) (sched_order n s c) = Some (i, l)"
  shows "ready s l i" and "i \<in> set (ring_round n s c)"
proof -
  have "(i, l) \<in> set (sched_order n s c)" "is_ready s (i, l)"
    using assms by (auto simp: find_Some_iff)
  then show "ready s l i" "i \<in> set (ring_round n s c)"
    by (auto simp: is_ready_def sched_order_def round_at_mem dest!: in_set_tl)
qed

lemma tl_round_at:
  assumes "ring_ok n (live s) (jmp_list s)" "c < n" "live s c"
  shows "(i, l) \<in> set (tl (round_at n s c l)) \<longleftrightarrow> i < n \<and> live s i \<and> i \<noteq> c"
proof -
  obtain xs where xs: "ring_round n s c = c # xs"
    using ring_round_walk(2,3) [OF assms] by (metis list.collapse)
  have "set (ring_round n s c) = {j. j < n \<and> live s j}" "distinct (ring_round n s c)"
    using ring_round_set [OF assms] by auto
  then have "i \<in> set xs \<longleftrightarrow> i < n \<and> live s i \<and> i \<noteq> c" unfolding xs by auto
  then show ?thesis by (auto simp: round_at_def xs)
qed

text \<open>No ready task above the chosen level, except the current one at the highest level.\<close>

lemma pick_highest:
  assumes ring: "ring_ok n (live s) (jmp_list s)" and c: "c < n" "live s c"
    and st: "stash_ok n s" and mx: "max_ok n s"
    and pick: "find (is_ready s) (sched_order n s c) = Some (i, l)"
    and j: "j < n" "live s j" "state s j = TASK_STATE_SLEEP" "l < priority_cur s j"
  shows "j = c \<and> priority_cur s j = max_level s"
proof (rule ccontr)
  assume no: "\<not> (j = c \<and> priority_cur s j = max_level s)"
  let ?q = "priority_cur s j" and ?low = "lower_levels s (lstash_ptr s - 1)"
  let ?first = "tl (round_at n s c (max_level s))" and ?rest = "concat (map (round_at n s c) ?low)"
  have p0: "0 < unat (lstash_ptr s)" and inc: "incr_upto (unat (lstash_ptr s)) (level_stash s)"
    using st by (auto simp: stash_ok_def)
  have qle: "?q \<le> max_level s" using mx j by (auto simp: max_ok_def)
  have jr: "j \<in> set (ring_round n s c)" using ring_round_set(1) [OF ring c] j by auto
  have fn: "find (is_ready s) ?first = None"
  proof (cases "find (is_ready s) ?first")
    case (Some x)
    then have "x = (i, l)" using pick by (simp add: sched_order_def find_append_case)
    with Some have "(i, l) \<in> set ?first" by (auto simp: find_Some_iff)
    then have "l = max_level s" by (auto simp: round_at_def dest: in_set_tl)
    with j(4) qle show ?thesis by simp
  qed
  with pick have rest: "find (is_ready s) ?rest = Some (i, l)"
    by (simp add: sched_order_def find_append_case)
  have top: "?q \<noteq> max_level s"
  proof
    assume q: "?q = max_level s"
    with no have "j \<noteq> c" by simp
    then have "(j, ?q) \<in> set ?first" unfolding q using tl_round_at [OF ring c] j by simp
    with fn j(3) show False by (auto simp: find_None_iff is_ready_def ready_def)
  qed
  obtain k where k: "k < n" "live s k" "priority_cur s k = max_level s" using mx by (auto simp: max_ok_def)
  have in_l: "?q \<in> set (levels (level_stash s) (lstash_ptr s))"
    "max_level s \<in> set (levels (level_stash s) (lstash_ptr s))"
    using st j k by (auto simp: stash_ok_def)
  have "?q \<in> set ?low"
  proof (rule ccontr)
    assume "?q \<notin> set ?low"
    then have "?q = level_stash s (unat (lstash_ptr s) - 1)" using in_l lower_levels_set [OF p0] by auto
    moreover have "max_level s \<le> level_stash s (unat (lstash_ptr s) - 1)"
    proof -
      obtain m where m: "m < unat (lstash_ptr s)" "max_level s = level_stash s m"
        using in_l(2) by (auto simp: levels_def)
      have "m = unat (lstash_ptr s) - 1 \<or> m < unat (lstash_ptr s) - 1" using m(1) by linarith
      then show ?thesis
      proof
        assume "m < unat (lstash_ptr s) - 1"
        then have "level_stash s m < level_stash s (unat (lstash_ptr s) - 1)"
          using inc p0 by (simp add: incr_upto_def)
        with m show ?thesis by simp
      qed (use m in simp)
    qed
    ultimately show False using top qle by simp
  qed
  from find_rounds [OF lower_levels_sorted [OF inc p0] rest this j(4) jr] j(3)
  show False by (simp add: ready_def)
qed

section \<open>A task is always found\<close>

lemma pick_exists:
  assumes ring: "ring_ok n (live s) (jmp_list s)" and c: "c < n" "live s c" and st: "stash_ok n s"
    and base: "state s 0 = TASK_STATE_SLEEP" "priority_cur s 0 = 0"
    and other: "1 < unat (lstash_ptr s) \<or> c \<noteq> 0 \<and> max_level s = 0"
  shows "\<exists>i l. find (is_ready s) (sched_order n s c) = Some (i, l)"
proof -
  have b: "live s 0" "0 < n" using ring_ok_base [OF ring] by auto
  have rdy: "is_ready s (0, 0)" using base by (simp add: is_ready_def ready_def)
  have "(0, 0) \<in> set (sched_order n s c)"
  proof (cases "1 < unat (lstash_ptr s)")
    case True
    then have "unat (lstash_ptr s - 1) = unat (lstash_ptr s) - 1" by (intro unat_pred_u8) simp
    with True have "level_stash s 0 \<in> set (lower_levels s (lstash_ptr s - 1))"
      by (auto simp: lower_levels_def)
    then have "(0 :: u8) \<in> set (lower_levels s (lstash_ptr s - 1))" using st by (simp add: stash_ok_def)
    moreover have "(0, 0) \<in> set (round_at n s c 0)"
      using ring_round_set(1) [OF ring c] b by (simp add: round_at_mem)
    ultimately show ?thesis by (auto simp: sched_order_def)
  next
    case False
    with other tl_round_at [OF ring c, of 0 0] b show ?thesis by (auto simp: sched_order_def)
  qed
  with rdy have "find (is_ready s) (sched_order n s c) \<noteq> None" by (auto simp: find_None_iff)
  then show ?thesis by auto
qed

section \<open>The scheduler keeps the invariants\<close>

text \<open>
  \<open>sched_pre\<close>: a state in which the scheduler may be entered; at most the current task is
  active, and not when it has given up the processor itself. \<open>run_ok\<close>: a state in which
  a task runs; the current one, and it alone, is active.
\<close>

definition sched_pre :: "nat \<Rightarrow> kstate \<Rightarrow> bool" where
  "sched_pre n s \<longleftrightarrow> kernel_ok n s \<and> next_task s = current_task s \<and> unat (current_task s) < n \<and>
     live s (unat (current_task s)) \<and> enable_dws s \<and>
     (\<forall>i < n. state s i = TASK_STATE_ACTIVE \<longrightarrow> i = unat (current_task s)) \<and>
     (\<not> normal_schedule s \<longrightarrow> state s (unat (current_task s)) \<noteq> TASK_STATE_ACTIVE)"

definition run_ok :: "nat \<Rightarrow> kstate \<Rightarrow> bool" where
  "run_ok n s \<longleftrightarrow> kernel_ok n s \<and> next_task s = current_task s \<and> unat (current_task s) < n \<and>
     enable_dws s \<and> normal_schedule s \<and>
     (\<forall>i < n. state s i = TASK_STATE_ACTIVE \<longleftrightarrow> i = unat (current_task s))"

lemma run_ok_sched_pre: "run_ok n s \<Longrightarrow> sched_pre n s"
  by (auto simp: run_ok_def sched_pre_def live_def)

lemma sched_leave_frame:
  "state (sched_leave A l s) = (state s)(unat (next_task s) := TASK_STATE_ACTIVE)"
  "jmp_list (sched_leave A l s) = jmp_list s" "next_task (sched_leave A l s) = next_task s"
  "current_task (sched_leave A l s) = current_task s" "enable_dws (sched_leave A l s) = enable_dws s"
  "priority_cur (sched_leave A l s) = priority_cur s" "max_level (sched_leave A l s) = max_level s"
  "level_stash (sched_leave A l s) = level_stash s" "lstash_ptr (sched_leave A l s) = lstash_ptr s"
  "task_obj (sched_leave A l s) = task_obj s" "task_id (sched_leave A l s) = task_id s"
  "task_count (sched_leave A l s) = task_count s"
  "normal_schedule (sched_leave A l s) = normal_schedule s"
  "permissions (sched_leave A l s) = permissions s"
  by (simp_all add: sched_leave_def Let_def)

lemma fold_hib_normal: "normal_schedule (fold hib_check xs s) = normal_schedule s"
  by (induction xs arbitrary: s) (simp_all add: hib_check_due hib_wake_def Let_def)

lemma woken_normal: "normal_schedule (woken A s)"
  by (simp add: woken_def fold_hib_normal entered_def Let_def)

text \<open>The invariants do not depend on which of the states other than idle a task has.\<close>

lemma kinv_cong:
  assumes "kinv n s" and "\<And>i. i < n \<Longrightarrow> live s' i = live s i"
    and "jmp_list s' = jmp_list s" "task_obj s' = task_obj s" "task_id s' = task_id s"
    "task_count s' = task_count s"
  shows "kinv n s'"
proof -
  have b: "0 < n" using assms(1) by (auto simp: kinv_def ring_ok_def)
  have "is_succ (live s') n i k = is_succ (live s) n i k" if "i < n" "k < n" for i k
    using assms(2) that unfolding is_succ_def by (meson less_trans)
  then have "ring_ok n (live s') (jmp_list s')"
    using assms(1,2) b is_succ_less unfolding kinv_def ring_ok_def assms(3) by metis
  moreover have "table_ok n s'" using assms(1,2) by (auto simp: kinv_def table_ok_def assms(3-))
  moreover have "filter (live s') [0..<n] = filter (live s) [0..<n]"
    using assms(2) by (intro filter_cong) auto
  ultimately show ?thesis using assms(1) by (simp add: kinv_def assms(3-))
qed

lemma kernel_ok_cong:
  assumes "kernel_ok n s" and "\<And>i. i < n \<Longrightarrow> live s' i = live s i"
    and "jmp_list s' = jmp_list s" "task_obj s' = task_obj s" "task_id s' = task_id s"
    "task_count s' = task_count s" "priority_cur s' = priority_cur s" "max_level s' = max_level s"
    "level_stash s' = level_stash s" "lstash_ptr s' = lstash_ptr s"
  shows "kernel_ok n s'"
proof -
  have "kinv n s'" by (rule kinv_cong [OF _ assms(2-6)]) (use assms(1) in \<open>simp_all add: kernel_ok_def\<close>)
  moreover have "max_ok n s'" "stash_ok n s'"
    using assms(1,2) by (auto simp: kernel_ok_def max_ok_def stash_ok_def assms(3-))
  ultimately show ?thesis by (simp add: kernel_ok_def)
qed

lemma sched_preD:
  assumes "sched_pre (MAX_TASK_COUNT A) s"
  shows "ring_ok (MAX_TASK_COUNT A) (live s) (jmp_list s)" "next_task s = current_task s"
    "unat (current_task s) < MAX_TASK_COUNT A" "live s (unat (current_task s))" "enable_dws s"
    "0 < unat (lstash_ptr s)" "unat (lstash_ptr s) \<le> MAX_TASK_COUNT A"
  using assms by (auto simp: sched_pre_def kernel_ok_def kinv_def stash_ok_def)

lemma woken_kernel_ok:
  assumes "sched_pre (MAX_TASK_COUNT A) s"
  shows "kernel_ok (MAX_TASK_COUNT A) (woken A s)" and "live (woken A s) = live s"
proof -
  show lv: "live (woken A s) = live s"
    using entered_live [OF sched_preD(4) [OF assms]] by (simp add: woken_frame)
  show "kernel_ok (MAX_TASK_COUNT A) (woken A s)"
    by (rule kernel_ok_cong [of _ s]) (use assms lv in \<open>simp_all add: sched_pre_def woken_frame\<close>)
qed

lemma woken_state:
  assumes "sched_pre (MAX_TASK_COUNT A) s"
  shows "state (woken A s) i = (if i < MAX_TASK_COUNT A \<and> live s i \<and> due (entered A s) i
    then TASK_STATE_SLEEP else state (entered A s) i)"
proof -
  note p = sched_preD [OF assms]
  have lv: "live (entered A s) = live s" using p(4) by (rule entered_live)
  have "ring_ok (MAX_TASK_COUNT A) (live (entered A s)) (jmp_list (entered A s))"
    using p(1) by (simp only: lv entered_frame)
  note rr = ring_round_set [OF this, unfolded lv, OF p(3,4)]
  show ?thesis
    unfolding woken_def p(2) using fold_hib_state [OF rr(2)] rr(1) by simp
qed

lemma leave_result:
  assumes w: "kernel_ok n w" "enable_dws w" "normal_schedule w" "\<And>j. j < n \<Longrightarrow> state w j \<noteq> TASK_STATE_ACTIVE"
    and i: "i < n" "live w i"
    and s': "s' = context_switch psp (sched_leave A l (w\<lparr>next_task := of_nat i\<rparr>))"
  shows "current_task s' = of_nat i" "next_task s' = of_nat i" "state s' = (state w)(i := TASK_STATE_ACTIVE)"
    "priority_cur s' = priority_cur w" "self_kill s' = self_kill w" "run_ok n s'"
proof -
  have "n \<le> 120" using w(1) by (auto simp: kernel_ok_def kinv_def dest: ring_ok_bound)
  then have ui: "unat (of_nat i :: u32) = i" using i(1) by (intro unat_of_nat_u32) simp
  show st: "state s' = (state w)(i := TASK_STATE_ACTIVE)"
    by (simp add: s' context_switch_def Let_def sched_leave_frame ui)
  show nt: "current_task s' = of_nat i" "next_task s' = of_nat i"
    by (simp_all add: s' context_switch_def Let_def sched_leave_frame)
  have lv: "live s' = live w" using i(2) by (auto simp: live_def st fun_eq_iff)
  have "kernel_ok n s'"
    by (rule kernel_ok_cong [OF w(1)])
      (simp_all add: lv, simp_all add: s' context_switch_def Let_def sched_leave_frame)
  moreover have "enable_dws s'" "normal_schedule s'"
    using w(2,3) by (simp_all add: s' context_switch_def Let_def sched_leave_frame)
  ultimately show "run_ok n s'" using i(1) w(4) by (auto simp: run_ok_def nt ui st)
  show "priority_cur s' = priority_cur w" "self_kill s' = self_kill w"
    by (simp_all add: s' context_switch_def sched_leave_def Let_def)
qed

lemma tick_result:
  assumes pre: "sched_pre (MAX_TASK_COUNT A) s" and tick: "kernel_tick A psp s = Some s'"
  obtains i l where "sched_pick A s = Some (i, l)" "i < MAX_TASK_COUNT A" "live s i"
    "ready (woken A s) l i" "current_task s' = of_nat i" "next_task s' = of_nat i"
    "state s' = (state (woken A s))(i := TASK_STATE_ACTIVE)" "run_ok (MAX_TASK_COUNT A) s'"
proof -
  let ?n = "MAX_TASK_COUNT A" and ?w = "woken A s"
  note p = sched_preD [OF pre]
  note wk = woken_kernel_ok [OF pre]
  obtain i l where pk: "sched_pick A s = Some (i, l)"
    and s': "s' = context_switch psp (sched_leave A l (?w\<lparr>next_task := of_nat i\<rparr>))"
    using tick scheduler_pick [OF p] by (auto simp: kernel_tick_def)
  have rw: "ring_ok ?n (live ?w) (jmp_list ?w)" using wk(1) by (simp add: kernel_ok_def kinv_def)
  have cw: "live ?w (unat (current_task s))" using p(4) wk(2) by simp
  have ready: "ready ?w l i" and mem: "i \<in> set (ring_round ?n ?w (unat (current_task s)))"
    using pick_in_order pk unfolding sched_pick_def by blast+
  have i: "i < ?n" "live s i"
    using mem ring_round_set(1) [OF rw p(3) cw] wk(2) by auto
  have act: "state ?w j \<noteq> TASK_STATE_ACTIVE" if "j < ?n" for j
    using pre that woken_state [OF pre, of j] by (auto simp: sched_pre_def entered_state)
  have iw: "live ?w i" using i(2) by (simp only: wk(2))
  have dws: "enable_dws ?w" using p(5) by (simp add: woken_frame)
  note r = leave_result [OF wk(1) dws woken_normal act i(1) iw s']
  show thesis by (rule that [OF pk i ready r(1-3) r(6)])
qed

text \<open>A ready base task and a level above it are enough for the scheduler to return.\<close>

lemma tick_exists:
  assumes pre: "sched_pre (MAX_TASK_COUNT A) s" and base: "priority_cur s 0 = 0"
    and rdy: "state s 0 = TASK_STATE_SLEEP \<or> current_task s = 0 \<and> normal_schedule s"
    and lv: "1 < unat (lstash_ptr s)"
  shows "\<exists>s'. kernel_tick A psp s = Some s'"
proof -
  note p = sched_preD [OF pre]
  note wk = woken_kernel_ok [OF pre]
  have k: "ring_ok (MAX_TASK_COUNT A) (live (woken A s)) (jmp_list (woken A s))"
    "stash_ok (MAX_TASK_COUNT A) (woken A s)"
    using wk(1) by (auto simp: kernel_ok_def kinv_def)
  have b: "state (woken A s) 0 = TASK_STATE_SLEEP"
    using woken_state [OF pre, of 0] rdy by (auto simp: entered_state)
  have lw: "live (woken A s) (unat (current_task s))" using p(4) by (simp only: wk(2))
  have "\<exists>i l. sched_pick A s = Some (i, l)"
    unfolding sched_pick_def
    by (rule pick_exists [OF k(1) p(3) lw k(2) b]) (use base lv in \<open>simp_all add: woken_frame\<close>)
  then show ?thesis using scheduler_pick [OF p] by (auto simp: kernel_tick_def)
qed

end
