(* ===== verification/KernelSvc.thy ===== *)
theory KernelSvc
  imports Scheduler
begin

text \<open>
  The services of \<^verbatim>\<open>src/kernel.c\<close> (hand-over, start of the scheduler, CPU frequency,
  register access, device reset), of \<^verbatim>\<open>src/service/svr_permissions.c\<close> (the base
  task's services) and of \<^verbatim>\<open>src/service/svr_interrupts.c\<close>.
\<close>

section \<open>kernel.c\<close>

definition svc_service_hand_over :: svc_service where
  "svc_service_hand_over A svc_num arguments s = do {
     s1 \<leftarrow> (if \<not> self_kill s
            then do {
              chk (unat (current_task s) < MAX_TASK_COUNT A);
              Some (s\<lparr>state := (state s)(unat (current_task s) := TASK_STATE_SLEEP)\<rparr>)
            }
            else Some (s\<lparr>self_kill := False\<rparr>));
     s2 \<leftarrow> TRIGGER_SCHEDULER A (s1\<lparr>normal_schedule := False\<rparr>);
     Some (ERROR_NONE, svc_num, arguments, s2)
   }"

definition svc_service_start_scheduler :: svc_service where
  "svc_service_start_scheduler A svc_num arguments s = do {
     chk (0 < MAX_TASK_COUNT A);
     let s1 = s\<lparr>maxp_level := 127, permissions := (permissions s)(0 := 0xFFFF)\<rparr>;
     let s2 = s1\<lparr>permissions := fold (\<lambda>i perms. perms(i := 0)) [1..<MAX_TASK_COUNT A] (permissions s1)\<rparr>;
     let s3 = btask_psp_correction A s2;
     Some (ERROR_NONE, HAND_OVER, arguments, s3\<lparr>first_start := True, self_kill := False\<rparr>)
   }"

definition svc_service_cpu_freq_update :: svc_service where
  "svc_service_cpu_freq_update A svc_num arguments s =
     (let (e, s1) = os_timer_config A (arguments 0) s in Some (e, svc_num, arguments, s1))"

text \<open>
  The permission test of every guarded service:
  \<^verbatim>\<open>(permissions[current_task] & (1 << b)) != (1 << b)\<close> refuses.
\<close>

definition permitted :: "nat \<Rightarrow> nat \<Rightarrow> kstate \<Rightarrow> bool option" where
  "permitted n b s = do {
     chk (unat (current_task s) < n);
     Some (permissions s (unat (current_task s)) AND push_bit b 1 = push_bit b 1)
   }"

definition svc_service_hwreg_write :: svc_service where
  "svc_service_hwreg_write A svc_num arguments s = do {
     ok \<leftarrow> permitted (MAX_TASK_COUNT A) PERMISSION_HWREG s;
     (if \<not> ok then Some (ERROR_INSUFFICIENT_PERMISSION, svc_num, arguments, s)
      else Some (ERROR_NONE, svc_num, arguments,
                 on_mcu (hwreg_store (arguments 0) (arguments 1)) s))
   }"

definition svc_service_hwreg_read :: svc_service where
  "svc_service_hwreg_read A svc_num arguments s = do {
     ok \<leftarrow> permitted (MAX_TASK_COUNT A) PERMISSION_HWREG s;
     (if \<not> ok then Some (ERROR_INSUFFICIENT_PERMISSION, svc_num, arguments, s)
      else Some (ERROR_NONE, svc_num, arguments,
                 on_mcu (mem_store (arguments 1) (HWREG (arguments 0) (mcu s))) s))
   }"

definition svc_service_device_reset :: svc_service where
  "svc_service_device_reset A svc_num arguments s = do {
     s1 \<leftarrow> spin_forever (on_mcu (TRIGGER_DEVICE_RESET A) s);
     Some (ERROR_NONE, svc_num, arguments, s1)
   }"

section \<open>svr_permissions.c\<close>

definition svc_service_invoke_base :: svc_service where
  "svc_service_invoke_base A svc_num arguments s =
     (if current_task s = 0 then Some (ERROR_BASE_PROCESS, svc_num, arguments, s)
      else do {
        chk (unat (current_task s) < MAX_TASK_COUNT A);
        Some (ERROR_NONE, PRIORITY_PROMOTE, arguments(0 := base_mutex_addr A),
              s\<lparr>invocated_task := task_id s (unat (current_task s)),
                invocated_args := arguments 0\<rparr>)
      })"

definition svc_service_release_base :: svc_service where
  "svc_service_release_base A svc_num arguments s =
     (if current_task s \<noteq> 0 then Some (ERROR_INSUFFICIENT_PERMISSION, svc_num, arguments, s)
      else
        (let i = first_idx (\<lambda>i. task_id s i = invocated_task s) (MAX_TASK_COUNT A) in
         if i = MAX_TASK_COUNT A then Some (ERROR_UNKNOWN_PROCESS_ID, svc_num, arguments, s)
         else Some (ERROR_NONE, PRIORITY_DEMOTE, arguments,
                    s\<lparr>hib_value := (hib_value s)(i := arguments 0),
                      invocated_task := 0, invocated_args := 0\<rparr>)))"

definition svc_service_grant_permission :: svc_service where
  "svc_service_grant_permission A svc_num arguments s =
     (if current_task s \<noteq> 0 then Some (ERROR_INSUFFICIENT_PERMISSION, svc_num, arguments, s)
      else
        (let i = first_idx (\<lambda>i. task_id s i = arguments 0) (MAX_TASK_COUNT A) in
         if i = MAX_TASK_COUNT A then Some (ERROR_UNKNOWN_PROCESS_ID, svc_num, arguments, s)
         else Some (ERROR_NONE, svc_num, arguments,
                    s\<lparr>permissions := (permissions s)(i := ucast (arguments 1))\<rparr>)))"

section \<open>svr_interrupts.c\<close>

definition svc_service_int_enable :: svc_service where
  "svc_service_int_enable A svc_num arguments s = do {
     ok \<leftarrow> permitted (MAX_TASK_COUNT A) PERMISSION_INTCTRL s;
     (if \<not> ok then Some (ERROR_INSUFFICIENT_PERMISSION, svc_num, arguments, s)
      else do {
        (e, m) \<leftarrow> arch_interrupt_enable A (arguments 0) (mcu s);
        Some (e, svc_num, arguments, s\<lparr>mcu := m\<rparr>)
      })
   }"

definition svc_service_int_disable :: svc_service where
  "svc_service_int_disable A svc_num arguments s = do {
     ok \<leftarrow> permitted (MAX_TASK_COUNT A) PERMISSION_INTCTRL s;
     (if \<not> ok then Some (ERROR_INSUFFICIENT_PERMISSION, svc_num, arguments, s)
      else do {
        (e, m) \<leftarrow> arch_interrupt_disable A (arguments 0) (mcu s);
        Some (e, svc_num, arguments, s\<lparr>mcu := m\<rparr>)
      })
   }"

definition svc_service_int_set_priority :: svc_service where
  "svc_service_int_set_priority A svc_num arguments s = do {
     ok \<leftarrow> permitted (MAX_TASK_COUNT A) PERMISSION_INTCTRL s;
     (if \<not> ok then Some (ERROR_INSUFFICIENT_PERMISSION, svc_num, arguments, s)
      else do {
        (e, m) \<leftarrow> arch_interrupt_priority A (ucast (arguments 0)) (ucast (arguments 1)) (mcu s);
        Some (e, svc_num, arguments, s\<lparr>mcu := m\<rparr>)
      })
   }"

definition svc_service_int_register :: svc_service where
  "svc_service_int_register A svc_num arguments s = do {
     ok \<leftarrow> permitted (MAX_TASK_COUNT A) PERMISSION_INTCTRL s;
     (if \<not> ok then Some (ERROR_INSUFFICIENT_PERMISSION, svc_num, arguments, s)
      else do {
        (e, m) \<leftarrow> arch_interrupt_register A (arguments 0) (arguments 1) (mcu s);
        Some (e, svc_num, arguments, s\<lparr>mcu := m\<rparr>)
      })
   }"

end
