(* ===== verification/ArmPort.thy ===== *)
theory ArmPort
  imports KernelSvc
begin

text \<open>
  The port to ARM Cortex M3/M4 (\<^verbatim>\<open>src/arch/arm-m3m4\<close>): the scheduler macros of
  \<^verbatim>\<open>os_support.h\<close>, the tick timer of \<^verbatim>\<open>os_timer.c\<close>, the first frame of
  a task and the fault handlers of \<^verbatim>\<open>os_util.c\<close>, the interrupt controller of
  \<^verbatim>\<open>arch_interrupt.c\<close>, and the PendSV handler of \<^verbatim>\<open>pendsv_handler.S\<close>.
\<close>

section \<open>Registers (regmap.h)\<close>

abbreviation (input) STCTRL :: u32 where "STCTRL \<equiv> 0xE000E010"
abbreviation (input) STRELOAD :: u32 where "STRELOAD \<equiv> 0xE000E014"
abbreviation (input) STCURRENT :: u32 where "STCURRENT \<equiv> 0xE000E018"
abbreviation (input) INTCTRL :: u32 where "INTCTRL \<equiv> 0xE000ED04"
abbreviation (input) VTABLE :: u32 where "VTABLE \<equiv> 0xE000ED08"
abbreviation (input) APINT :: u32 where "APINT \<equiv> 0xE000ED0C"
abbreviation (input) SYSPRI2 :: u32 where "SYSPRI2 \<equiv> 0xE000ED1C"
abbreviation (input) SYSPRI3 :: u32 where "SYSPRI3 \<equiv> 0xE000ED20"
abbreviation (input) SYSHNDCTRL :: u32 where "SYSHNDCTRL \<equiv> 0xE000ED24"
abbreviation (input) ACTLR :: u32 where "ACTLR \<equiv> 0xE000E008"
abbreviation (input) MPUTYPE :: u32 where "MPUTYPE \<equiv> 0xE000ED90"
abbreviation (input) MPUCTRL :: u32 where "MPUCTRL \<equiv> 0xE000ED94"
abbreviation (input) MPURNR :: u32 where "MPURNR \<equiv> 0xE000ED98"
abbreviation (input) MPURBAR :: u32 where "MPURBAR \<equiv> 0xE000ED9C"
abbreviation (input) MPURASR :: u32 where "MPURASR \<equiv> 0xE000EDA0"
abbreviation (input) SYSTICK_SYS_CLK :: u32 where "SYSTICK_SYS_CLK \<equiv> 0x00000004"
abbreviation (input) SYSTICK_INT_ENABLE :: u32 where "SYSTICK_INT_ENABLE \<equiv> 0x00000002"
abbreviation (input) SYSTICK_ENABLE :: u32 where "SYSTICK_ENABLE \<equiv> 0x00000001"
abbreviation (input) SYSTICK_DISABLE :: u32 where "SYSTICK_DISABLE \<equiv> 0xFFFFFFFE"
abbreviation (input) SYSTICK_INT_DISABLE :: u32 where "SYSTICK_INT_DISABLE \<equiv> 0xFFFFFFFD"
abbreviation (input) SYSTICK_RELOAD_MASK :: u32 where "SYSTICK_RELOAD_MASK \<equiv> 0x00FFFFFF"
abbreviation (input) APINT_VECKEY :: u32 where "APINT_VECKEY \<equiv> 0x05FA0000"
abbreviation (input) PRIORITY_WRITE_MASK :: u32 where "PRIORITY_WRITE_MASK \<equiv> 0x000000E0"
abbreviation (input) ACTLR_DISWBUF :: u32 where "ACTLR_DISWBUF \<equiv> 0x00000002"
abbreviation (input) APINT_SYSRESETREQ :: u32 where "APINT_SYSRESETREQ \<equiv> 0x00000004"
abbreviation (input) NVIC_SYS_HND_CTRL_MEM :: u32 where "NVIC_SYS_HND_CTRL_MEM \<equiv> 0x00010000"
abbreviation (input) NVIC_SYS_HND_CTRL_BUS :: u32 where "NVIC_SYS_HND_CTRL_BUS \<equiv> 0x00020000"
abbreviation (input) PRIGROUP_8_1 :: u32 where "PRIGROUP_8_1 \<equiv> 0x00000400"
abbreviation (input) INT_NUM_SYSTICK :: u32 where "INT_NUM_SYSTICK \<equiv> 15"
abbreviation (input) INT_NUM_SVC :: u32 where "INT_NUM_SVC \<equiv> 11"
abbreviation (input) INT_NUM_PENDSV :: u32 where "INT_NUM_PENDSV \<equiv> 14"
abbreviation (input) INT_NUM_MEMFAULT :: u32 where "INT_NUM_MEMFAULT \<equiv> 4"
abbreviation (input) INT_NUM_BUSFAULT :: u32 where "INT_NUM_BUSFAULT \<equiv> 5"
abbreviation (input) NVIC_DIS0 :: u32 where "NVIC_DIS0 \<equiv> 0xE000E180"
abbreviation (input) NVIC_DIS1 :: u32 where "NVIC_DIS1 \<equiv> 0xE000E184"
abbreviation (input) NVIC_DIS2 :: u32 where "NVIC_DIS2 \<equiv> 0xE000E188"
abbreviation (input) NVIC_DIS3 :: u32 where "NVIC_DIS3 \<equiv> 0xE000E18C"
abbreviation (input) NVIC_EN0 :: u32 where "NVIC_EN0 \<equiv> 0xE000E100"
abbreviation (input) NVIC_EN1 :: u32 where "NVIC_EN1 \<equiv> 0xE000E104"
abbreviation (input) NVIC_EN2 :: u32 where "NVIC_EN2 \<equiv> 0xE000E108"
abbreviation (input) NVIC_EN3 :: u32 where "NVIC_EN3 \<equiv> 0xE000E10C"
abbreviation (input) INTCTRL_PENDSTSET :: nat where "INTCTRL_PENDSTSET \<equiv> 26"
abbreviation (input) ICSR :: u32 where "ICSR \<equiv> INTCTRL"

text \<open>\<open>NVIC_PRI0\<close> to \<open>NVIC_PRI34\<close>.\<close>

abbreviation (input) NVIC_PRI :: "nat \<Rightarrow> u32" where "NVIC_PRI \<equiv> (\<lambda>i. 0xE000E400 + 4 * of_nat i)"

section \<open>Scheduler macros (os_support.h)\<close>

definition arm_ENABLE_SCHEDULER :: "mcu \<Rightarrow> mcu" where
  "arm_ENABLE_SCHEDULER = hwreg_or STCTRL (SYSTICK_INT_ENABLE OR SYSTICK_ENABLE)"

definition arm_DISABLE_SCHEDULER :: "mcu \<Rightarrow> mcu" where
  "arm_DISABLE_SCHEDULER = hwreg_and STCTRL (SYSTICK_DISABLE AND SYSTICK_INT_DISABLE)"

definition arm_TRIGGER_SCHEDULER :: "mcu \<Rightarrow> mcu" where
  "arm_TRIGGER_SCHEDULER = hwreg_or INTCTRL (push_bit INTCTRL_PENDSTSET 1)"

definition arm_SCHEDULER_TIMER_RESET :: "mcu \<Rightarrow> mcu" where
  "arm_SCHEDULER_TIMER_RESET = hwreg_store STCURRENT 0"

definition arm_TRIGGER_CONTEXT_SWITCH :: "mcu \<Rightarrow> mcu" where
  "arm_TRIGGER_CONTEXT_SWITCH = hwreg_or ICSR 0x10000000"

definition arm_TRIGGER_DEVICE_RESET :: "mcu \<Rightarrow> mcu" where
  "arm_TRIGGER_DEVICE_RESET = hwreg_store APINT (APINT_VECKEY OR APINT_SYSRESETREQ)"

section \<open>Tick timer (os_timer.c)\<close>

definition arm_os_timer_config :: "'z params_scheme \<Rightarrow> u32 \<Rightarrow> kstate \<Rightarrow> u32 \<times> kstate" where
  "arm_os_timer_config P new_cpu_freq s =
     (let systick_load = new_cpu_freq div TASK_PER_SEC P in
      if 16777216 \<le> systick_load then (ERROR_SYSTICK_TICK_VALUE_OVERFLOW, s)
      else
        (let s1 = s\<lparr>cpu_freq := new_cpu_freq\<rparr>;
             s2 = on_mcu (hwreg_store STRELOAD 0) s1;
             s3 = on_mcu (hwreg_store STRELOAD (SYSTICK_RELOAD_MASK AND systick_load)) s2
         in (ERROR_NONE, on_mcu (hwreg_store STCURRENT 0) s3)))"

section \<open>The first frame of a task (os_util.c)\<close>

definition arm_task_stack_init ::
  "'z params_scheme \<Rightarrow> nat \<Rightarrow> u32 \<Rightarrow> u32 \<Rightarrow> kstate \<Rightarrow> kstate" where
  "arm_task_stack_init P task_index ptr_func proc_arg s =
     (let psp = PSP_Array s task_index + of_nat (TASK_STACK_SIZE P - 1) * 4 - 18 * 4;
          s1 = s\<lparr>PSP_Array := (PSP_Array s)(task_index := psp)\<rparr>
      in on_mcu (mem_store (psp + 4 * 17) 0x01000000 \<circ>
                 mem_store (psp + 4 * 16) ptr_func \<circ>
                 mem_store (psp + 4 * 15) (resolve_end_addr P) \<circ>
                 mem_store (psp + 4 * 10) proc_arg \<circ>
                 mem_store (psp + 4 * 1) 0x3 \<circ>
                 mem_store (psp + 4 * 0) 0xFFFFFFFD) s1)"

text \<open>\<open>btask_psp_correction\<close> of \<^verbatim>\<open>os_util.S\<close>.\<close>

definition arm_btask_psp_correction :: "kstate \<Rightarrow> kstate" where
  "arm_btask_psp_correction s = on_mcu (\<lambda>m. m\<lparr>psp_reg := PSP_Array s 0 + 40\<rparr>) s"

text \<open>The fault handlers never return.\<close>

definition mem_fault_handler :: "kstate \<Rightarrow> kstate option" where
  "mem_fault_handler s = spin_forever s"

definition bus_fault_handler :: "kstate \<Rightarrow> kstate option" where
  "bus_fault_handler s = spin_forever s"

section \<open>Interrupt controller (arch_interrupt.c)\<close>

definition prioreg :: "u32 list" where
  "prioreg = map NVIC_PRI [0..<35]"

definition g_pui32Dii16Regs :: "u32 list" where
  "g_pui32Dii16Regs = [NVIC_DIS0, NVIC_DIS1, NVIC_DIS2, NVIC_DIS3]"

definition g_pui32EnRegs :: "u32 list" where
  "g_pui32EnRegs = [NVIC_EN0, NVIC_EN1, NVIC_EN2, NVIC_EN3]"

definition arm_interrupt_enable :: "u32 \<Rightarrow> mcu \<Rightarrow> (u32 \<times> mcu) option" where
  "arm_interrupt_enable interrupt m =
     (if interrupt < 16 then Some (ERROR_INSUFFICIENT_PERMISSION, m)
      else
        (let i = unat ((interrupt - 16) div 32) in
         do {
           chk (i < length g_pui32EnRegs);
           Some (ERROR_NONE, hwreg_store (g_pui32EnRegs ! i)
                   (push_bit (unat ((interrupt - 16) AND 31)) 1) m)
         }))"

definition arm_interrupt_disable :: "u32 \<Rightarrow> mcu \<Rightarrow> (u32 \<times> mcu) option" where
  "arm_interrupt_disable interrupt m =
     (if interrupt < 16 then Some (ERROR_INSUFFICIENT_PERMISSION, m)
      else
        (let i = unat ((interrupt - 16) div 32) in
         do {
           chk (i < length g_pui32Dii16Regs);
           Some (ERROR_NONE, hwreg_store (g_pui32Dii16Regs ! i)
                   (push_bit (unat ((interrupt - 16) AND 31)) 1) m)
         }))"

definition arm_interrupt_register ::
  "'z params_scheme \<Rightarrow> u32 \<Rightarrow> u32 \<Rightarrow> mcu \<Rightarrow> (u32 \<times> mcu) option" where
  "arm_interrupt_register P interrupt handler m =
     (if interrupt < 16 then Some (ERROR_INSUFFICIENT_PERMISSION, m)
      else Some (ERROR_NONE, hwreg_store (KERNEL_START_ADDRESS P + interrupt * 4) handler m))"

definition arm_interrupt_priority :: "u8 \<Rightarrow> u8 \<Rightarrow> mcu \<Rightarrow> (u32 \<times> mcu) option" where
  "arm_interrupt_priority interrupt priority m =
     (if interrupt < 16 then Some (ERROR_INSUFFICIENT_PERMISSION, m)
      else
        (let k = unat interrupt - 16; i = k div 4 in
         do {
           chk (i < length prioreg);
           Some (ERROR_NONE, hwreg_or (prioreg ! i)
                   (push_bit (8 * (k mod 4)) (PRIORITY_WRITE_MASK AND ucast priority)) m)
         }))"

definition arm_vector_table_relocate :: "'z params_scheme \<Rightarrow> u32 \<Rightarrow> mcu \<Rightarrow> mcu" where
  "arm_vector_table_relocate P vector_ram m =
     (let value = HWREG VTABLE m;
          m1 = fold (\<lambda>index m. mem_store (vector_ram + 4 * of_nat index)
                                 (HWREG (of_nat index * 4 + value) m) m) [0..<NUM_OF_INTERRUPTS P] m
      in hwreg_store VTABLE (KERNEL_START_ADDRESS P) m1)"

section \<open>Context switch (pendsv_handler.S)\<close>

text \<open>
  The registers of the task are pushed on its stack (\<open>frame\<close> bytes: 40, and 64 more with
  the floating point registers), the stack pointer is saved, the next task becomes the current
  one, and its stack region is loaded into the MPU from \<open>mpu_table\<close>.
\<close>

definition pendsv_handler :: "u32 arr \<Rightarrow> u32 \<Rightarrow> u32 \<Rightarrow> kstate \<Rightarrow> kstate" where
  "pendsv_handler mpu_table frame frame' s =
     (let s1 = context_switch (psp_reg (mcu s) - frame) s;
          t = unat (next_task s1)
      in on_mcu ((\<lambda>m. m\<lparr>psp_reg := PSP_Array s1 t + frame'\<rparr>) \<circ>
                 hwreg_store MPUCTRL 5 \<circ>
                 hwreg_store MPURASR (mpu_table (2 * t + 1)) \<circ>
                 hwreg_store MPURBAR (mpu_table (2 * t)) \<circ>
                 hwreg_store MPUCTRL 0) s1)"

section \<open>The port\<close>

definition arm_port :: "params \<Rightarrow> port" where
  "arm_port P = \<lparr>
     MAX_TASK_COUNT = MAX_TASK_COUNT P, TASK_STACK_SIZE = TASK_STACK_SIZE P,
     HEAP_BOOKEEPING_SIZE = HEAP_BOOKEEPING_SIZE P, TASK_PER_SEC = TASK_PER_SEC P,
     NUM_OF_INTERRUPTS = NUM_OF_INTERRUPTS P, KERNEL_START_ADDRESS = KERNEL_START_ADDRESS P,
     proc_heap_addr = proc_heap_addr P, base_task_addr = base_task_addr P,
     BaseTask_addr = BaseTask_addr P, base_mutex_addr = base_mutex_addr P,
     resolve_end_addr = resolve_end_addr P,
     ENABLE_SCHEDULER = arm_ENABLE_SCHEDULER,
     DISABLE_SCHEDULER = arm_DISABLE_SCHEDULER,
     SCHEDULER_TIMER_RESET = arm_SCHEDULER_TIMER_RESET,
     TRIGGER_CONTEXT_SWITCH = arm_TRIGGER_CONTEXT_SWITCH,
     TRIGGER_DEVICE_RESET = arm_TRIGGER_DEVICE_RESET,
     TRIGGER_SCHEDULER = (\<lambda>s. Some (on_mcu arm_TRIGGER_SCHEDULER s)),
     suspend_task = (\<lambda>_ m. m), resume_task = (\<lambda>_ m. m),
     arch_task_stack_init = arm_task_stack_init P,
     btask_psp_correction = arm_btask_psp_correction,
     os_timer_config = arm_os_timer_config P,
     arch_interrupt_enable = arm_interrupt_enable,
     arch_interrupt_disable = arm_interrupt_disable,
     arch_interrupt_register = arm_interrupt_register P,
     arch_interrupt_priority = arm_interrupt_priority\<rparr>"

lemma hwreg_objs [simp]:
  "objs (hwreg_store a v m) = objs m" "objs (hwreg_or a v m) = objs m"
  "objs (hwreg_and a v m) = objs m" "objs (mem_store a v m) = objs m"
  by (simp_all add: hwreg_store_def hwreg_or_def hwreg_and_def mem_store_def)

lemma arm_port_sel [simp]:
  "MAX_TASK_COUNT (arm_port P) = MAX_TASK_COUNT P" "TASK_STACK_SIZE (arm_port P) = TASK_STACK_SIZE P"
  "TRIGGER_SCHEDULER (arm_port P) s = Some (on_mcu arm_TRIGGER_SCHEDULER s)"
  by (simp_all add: arm_port_def)

interpretation arm: kernel_port "arm_port P" for P
  by unfold_locales
    (simp_all add: arm_port_def arm_task_stack_init_def arm_btask_psp_correction_def
      arm_os_timer_config_def arm_ENABLE_SCHEDULER_def arm_DISABLE_SCHEDULER_def
      arm_SCHEDULER_TIMER_RESET_def arm_TRIGGER_CONTEXT_SWITCH_def on_mcu_def Let_def)

end
