(* ===== verification/Demo.thy ===== *)
theory Demo
  imports SchedSafe ArmPort
begin

text \<open>
  A small concrete system, on which the statements of the development are instantiated: a
  build for four tasks on the ARM port, and a state in which the base task runs in slot
  0, a task of priority 5 is ready in slot 1, and slots 2 and 3 are free.
\<close>

definition demo_params :: params where
  "demo_params = \<lparr>MAX_TASK_COUNT = 4, TASK_STACK_SIZE = 128, HEAP_BOOKEEPING_SIZE = 256,
     TASK_PER_SEC = 1000, NUM_OF_INTERRUPTS = 155, KERNEL_START_ADDRESS = 0x20000000,
     proc_heap_addr = 0x20001000, base_task_addr = 0x20000800, BaseTask_addr = 0x1001,
     base_mutex_addr = 0x2000, resolve_end_addr = 0x3001\<rparr>"

definition demo_arm :: port where
  "demo_arm = arm_port demo_params"

definition demo_obj :: "u8 \<Rightarrow> task_t" where
  "demo_obj p = \<lparr>t_error = 0, t_task_id = 0, t_priority = p, t_ptr_func = 0x4001,
     t_hibernate = 0, t_op1 = 0, t_op2 = 0, t_value = 0\<rparr>"

definition demo_mcu :: mcu where
  "demo_mcu = \<lparr>psp_reg = 0, mem = (\<lambda>_. 0), objs = (\<lambda>a. if a = 0x900 then demo_obj 7 else demo_obj 5),
     iolog = []\<rparr>"

definition demo_state :: kstate where
  "demo_state = (kvar_init demo_mcu)\<lparr>
     max_level := 5, maxp_level := 127, alc := 1, task_count := 2, total_task_count := 2,
     lstash_ptr := 2, pstack_addr := 0x20001000,
     task_obj := (\<lambda>_. 0)(0 := 0x20000800, 1 := 0x20000900),
     priority_cur := (\<lambda>_. 0)(1 := 5), level_stash := (\<lambda>_. 0)(1 := 5),
     jmp_list := (\<lambda>_. 0)(0 := 1, 1 := 255),
     state := (\<lambda>_. TASK_STATE_IDLE)(0 := TASK_STATE_ACTIVE, 1 := TASK_STATE_SLEEP),
     task_id := (\<lambda>_. 0)(0 := 1, 1 := 0x10002),
     permissions := (\<lambda>_. 0)(0 := 0xFFFF), first_start := True\<rparr>"

lemma demo_max [simp]: "MAX_TASK_COUNT demo_arm = 4" "TASK_STACK_SIZE demo_arm = 128"
  by (simp_all add: demo_arm_def demo_params_def)

lemma less4: "(i < (4 :: nat)) = (i = 0 \<or> i = 1 \<or> i = 2 \<or> i = 3)"
  by auto

lemma All_less4: "(\<forall>i < (4 :: nat). P i) = (P 0 \<and> P 1 \<and> P 2 \<and> P 3)"
  by (auto simp: less4)

lemma demo_fields:
  "state demo_state = (\<lambda>_. TASK_STATE_IDLE)(0 := TASK_STATE_ACTIVE, 1 := TASK_STATE_SLEEP)"
  "jmp_list demo_state = (\<lambda>_. 0)(0 := 1, 1 := 255)"
  "priority_cur demo_state = (\<lambda>_. 0)(1 := 5)" "level_stash demo_state = (\<lambda>_. 0)(1 := 5)"
  "lstash_ptr demo_state = 2" "max_level demo_state = 5" "current_task demo_state = 0"
  "next_task demo_state = 0" "enable_dws demo_state" "normal_schedule demo_state"
  "task_obj demo_state = (\<lambda>_. 0)(0 := 0x20000800, 1 := 0x20000900)"
  "task_id demo_state = (\<lambda>_. 0)(0 := 1, 1 := 0x10002)" "task_count demo_state = 2"
  "total_task_count demo_state = 2" "first_start demo_state" "pstack_addr demo_state = 0x20001000"
  "alc demo_state = 1" "hlc demo_state = 0" "mcu demo_state = demo_mcu"
  "permissions demo_state = (\<lambda>_. 0)(0 := 0xFFFF)" "\<not> self_kill demo_state"
  by (simp_all add: demo_state_def kvar_init_def)

lemma demo_live: "live demo_state = (\<lambda>i. i = 0 \<or> i = 1)"
  by (auto simp: live_def demo_fields fun_eq_iff)

lemma demo_ring: "ring_ok 4 (live demo_state) (jmp_list demo_state)"
proof -
  have "is_succ (live demo_state) 4 0 1" "is_succ (live demo_state) 4 1 0"
    by (auto simp: is_succ_def demo_live)
  then have "\<exists>k. is_succ (live demo_state) 4 0 k \<and> int 0 + sint (jmp_list demo_state 0) = int k"
    "\<exists>k. is_succ (live demo_state) 4 1 k \<and> int 1 + sint (jmp_list demo_state 1) = int k"
    by (auto simp: demo_fields intro!: exI [of _ 1] exI [of _ 0])
  then show ?thesis by (auto simp: ring_ok_def less4 demo_live) (auto simp: demo_fields)
qed

lemma upt4: "[0..<4] = [0, 1, 2, 3 :: nat]"
  by (simp add: upt_rec)

lemma demo_levels: "levels (level_stash demo_state) (lstash_ptr demo_state) = [0, 5]"
  by (simp add: levels_def demo_fields upt_rec)

lemma demo_kernel_ok: "kernel_ok 4 demo_state"
proof -
  have "kinv 4 demo_state"
    unfolding kinv_def
  proof (intro conjI)
    show "table_ok 4 demo_state"
      by (simp add: table_ok_def All_less4 demo_live)
        (simp add: demo_fields pid_slot_def drop_bit_eq_div)
  qed (simp_all add: demo_ring, simp add: demo_live upt4 demo_fields)
  moreover have "stash_ok 4 demo_state"
    unfolding stash_ok_def incr_upto_levels demo_levels
    by (simp add: All_less4 demo_live) (simp add: demo_fields)
  moreover have "max_ok 4 demo_state"
    by (auto simp: max_ok_def All_less4 demo_live) (auto simp: demo_fields intro!: exI [of _ 1])
  ultimately show ?thesis by (simp add: kernel_ok_def)
qed

lemma demo_run_ok: "run_ok 4 demo_state"
  using demo_kernel_ok by (simp add: run_ok_def demo_fields All_less4)

text \<open>The same system after the context switch: the task of slot 1 runs.\<close>

definition demo_next :: kstate where
  "demo_next = demo_state\<lparr>current_task := 1, next_task := 1,
     state := (\<lambda>_. TASK_STATE_IDLE)(0 := TASK_STATE_SLEEP, 1 := TASK_STATE_ACTIVE)\<rparr>"

lemma demo_next_fields:
  "state demo_next = (\<lambda>_. TASK_STATE_IDLE)(0 := TASK_STATE_SLEEP, 1 := TASK_STATE_ACTIVE)"
  "current_task demo_next = 1" "next_task demo_next = 1"
  "jmp_list demo_next = jmp_list demo_state" "priority_cur demo_next = priority_cur demo_state"
  "level_stash demo_next = level_stash demo_state" "lstash_ptr demo_next = lstash_ptr demo_state"
  "max_level demo_next = max_level demo_state" "enable_dws demo_next" "normal_schedule demo_next"
  "task_obj demo_next = task_obj demo_state" "task_id demo_next = task_id demo_state"
  "task_count demo_next = task_count demo_state" "permissions demo_next = permissions demo_state"
  "mcu demo_next = demo_mcu" "\<not> self_kill demo_next" "first_start demo_next"
  by (simp_all add: demo_next_def demo_fields)

lemma demo_next_live: "live demo_next = live demo_state"
  by (auto simp: live_def demo_next_fields demo_fields fun_eq_iff)

lemma demo_next_run_ok: "run_ok 4 demo_next"
proof -
  have "kernel_ok 4 demo_next"
    by (rule kernel_ok_cong [OF demo_kernel_ok]) (simp_all add: demo_next_live demo_next_fields)
  then show ?thesis by (simp add: run_ok_def demo_next_fields All_less4)
qed

end
