(* ===== verification/TaskProps.thy ===== *)
theory TaskProps
  imports Demo
begin

text \<open>
  The properties of task creation and kill, for every port that keeps the contract
  \<^const>\<open>kernel_port\<close>, each with an instance on the small system of the theory Demo.
\<close>

section \<open>Creation\<close>

definition demo_args :: svc_args where
  "demo_args = (\<lambda>_. 0)(0 := 0x900)"

lemma demo_create_ready: "create_ready demo_arm demo_args demo_state"
proof -
  have "create_slot 4 demo_state = 2"
    by (simp add: create_slot_def first_idx_def demo_fields eval_nat_numeral)
  then show ?thesis
    by (simp add: create_ready_def demo_fields create_checks_def demo_mcu_def demo_obj_def demo_args_def)
qed

lemma demo_count_ok: "count_ok 4 demo_state"
  by (simp add: count_ok_def top_slots_def upt4 demo_live) (simp add: demo_fields)

lemma demo_in_order: "level_in_order demo_state (t_priority (objs (mcu demo_state) (demo_args 0)))"
  unfolding level_in_order_def demo_levels
  by (simp add: demo_fields demo_mcu_def demo_obj_def demo_args_def)

text \<open>
  C1. Creating a task, for a request the kernel accepts (\<^const>\<open>create_ready\<close>) of any level:
  the call returns without an error, the ring of the slots in use, the task table and the task
  count stay consistent, the highest level is the maximum of the old one and the new task's,
  the counts at the highest level are right, and the stash gains exactly the new level. When the level is
  known to the stash or above all levels there, the stash also stays sorted, so that the whole
  invariant \<^const>\<open>kernel_ok\<close> is kept; for a level in between it may not be (the insertion can
  be one place too low, lemma level_add_misplaces).
\<close>

theorem create_keeps_kernel_ok:
  assumes "kernel_port A" and "kernel_ok (MAX_TASK_COUNT A) s" and "count_ok (MAX_TASK_COUNT A) s"
    and "create_ready A arguments s" and "unat (lstash_ptr s) < MAX_TASK_COUNT A"
  shows "\<exists>s'. svc_service_task_create A svc_num arguments s =
      Some (ERROR_NONE, svc_num, arguments, s') \<and>
    kinv (MAX_TASK_COUNT A) s' \<and> max_ok (MAX_TASK_COUNT A) s' \<and> count_ok (MAX_TASK_COUNT A) s' \<and>
    max_level s' = max (max_level s) (t_priority (objs (mcu s) (arguments 0))) \<and>
    set (levels (level_stash s') (lstash_ptr s')) =
      insert (t_priority (objs (mcu s) (arguments 0))) (set (levels (level_stash s) (lstash_ptr s))) \<and>
    (level_in_order s (t_priority (objs (mcu s) (arguments 0))) \<longrightarrow> kernel_ok (MAX_TASK_COUNT A) s')"
proof -
  have k: "stash_ok (MAX_TASK_COUNT A) s" "MAX_TASK_COUNT A \<le> 120"
    using assms(2) ring_ok_bound by (auto simp: kernel_ok_def kinv_def)
  show ?thesis
    by (rule kernel_port.create_any [OF assms(1,4,2,5), of svc_num], rule exI, intro conjI, assumption+)
      (use assms(3) stash_add_set [OF k assms(5)] in auto)
qed

theorem create_keeps_kernel_ok_witness:
  "\<exists>s'. svc_service_task_create demo_arm CREATE_TASK demo_args demo_state =
      Some (ERROR_NONE, CREATE_TASK, demo_args, s') \<and>
    kernel_ok 4 s' \<and> count_ok 4 s' \<and> max_level s' = 7 \<and>
    set (levels (level_stash s') (lstash_ptr s')) = {0, 5, 7}"
proof -
  have p: "kernel_port demo_arm" unfolding demo_arm_def by (rule arm.kernel_port_axioms)
  have t: "t_priority (objs (mcu demo_state) (demo_args 0)) = 7"
    by (simp add: demo_fields demo_mcu_def demo_obj_def demo_args_def)
  obtain s' where "svc_service_task_create demo_arm CREATE_TASK demo_args demo_state =
      Some (ERROR_NONE, CREATE_TASK, demo_args, s')" "count_ok 4 s'" "max_level s' = 7"
    "set (levels (level_stash s') (lstash_ptr s')) = {7, 0, 5}" "kernel_ok 4 s'"
    using create_keeps_kernel_ok [OF p, of demo_state demo_args CREATE_TASK] demo_kernel_ok demo_count_ok
      demo_create_ready demo_in_order
    unfolding t demo_max demo_levels by (auto simp: demo_fields)
  then show ?thesis by (auto simp: insert_commute)
qed

text \<open>
  C2. What a successful creation does: the first idle slot becomes ready with the requested
  priority, the object and the slot get the identifier of slot and serial number, the
  counters advance, and nothing else of the table, of the current task or of the
  permissions changes.
\<close>

theorem create_effect:
  assumes "kernel_port A" and "kinv (MAX_TASK_COUNT A) s" and "create_ready A arguments s"
    and "level_stash s 0 = 0" and "unat (lstash_ptr s) < MAX_TASK_COUNT A"
  shows "\<exists>i s'. svc_service_task_create A svc_num arguments s =
      Some (ERROR_NONE, svc_num, arguments, s') \<and>
    i < MAX_TASK_COUNT A \<and> \<not> live s i \<and> (\<forall>j < i. live s j) \<and>
    state s' = (state s)(i := TASK_STATE_SLEEP) \<and>
    priority_cur s' = (priority_cur s)(i := t_priority (objs (mcu s) (arguments 0))) \<and>
    task_obj s' = (task_obj s)(i := arguments 0) \<and>
    task_id s' = (task_id s)(i := t_task_id (objs (mcu s') (arguments 0))) \<and>
    pid_slot (t_task_id (objs (mcu s') (arguments 0))) = i \<and>
    task_count s' = task_count s + 1 \<and> total_task_count s' = total_task_count s + 1 \<and>
    current_task s' = current_task s \<and> next_task s' = next_task s \<and>
    permissions s' = permissions s"
proof -
  let ?n = "MAX_TASK_COUNT A" and ?i = "create_slot (MAX_TASK_COUNT A) s"
  let ?p = "t_priority (objs (mcu s) (arguments 0))"
  have n: "?n \<le> 120" using assms(2) ring_ok_bound by (auto simp: kinv_def)
  have i: "?i < ?n"
    by (rule free_slot) (use assms(2,3) in \<open>auto simp: kinv_def create_ready_def\<close>)
  have z: "level_stash s 0 \<le> ?p" using assms(4) by simp
  obtain ls lp where lv: "level_add ?n ?p (level_stash s, lstash_ptr s) = Some (ls, lp)"
    by (rule level_add_cases [where ls = "level_stash s", OF z n assms(5)]) auto
  have id: "pid_slot (make_task_id ?i (total_task_count s)) = ?i"
    by (rule make_task_id_slot) (use i n assms(3) in \<open>auto simp: create_ready_def\<close>)
  note slot = create_slot_props [OF i]
  show ?thesis
    by (rule kernel_port.create_success [OF assms(1,3) refl i refl lv, of svc_num])
      (rule exI [of _ ?i], rule exI, intro conjI, assumption, use i slot id in simp_all)
qed

theorem create_effect_witness:
  "kinv 4 demo_state \<and> (\<exists>i s'. svc_service_task_create demo_arm CREATE_TASK demo_args demo_state =
      Some (ERROR_NONE, CREATE_TASK, demo_args, s') \<and> \<not> live demo_state i \<and>
      state s' = (state demo_state)(i := TASK_STATE_SLEEP) \<and> permissions s' = permissions demo_state)"
proof -
  have p: "kernel_port demo_arm" unfolding demo_arm_def by (rule arm.kernel_port_axioms)
  have k: "kinv 4 demo_state" using demo_kernel_ok by (simp add: kernel_ok_def)
  obtain i s' where "svc_service_task_create demo_arm CREATE_TASK demo_args demo_state =
      Some (ERROR_NONE, CREATE_TASK, demo_args, s')" "\<not> live demo_state i"
      "state s' = (state demo_state)(i := TASK_STATE_SLEEP)" "permissions s' = permissions demo_state"
    using create_effect [OF p, of demo_state demo_args CREATE_TASK] k demo_create_ready
    unfolding demo_max by (auto simp: demo_fields)
  with k show ?thesis by blast
qed

text \<open>
  C3. When a creation is refused, exactly, and what it leaves: with a full table the error is
  \<open>ERROR_MAX_PROCESS_COUNT\<close>; otherwise with a priority above 127, or with priority 0 after the start,
  \<open>ERROR_INVALID_TASK_PRIORITY\<close>; otherwise with a null stack address
  \<open>ERROR_OUT_OF_MEMORY\<close>. The object's error field gets the code, and apart from the
  stack pointer entry of the slot that was tried nothing changes. In all other cases a creation that
  returns has no error.
\<close>

theorem create_refused:
  fixes p :: u8 and psp :: u32
  assumes "kinv (MAX_TASK_COUNT A) s"
    and p: "p = t_priority (objs (mcu s) (arguments 0))"
    and psp: "psp = pstack_addr s + of_nat (create_slot (MAX_TASK_COUNT A) s * TASK_STACK_SIZE A * 4)"
  shows "if MAX_TASK_COUNT A \<le> unat (task_count s)
    then svc_service_task_create A svc_num arguments s = Some (ERROR_MAX_PROCESS_COUNT, svc_num, arguments,
      set_obj_error ERROR_MAX_PROCESS_COUNT (arguments 0) s)
    else if 127 < p \<or> p = 0 \<and> first_start s
    then svc_service_task_create A svc_num arguments s = Some (ERROR_INVALID_TASK_PRIORITY, svc_num, arguments,
      set_obj_error ERROR_INVALID_TASK_PRIORITY (arguments 0) s)
    else if psp = 0
    then svc_service_task_create A svc_num arguments s = Some (ERROR_OUT_OF_MEMORY, svc_num, arguments,
      set_obj_error ERROR_OUT_OF_MEMORY (arguments 0)
        (s\<lparr>PSP_Array := (PSP_Array s)(create_slot (MAX_TASK_COUNT A) s := 0)\<rparr>))
    else (\<forall>e c a s'. svc_service_task_create A svc_num arguments s = Some (e, c, a, s') \<longrightarrow> e = ERROR_NONE)"
proof (cases "unat (task_count s) < MAX_TASK_COUNT A")
  case False
  then show ?thesis by (simp add: svc_service_task_create_def Let_def)
next
  case True
  then have "create_slot (MAX_TASK_COUNT A) s < MAX_TASK_COUNT A"
    using assms(1) by (intro free_slot) (simp_all add: kinv_def)
  with True show ?thesis
    by (auto simp: svc_service_task_create_def Let_def create_checks_def create_slot_def [symmetric] p psp
        bind_eq_Some_conv split: if_splits)
qed

text \<open>The priority 0 is refused on the small system, which has started, and the stack is not touched.\<close>

theorem create_refused_witness:
  "svc_service_task_create demo_arm CREATE_TASK demo_args
     (demo_state\<lparr>mcu := demo_mcu\<lparr>objs := \<lambda>_. demo_obj 0\<rparr>\<rparr>) =
   Some (ERROR_INVALID_TASK_PRIORITY, CREATE_TASK, demo_args, set_obj_error ERROR_INVALID_TASK_PRIORITY 0x900
     (demo_state\<lparr>mcu := demo_mcu\<lparr>objs := \<lambda>_. demo_obj 0\<rparr>\<rparr>))"
proof -
  let ?s = "demo_state\<lparr>mcu := demo_mcu\<lparr>objs := \<lambda>_. demo_obj 0\<rparr>\<rparr>"
  have "kernel_ok 4 ?s" by (rule kernel_ok_cong [OF demo_kernel_ok]) (simp_all add: live_def)
  then have k: "kinv (MAX_TASK_COUNT demo_arm) ?s" by (simp add: kernel_ok_def)
  show ?thesis
    using create_refused [where arguments = demo_args and svc_num = CREATE_TASK, OF k refl refl]
    by (simp add: demo_fields demo_obj_def demo_args_def)
qed

section \<open>Kill\<close>

definition kill_args :: "u32 \<Rightarrow> u32 \<Rightarrow> svc_args" where
  "kill_args pid flag = (\<lambda>_. 0)(0 := pid, 1 := flag)"

text \<open>
  C4. Killing a task in use other than the base task keeps the kernel's invariants, takes
  exactly that slot out of use, and takes its level out of the stash unless another slot of
  the table, in use or not, has the same priority. A task that ended itself makes the
  dispatcher go on with the hand-over service.
\<close>

theorem kill_keeps_kernel_ok:
  assumes "kernel_ok (MAX_TASK_COUNT A) s" and "i < MAX_TASK_COUNT A" and "live s i" and "i \<noteq> 0"
    and "arguments 0 = task_id s i" and "unat (lstash_ptr s) < MAX_TASK_COUNT A"
    and "priority_cur s 0 = 0"
  shows "\<exists>s'. svc_service_task_kill A svc_num arguments s =
      Some (ERROR_NONE, if arguments 1 = 1 then HAND_OVER else svc_num, arguments, s') \<and>
    kernel_ok (MAX_TASK_COUNT A) s' \<and> live s' = (live s)(i := False) \<and>
    task_obj s' = (task_obj s)(i := 0) \<and> task_id s' = (task_id s)(i := 0) \<and>
    task_count s' = task_count s - 1 \<and>
    set (levels (level_stash s') (lstash_ptr s')) = set (levels (level_stash s) (lstash_ptr s)) -
      (if \<exists>j < MAX_TASK_COUNT A. j \<noteq> i \<and> priority_cur s j = priority_cur s i then {}
       else {priority_cur s i})"
  by (rule kill_preserves [where arguments = arguments and svc_num = svc_num,
        OF assms(1-4) assms(5) assms(6,7)])
    (rule exI, intro conjI, assumption+)

theorem kill_keeps_kernel_ok_witness:
  "\<exists>s'. svc_service_task_kill demo_arm KILL_TASK (kill_args 0x10002 0) demo_state =
      Some (ERROR_NONE, KILL_TASK, kill_args 0x10002 0, s') \<and> kernel_ok 4 s' \<and>
    live s' = (live demo_state)(1 := False)"
  using kill_keeps_kernel_ok [of demo_arm demo_state 1 "kill_args 0x10002 0" KILL_TASK] demo_kernel_ok
  unfolding demo_max by (simp add: demo_live kill_args_def) (auto simp: demo_fields)

lemma max_ok_unique:
  assumes "max_ok n s" and "max_ok n s'" and "\<And>i. i < n \<Longrightarrow> live s' i = live s i"
    and "\<And>i. i < n \<Longrightarrow> live s i \<Longrightarrow> priority_cur s' i = priority_cur s i"
  shows "max_level s' = max_level s"
proof (rule antisym)
  obtain i where "i < n" "live s' i" "priority_cur s' i = max_level s'" using assms(2) by (auto simp: max_ok_def)
  then show "max_level s' \<le> max_level s" using assms by (metis max_ok_def)
  obtain j where "j < n" "live s j" "priority_cur s j = max_level s" using assms(1) by (auto simp: max_ok_def)
  then show "max_level s \<le> max_level s'" using assms by (metis max_ok_def)
qed

text \<open>
  Adding a level and dropping it again on the kill of the same slot \<open>i\<close>: the level stays exactly when
  another slot of the table, in use or not, has it.
\<close>

lemma stash_roundtrip:
  assumes ok: "stash_ok n s" and n: "n \<le> 120" and ptr: "Suc (unat (lstash_ptr s)) < n"
    and add: "level_add n p (level_stash s, lstash_ptr s) = Some (level_stash s1, lstash_ptr s1)"
    and pr: "priority_cur s1 = (priority_cur s)(i := p)"
    and S: "S = set (levels (level_stash s) (lstash_ptr s))"
    and other: "other \<longleftrightarrow> (\<exists>j < n. j \<noteq> i \<and> priority_cur s j = p)"
  obtains ls lp where "kill_levels n i s1 = Some (s1\<lparr>level_stash := ls, lstash_ptr := lp\<rparr>)"
    "set (levels ls lp) = (if other then insert p S else S - {p})"
    "(p \<in> S \<longleftrightarrow> other) \<Longrightarrow> lp = lstash_ptr s \<and> (\<forall>j < n. ls j = level_stash s j)"
proof -
  let ?k = "unat (lstash_ptr s)" and ?L = "levels (level_stash s) (lstash_ptr s)"
  have lex: "list_ex (\<lambda>j. j \<noteq> i \<and> priority_cur s1 j = priority_cur s1 i) [0..<n] = other"
    unfolding other by (auto simp: pr list_ex_iff)
  have pi: "priority_cur s1 i = p" by (simp add: pr)
  have dist: "distinct ?L" using ok by (simp add: stash_ok_def incr_upto_levels strict_sorted_iff)
  have kn: "?k < n" using ptr by simp
  show thesis
  proof (rule stash_add_any [OF ok n kn, of p])
    assume p: "p \<in> set ?L"
      and a: "level_add n p (level_stash s, lstash_ptr s) = Some (level_stash s, lstash_ptr s)"
    have s1: "level_stash s1 = level_stash s" "lstash_ptr s1 = lstash_ptr s" using a add by simp_all
    show thesis
    proof (cases other)
      case True
      then show thesis using p lex S
        by (intro that [where ls = "level_stash s1" and lp = "lstash_ptr s1"]) (auto simp: kill_levels_def s1)
    next
      case False
      obtain ls where "level_drop n p (level_stash s, lstash_ptr s) = Some (ls, lstash_ptr s - 1)"
        "levels ls (lstash_ptr s - 1) = remove1 p ?L"
        using level_drop_levels [OF p kn] by blast
      with False p dist lex show thesis
        by (intro that [where ls = ls and lp = "lstash_ptr s - 1"]) (simp_all add: kill_levels_def pi s1 S)
    qed
  next
    fix m
    assume p: "p \<notin> set ?L" and m: "m \<le> ?k"
      and a: "level_add n p (level_stash s, lstash_ptr s) =
        Some ((shift_up m ?k (level_stash s))(m := p), lstash_ptr s + 1)"
      and l: "levels ((shift_up m ?k (level_stash s))(m := p)) (lstash_ptr s + 1) = take m ?L @ p # drop m ?L"
    have s1: "level_stash s1 = (shift_up m ?k (level_stash s))(m := p)" "lstash_ptr s1 = lstash_ptr s + 1"
      using a add by simp_all
    have k1: "unat (lstash_ptr s1) = Suc ?k" using kn n unfolding s1 by (intro unat_Suc_u8) simp
    have l1: "levels (level_stash s1) (lstash_ptr s1) = take m ?L @ p # drop m ?L" using l by (simp add: s1)
    have st: "set (levels (level_stash s1) (lstash_ptr s1)) = insert p (set ?L)"
      unfolding l1 by (rule set_insert_at)
    show thesis
    proof (cases other)
      case True
      then show thesis using p lex st S
        by (intro that [where ls = "level_stash s1" and lp = "lstash_ptr s1"]) (auto simp: kill_levels_def)
    next
      case False
      have p1: "p \<in> set (levels (level_stash s1) (lstash_ptr s1))" by (simp add: st)
      have kn1: "unat (lstash_ptr s1) < n" using ptr k1 by simp
      obtain ls where d: "level_drop n p (level_stash s1, lstash_ptr s1) = Some (ls, lstash_ptr s1 - 1)"
        "levels ls (lstash_ptr s1 - 1) = remove1 p (levels (level_stash s1) (lstash_ptr s1))"
        "ls (unat (lstash_ptr s1) - 1) = level_stash s1 (unat (lstash_ptr s1))"
        "\<forall>j \<ge> unat (lstash_ptr s1). ls j = level_stash s1 j"
        using level_drop_levels [OF p1 kn1] by blast
      have pt: "lstash_ptr s1 - 1 = lstash_ptr s" by (simp add: s1)
      have lv: "levels ls (lstash_ptr s) = ?L"
        using d(2) p set_take_subset [of m ?L] unfolding pt l1 by (auto simp: remove1_append)
      have hi: "level_stash s1 j = level_stash s j" if "?k < j" for j
        using that m by (simp add: s1 shift_up_apply)
      have same: "ls j = level_stash s j" if "j < n" for j
      proof (cases j ?k rule: linorder_cases)
        case less
        then show ?thesis using arg_cong [OF lv, of "\<lambda>xs. xs ! j"] by (simp add: levels_def)
      next
        case equal
        then show ?thesis using d(3) hi [of "Suc ?k"] ok ptr by (simp add: k1 stash_ok_def)
      next
        case greater
        then show ?thesis using d(4) hi k1 by simp
      qed
      show thesis
        by (rule that [where ls = ls and lp = "lstash_ptr s"])
          (use False lex d(1) lv p same S in \<open>simp_all add: kill_levels_def pi pt\<close>)
    qed
  qed
qed

text \<open>
  C5. Round trip: killing the task just created restores the task table, the task states, the
  ring, the task count and the highest level, for a new task of any level. The idle slot keeps the
  priority of the task it had; all other priorities are as before. The level of the task stays
  in the stash exactly when another slot of the table, in use or not, has that priority; so
  when the stash has held the level before exactly for such a slot, the stash and its count are restored as well.
\<close>

theorem create_kill_roundtrip:
  assumes "kernel_port A" and ok: "kernel_ok (MAX_TASK_COUNT A) s" and "create_ready A arguments s"
    and ptr: "Suc (unat (lstash_ptr s)) < MAX_TASK_COUNT A" and base: "priority_cur s 0 = 0"
    and p: "p = t_priority (objs (mcu s) (arguments 0))" and i: "i = create_slot (MAX_TASK_COUNT A) s"
    and other: "other \<longleftrightarrow> (\<exists>j < MAX_TASK_COUNT A. j \<noteq> i \<and> priority_cur s j = p)"
  shows "\<exists>s1 s2 pid. svc_service_task_create A svc_num arguments s =
      Some (ERROR_NONE, svc_num, arguments, s1) \<and>
    pid = t_task_id (objs (mcu s1) (arguments 0)) \<and>
    svc_service_task_kill A svc_num (kill_args pid 0) s1 =
      Some (ERROR_NONE, svc_num, kill_args pid 0, s2) \<and>
    state s2 = state s \<and> task_obj s2 = task_obj s \<and> task_id s2 = task_id s \<and>
    task_count s2 = task_count s \<and> max_level s2 = max_level s \<and>
    (\<forall>j < MAX_TASK_COUNT A. jmp_list s2 j = jmp_list s j) \<and>
    priority_cur s2 = (priority_cur s)(i := p) \<and> \<not> live s i \<and>
    set (levels (level_stash s2) (lstash_ptr s2)) =
      (if other then insert p (set (levels (level_stash s) (lstash_ptr s)))
       else set (levels (level_stash s) (lstash_ptr s)) - {p}) \<and>
    ((p \<in> set (levels (level_stash s) (lstash_ptr s)) \<longleftrightarrow> other) \<longrightarrow>
      lstash_ptr s2 = lstash_ptr s \<and> (\<forall>j < MAX_TASK_COUNT A. level_stash s2 j = level_stash s j))"
proof -
  let ?n = "MAX_TASK_COUNT A"
  have k: "kinv ?n s" "stash_ok ?n s" "max_ok ?n s" using ok by (auto simp: kernel_ok_def)
  have ring: "ring_ok ?n (live s) (jmp_list s)" using k(1) by (simp add: kinv_def)
  have n: "?n \<le> 120" using ring by (rule ring_ok_bound)
  have i1: "i < ?n"
    unfolding i by (rule free_slot) (use k(1) assms(3) in \<open>auto simp: kinv_def create_ready_def\<close>)
  note slot = create_slot_props [OF i1 [unfolded i], folded i]
  have i0: "i \<noteq> 0" using slot(1) ring_ok_base [OF ring] by metis
  have lp: "unat (lstash_ptr s) < ?n" using ptr by simp
  obtain ls lq where lv: "level_add ?n p (level_stash s, lstash_ptr s) = Some (ls, lq)"
    by (rule stash_add_any [OF k(2) n lp, of p]) blast+
  obtain s1 where c: "svc_service_task_create A svc_num arguments s = Some (ERROR_NONE, svc_num, arguments, s1)"
    "state s1 = (state s)(i := TASK_STATE_SLEEP)" "task_obj s1 = (task_obj s)(i := arguments 0)"
    "task_id s1 = (task_id s)(i := make_task_id i (total_task_count s))"
    "priority_cur s1 = (priority_cur s)(i := p)" "task_count s1 = task_count s + 1"
    "level_stash s1 = ls" "lstash_ptr s1 = lq" "objs (mcu s1) = (objs (mcu s))(arguments 0 := (objs (mcu s) (arguments 0))
        \<lparr>t_task_id := make_task_id i (total_task_count s)\<rparr>)"
    by (rule kernel_port.create_success [OF assms(1,3) i i1 p lv, of svc_num]) blast
  have ok1: "kinv ?n s1"
    by (rule kernel_port.create_any [OF assms(1,3) ok lp, of svc_num]) (use c(1) in auto)
  let ?pid = "make_task_id i (total_task_count s)"
  have li: "live s1 i" by (simp add: live_def c)
  have pa: "kill_args ?pid 0 0 = task_id s1 i" by (simp add: kill_args_def c)
  have lv1: "level_add ?n p (level_stash s, lstash_ptr s) = Some (level_stash s1, lstash_ptr s1)"
    by (simp add: lv c)
  obtain ls2 lq2 where kl: "kill_levels ?n i s1 = Some (s1\<lparr>level_stash := ls2, lstash_ptr := lq2\<rparr>)"
    and lset: "set (levels ls2 lq2) = (if other then insert p (set (levels (level_stash s) (lstash_ptr s)))
       else set (levels (level_stash s) (lstash_ptr s)) - {p})"
    and lsame: "(p \<in> set (levels (level_stash s) (lstash_ptr s)) \<longleftrightarrow> other) \<Longrightarrow>
       lq2 = lstash_ptr s \<and> (\<forall>j < ?n. ls2 j = level_stash s j)"
    by (rule stash_roundtrip [OF k(2) n ptr lv1 c(5) refl other]) blast
  have b1: "priority_cur s1 0 = 0" using base i0 by (simp add: c)
  obtain s2 where d: "svc_service_task_kill A svc_num (kill_args ?pid 0) s1 =
      Some (ERROR_NONE, svc_num, kill_args ?pid 0, s2)" "kinv ?n s2" "max_ok ?n s2"
    "live s2 = (live s1)(i := False)" "priority_cur s2 = priority_cur s1"
    "state s2 = (state s1)(i := TASK_STATE_IDLE)" "task_obj s2 = (task_obj s1)(i := 0)"
    "task_id s2 = (task_id s1)(i := 0)" "task_count s2 = task_count s1 - 1"
    "level_stash s2 = ls2" "lstash_ptr s2 = lq2"
    by (rule kill_any [where arguments = "kill_args ?pid 0" and svc_num = svc_num,
          OF ok1 i1 li i0 pa kl]) (use b1 in \<open>simp add: kill_args_def\<close>)
  have st: "state s2 = state s" using slot(1) by (auto simp: d c live_def fun_eq_iff)
  then have lv2: "live s2 = live s" by (simp add: live_def fun_eq_iff)
  have tab: "task_obj s2 = task_obj s" "task_id s2 = task_id s"
    using k(1) slot(1) i1 by (auto simp: d(7,8) c(3,4) fun_eq_iff kinv_def table_ok_def)
  have k2: "ring_ok ?n (live s) (jmp_list s2)" using d(2) lv2 by (simp add: kinv_def)
  have mx: "max_level s2 = max_level s"
    by (rule max_ok_unique [OF k(3) d(3)]) (use slot(1) in \<open>auto simp: lv2 d(5) c(5)\<close>)
  show ?thesis
    using c(1) d(1) st tab ring_unique [OF k2 ring] mx slot(1) lset lsame
    by (intro exI [of _ s1] exI [of _ s2] exI [of _ ?pid]) (simp add: c d)
qed

theorem create_kill_roundtrip_witness:
  "\<exists>s1 s2 pid. svc_service_task_create demo_arm CREATE_TASK demo_args demo_state =
      Some (ERROR_NONE, CREATE_TASK, demo_args, s1) \<and>
    svc_service_task_kill demo_arm CREATE_TASK (kill_args pid 0) s1 =
      Some (ERROR_NONE, CREATE_TASK, kill_args pid 0, s2) \<and>
    state s2 = state demo_state \<and> max_level s2 = 5 \<and> lstash_ptr s2 = 2 \<and>
    (\<forall>j < 4. level_stash s2 j = level_stash demo_state j)"
proof -
  have p: "kernel_port demo_arm" unfolding demo_arm_def by (rule arm.kernel_port_axioms)
  have h: "Suc (unat (lstash_ptr demo_state)) < MAX_TASK_COUNT demo_arm" "priority_cur demo_state 0 = 0"
    by (simp_all add: demo_fields)
  have t: "t_priority (objs (mcu demo_state) (demo_args 0)) = 7"
    by (simp add: demo_fields demo_mcu_def demo_obj_def demo_args_def)
  have o: "\<not> (\<exists>j < 4. j \<noteq> i \<and> priority_cur demo_state j = 7)" for i by (simp add: demo_fields)
  show ?thesis
    using create_kill_roundtrip [OF p, unfolded demo_max, OF demo_kernel_ok demo_create_ready
        h [unfolded demo_max] t [symmetric] refl refl, of CREATE_TASK] o
    unfolding demo_levels by (auto simp: demo_fields(5,6))
qed

end
