(* ===== verification/SchedFair.thy ===== *)
theory SchedFair
  imports SchedSafe
begin

text \<open>
  Round robin at the highest level: under ticks alone, a task that is ready at the highest
  level gets the processor after at most one round of the ring.
\<close>

primrec ticks :: "port \<Rightarrow> u32 \<Rightarrow> nat \<Rightarrow> kstate \<Rightarrow> kstate option" where
  "ticks A psp 0 s = Some s"
| "ticks A psp (Suc k) s = kernel_tick A psp s \<bind> ticks A psp k"

lemma find_map_first:
  assumes "d < m" and "P (f d)"
  shows "\<exists>e \<le> d. find P (map f [0..<m]) = Some (f e) \<and> P (f e)"
proof -
  obtain x where x: "find P (map f [0..<m]) = Some x"
    using assms by (cases "find P (map f [0..<m])") (auto simp: find_None_iff)
  then obtain e where e: "e < m" "P (f e)" "x = f e" "\<forall>j < e. \<not> P (f j)"
    by (auto simp: find_Some_iff)
  moreover from e(4) assms(2) have "e \<le> d" by (metis not_le)
  ultimately show ?thesis using x by auto
qed

lemma ring_tl:
  assumes "ring_ok n (live s) (jmp_list s)" "c < n" "live s c"
  shows "tl (ring_round n s c) = map (\<lambda>m. (ring_nxt s ^^ Suc m) c) [0..<length (live_slots n s) - 1]"
proof -
  obtain m where m: "length (live_slots n s) = Suc m"
    using ring_round_walk(3) [OF assms] by (cases "live_slots n s") (auto simp: ring_round_def)
  show ?thesis
    by (rule nth_equalityI) (simp_all add: ring_round_def m nth_tl del: upt_Suc funpow.simps)
qed

text \<open>One tick: the chosen task is at or before the waiting one in the order of the ring.\<close>

lemma tick_towards:
  assumes run: "run_ok (MAX_TASK_COUNT A) s" and c: "c = unat (current_task s)"
    and d: "d < length (live_slots (MAX_TASK_COUNT A) s) - 1" and j: "j = (ring_nxt s ^^ Suc d) c"
    and rdy: "state s j = TASK_STATE_SLEEP" "priority_cur s j = max_level s"
  obtains s' e where "kernel_tick A psp s = Some s'" "run_ok (MAX_TASK_COUNT A) s'" "e \<le> d"
    "unat (current_task s') = (ring_nxt s ^^ Suc e) c" "live s' = live s" "jmp_list s' = jmp_list s"
    "unat (current_task s') \<noteq> j \<Longrightarrow> state s' j = TASK_STATE_SLEEP"
    "priority_cur s' = priority_cur s" "max_level s' = max_level s"
proof -
  let ?n = "MAX_TASK_COUNT A" and ?w = "woken A s"
  have pre: "sched_pre ?n s" using run by (rule run_ok_sched_pre)
  note p = sched_preD [OF pre]
  note wk = woken_kernel_ok [OF pre]
  have ring: "ring_ok ?n (live ?w) (jmp_list ?w)" using wk(1) by (simp add: kernel_ok_def kinv_def)
  have cw: "c < ?n" "live ?w c" using p(3,4) wk(2) by (simp_all add: c)
  have nx: "ring_nxt ?w = ring_nxt s" by (simp only: ring_nxt_def wk(2) woken_frame(1))
  have ls: "live_slots ?n ?w = live_slots ?n s" by (simp add: live_slots_def wk(2))
  have wj: "state ?w j = TASK_STATE_SLEEP"
    using woken_state [OF pre, of j] rdy by (simp add: entered_state)
  have "ready ?w (max_level s) j" using wj rdy by (simp add: ready_def woken_frame)
  then obtain e where e: "e \<le> d" "find (\<lambda>i. ready ?w (max_level s) i)
      (map (\<lambda>m. (ring_nxt s ^^ Suc m) c) [0..<length (live_slots ?n s) - 1]) =
      Some ((ring_nxt s ^^ Suc e) c)"
    using find_map_first [OF d, of "\<lambda>i. ready ?w (max_level s) i" "\<lambda>m. (ring_nxt s ^^ Suc m) c"]
    unfolding j by blast
  let ?i = "(ring_nxt s ^^ Suc e) c"
  have fm: "find (is_ready ?w) (map (\<lambda>i. (i, l)) xs) =
      map_option (\<lambda>i. (i, l)) (find (\<lambda>i. ready ?w l i) xs)" for l xs
    by (induction xs) (auto simp: is_ready_def)
  have "find (is_ready ?w) (tl (round_at ?n ?w c (max_level s))) = Some (?i, max_level s)"
    using e(2) unfolding round_at_def map_tl [symmetric] ring_tl [OF ring cw] nx ls fm by simp
  then have pick: "sched_pick A s = Some (?i, max_level s)"
    by (simp add: sched_pick_def sched_order_def find_append_case woken_frame c [symmetric] del: funpow.simps)
  define s' where "s' = context_switch psp (sched_leave A (max_level s) (?w\<lparr>next_task := of_nat ?i\<rparr>))"
  have t: "kernel_tick A psp s = Some s'"
    using scheduler_pick [OF p] pick by (simp add: kernel_tick_def s'_def)
  show thesis
  proof (rule tick_result [OF pre t])
    fix i l
    assume r: "sched_pick A s = Some (i, l)" "i < ?n" "current_task s' = of_nat i"
      "state s' = (state ?w)(i := TASK_STATE_ACTIVE)" "run_ok ?n s'" "live s i"
    have ii: "i = ?i" using r(1) pick by simp
    have n: "?n \<le> 120" using p(1) by (rule ring_ok_bound)
    have ui: "unat (current_task s') = i" using r(2,3) n by (simp add: unat_of_nat_u32)
    have lv: "live s' = live s"
      using r(4,6) wk(2) by (auto simp: live_def fun_eq_iff)
    show thesis
    proof (rule that [OF t r(5) e(1) _ lv])
      show "unat (current_task s') = ?i" using ui ii by (simp only:)
      show "state s' j = TASK_STATE_SLEEP" if "unat (current_task s') \<noteq> j"
        using that ui wj r(4) by simp
    qed (simp_all add: s'_def context_switch_def Let_def sched_leave_frame woken_frame)
  qed
qed

lemma round_robin_from:
  assumes "run_ok (MAX_TASK_COUNT A) s" and "d < length (live_slots (MAX_TASK_COUNT A) s) - 1"
    and "j = (ring_nxt s ^^ Suc d) (unat (current_task s))"
    and "state s j = TASK_STATE_SLEEP" "priority_cur s j = max_level s"
  shows "\<exists>k s'. k \<le> Suc d \<and> ticks A psp k s = Some s' \<and> unat (current_task s') = j \<and>
    run_ok (MAX_TASK_COUNT A) s'"
  using assms
proof (induction d arbitrary: s rule: less_induct)
  case (less d)
  let ?c = "unat (current_task s)"
  obtain s' e where t: "kernel_tick A psp s = Some s'" "run_ok (MAX_TASK_COUNT A) s'" "e \<le> d"
    and cur: "unat (current_task s') = (ring_nxt s ^^ Suc e) ?c" and fr: "live s' = live s" "jmp_list s' = jmp_list s"
    and st: "unat (current_task s') \<noteq> j \<Longrightarrow> state s' j = TASK_STATE_SLEEP"
    and pr: "priority_cur s' = priority_cur s" "max_level s' = max_level s"
    using tick_towards [OF less.prems(1) refl less.prems(2-5)] by metis
  show ?case
  proof (cases "unat (current_task s') = j")
    case True
    with t show ?thesis by (intro exI [of _ 1] exI [of _ s']) simp
  next
    case False
    then have "e \<noteq> d" using cur less.prems(3) by auto
    then have ed: "e < d" using t(3) by simp
    have nx: "ring_nxt s' = ring_nxt s" "live_slots (MAX_TASK_COUNT A) s' = live_slots (MAX_TASK_COUNT A) s"
      by (simp_all add: ring_nxt_def live_slots_def fr)
    have j: "j = (ring_nxt s' ^^ Suc (d - Suc e)) (unat (current_task s'))"
    proof -
      have "Suc d = Suc (d - Suc e) + Suc e" using ed by simp
      then have "(ring_nxt s ^^ Suc d) ?c = (ring_nxt s ^^ Suc (d - Suc e)) ((ring_nxt s ^^ Suc e) ?c)"
        by (metis comp_apply funpow_add)
      then show ?thesis unfolding nx cur less.prems(3) by (rule trans [OF _ refl])
    qed
    have "\<exists>k s''. k \<le> Suc (d - Suc e) \<and> ticks A psp k s' = Some s'' \<and> unat (current_task s'') = j \<and>
        run_ok (MAX_TASK_COUNT A) s''"
      by (rule less.IH [OF _ t(2) _ j]) (use ed less.prems(2,5) st [OF False] in \<open>simp_all add: nx pr\<close>)
    then obtain k s'' where "k \<le> Suc (d - Suc e)" "ticks A psp k s' = Some s''"
      "unat (current_task s'') = j" "run_ok (MAX_TASK_COUNT A) s''" by blast
    with t(1) ed show ?thesis by (intro exI [of _ "Suc k"] exI [of _ s'']) simp
  qed
qed

lemma ring_distance:
  assumes ring: "ring_ok n (live s) (jmp_list s)" and c: "c < n" "live s c"
    and j: "j < n" "live s j" "j \<noteq> c"
  obtains d where "d < length (live_slots n s) - 1" "j = (ring_nxt s ^^ Suc d) c"
proof -
  have "j \<in> set (ring_round n s c)" using ring_round_set(1) [OF ring c] j by auto
  moreover have "ring_round n s c = c # tl (ring_round n s c)"
    using ring_round_walk(2,3) [OF ring c] by (metis list.collapse)
  ultimately have "j \<in> set (tl (ring_round n s c))" using j(3) by (metis set_ConsD)
  then show thesis unfolding ring_tl [OF ring c] using that by (auto simp del: funpow.simps)
qed

end
