(* ===== verification/SchedProps.thy ===== *)
theory SchedProps
  imports SchedFair Demo
begin

text \<open>
  The properties of the scheduler, each with an instance on the small system of the
  theory Demo.
\<close>

lemma demo_sched_pre: "sched_pre (MAX_TASK_COUNT demo_arm) demo_state"
  using run_ok_sched_pre [OF demo_run_ok] by simp

section \<open>Function\<close>

text \<open>
  C6. The scheduler is its reference: it ends without leaving an array exactly when some task
  of the order \<^const>\<open>sched_order\<close> is ready after the due tasks have been woken, and then
  makes the first of them the next task.
\<close>

theorem scheduler_is_reference:
  assumes "sched_pre (MAX_TASK_COUNT A) s"
  shows "scheduler A s = map_option
    (\<lambda>(i, l). sched_leave A l ((woken A s)\<lparr>next_task := of_nat i\<rparr>)) (sched_pick A s)"
  using sched_preD [OF assms] by (rule scheduler_pick)

theorem scheduler_is_reference_witness:
  "scheduler demo_arm demo_state = map_option
    (\<lambda>(i, l). sched_leave demo_arm l ((woken demo_arm demo_state)\<lparr>next_task := of_nat i\<rparr>))
    (sched_pick demo_arm demo_state)"
  by (rule scheduler_is_reference [OF demo_sched_pre])

text \<open>
  C7. The first loop visits every slot in use exactly once and wakes exactly the tasks that
  hibernate and whose condition holds; no other state changes, and the level counts only
  move between active and hibernating.
\<close>

theorem hib_loop_wakes:
  assumes "ring_ok n (live s) (jmp_list s)" and "unat (next_task s) < n" and "live s (unat (next_task s))"
  shows "\<exists>s'. hib_loop n (ucast (next_task s)) s = Some s' \<and>
    (\<forall>i. state s' i = (if i < n \<and> live s i \<and> due s i then TASK_STATE_SLEEP else state s i)) \<and>
    alc s' + hlc s' = alc s + hlc s \<and> jmp_list s' = jmp_list s \<and> next_task s' = next_task s \<and>
    priority_cur s' = priority_cur s \<and> mcu s' = mcu s"
proof -
  note rr = ring_round_set [OF assms]
  show ?thesis
    using hib_loop_round [OF assms] fold_hib_state [OF rr(2)] rr(1)
    by (simp add: fold_hib_frame)
qed

theorem hib_loop_wakes_witness:
  "\<exists>s'. hib_loop 4 0 demo_state = Some s' \<and> state s' 1 = TASK_STATE_SLEEP"
proof -
  have "unat (next_task demo_state) < 4" "live demo_state (unat (next_task demo_state))"
    by (simp_all add: demo_fields live_def)
  from hib_loop_wakes [OF demo_ring this] obtain s' where
    "hib_loop 4 (ucast (next_task demo_state)) demo_state = Some s'"
    "\<forall>i. state s' i = (if i < 4 \<and> live demo_state i \<and> due demo_state i then TASK_STATE_SLEEP
       else state demo_state i)" by blast
  then show ?thesis by (intro exI [of _ s']) (simp add: demo_fields)
qed

section \<open>Safety\<close>

text \<open>
  C8. A tick (scheduler and context switch) keeps the kernel's invariants and leaves exactly one
  active task, the current one, which was ready or woken before.
\<close>

theorem tick_one_active:
  assumes "sched_pre (MAX_TASK_COUNT A) s" and "kernel_tick A psp s = Some s'"
  shows "run_ok (MAX_TASK_COUNT A) s' \<and> live s' = live s \<and>
    (\<forall>i < MAX_TASK_COUNT A. state s' i = TASK_STATE_ACTIVE \<longleftrightarrow> i = unat (current_task s')) \<and>
    state (woken A s) (unat (current_task s')) = TASK_STATE_SLEEP"
proof (rule tick_result [OF assms])
  fix i l
  assume r: "i < MAX_TASK_COUNT A" "ready (woken A s) l i" "current_task s' = of_nat i"
    "state s' = (state (woken A s))(i := TASK_STATE_ACTIVE)" "run_ok (MAX_TASK_COUNT A) s'" "live s i"
  have "MAX_TASK_COUNT A \<le> 120" using sched_preD(1) [OF assms(1)] by (rule ring_ok_bound)
  then have "unat (current_task s') = i" using r(1,3) by (simp add: unat_of_nat_u32)
  moreover have "live s' = live s"
    using r(4,6) woken_kernel_ok(2) [OF assms(1)] by (auto simp: live_def fun_eq_iff)
  ultimately show ?thesis using r(2,5) by (simp add: run_ok_def ready_def)
qed

lemma demo_round: "ring_round 4 demo_state 0 = [0, 1]"
  by (simp add: ring_round_def live_slots_def demo_live upt4 ring_nxt_def jmp_nxt_def upt_rec)
    (simp add: demo_fields)

lemma demo_woken: "state (woken demo_arm demo_state) = (\<lambda>_. TASK_STATE_IDLE)(0 := TASK_STATE_SLEEP, 1 := TASK_STATE_SLEEP)"
  using woken_state [OF demo_sched_pre]
  by (auto simp: fun_eq_iff entered_state due_def demo_fields Let_def)

lemma demo_pick: "sched_pick demo_arm demo_state = Some (1, 5)"
proof -
  have lv: "live (woken demo_arm demo_state) = live demo_state"
    by (rule woken_kernel_ok [OF demo_sched_pre])
  then have "ring_round 4 (woken demo_arm demo_state) 0 = [0, 1]"
    using demo_round by (simp add: ring_round_def live_slots_def ring_nxt_def woken_frame(1))
  then show ?thesis
    by (simp add: sched_pick_def sched_order_def round_at_def is_ready_def ready_def demo_woken
        woken_frame demo_fields)
qed

lemma demo_tick: "\<exists>s'. kernel_tick demo_arm psp demo_state = Some s' \<and> current_task s' = 1"
  using scheduler_pick [OF sched_preD [OF demo_sched_pre]]
  by (simp add: kernel_tick_def demo_pick context_switch_def Let_def sched_leave_frame)

theorem tick_one_active_witness:
  "\<exists>s'. kernel_tick demo_arm 0 demo_state = Some s' \<and> run_ok 4 s' \<and> current_task s' = 1"
proof -
  obtain s' where t: "kernel_tick demo_arm 0 demo_state = Some s'" "current_task s' = 1"
    using demo_tick by blast
  from tick_one_active [OF demo_sched_pre t(1)] t show ?thesis by simp
qed

text \<open>
  C9. The choice of a tick: the new current task was ready or woken, and it has the highest
  priority among the tasks that were, when the interrupted task is not counted if it is itself at the highest level. That
  task is passed over in favour of lower levels when no other task of the highest level is ready: the
  search begins behind it and comes back to it only at the next lower level. When the
  interrupted task has a lower level or is not ready any more (it hibernates or holds), no
  ready task of a higher priority is passed over at all.
\<close>

theorem tick_highest_ready:
  assumes pre: "sched_pre (MAX_TASK_COUNT A) s" and tick: "kernel_tick A psp s = Some s'"
    and R: "R = {j. j < MAX_TASK_COUNT A \<and> state (woken A s) j = TASK_STATE_SLEEP}"
    and c: "c = unat (current_task s)" and c': "c' = unat (current_task s')"
  shows "c' \<in> R \<and> (\<forall>j \<in> R. priority_cur s j \<le> priority_cur s c' \<or> j = c \<and> priority_cur s c = max_level s) \<and>
    (priority_cur s c < max_level s \<or> c \<notin> R \<longrightarrow> (\<forall>j \<in> R. priority_cur s j \<le> priority_cur s c'))"
proof (rule tick_result [OF pre tick])
  let ?n = "MAX_TASK_COUNT A" and ?w = "woken A s"
  fix i l
  assume r: "sched_pick A s = Some (i, l)" "i < ?n" "ready ?w l i" "current_task s' = of_nat i"
  note p = sched_preD [OF pre]
  note wk = woken_kernel_ok [OF pre]
  have n: "?n \<le> 120" using p(1) by (rule ring_ok_bound)
  have i: "c' = i" using r(2,4) n by (simp add: c' unat_of_nat_u32)
  have l: "l = priority_cur s c'" using r(3) by (simp add: i ready_def woken_frame)
  have k: "ring_ok ?n (live ?w) (jmp_list ?w)" "stash_ok ?n ?w" "max_ok ?n ?w"
    using wk(1) by (auto simp: kernel_ok_def kinv_def)
  have above: "j = c \<and> priority_cur s j = max_level s" if j: "j \<in> R" "\<not> priority_cur s j \<le> priority_cur s c'" for j
  proof -
    have "j = c \<and> priority_cur ?w j = max_level ?w"
    proof (rule pick_highest [OF k(1) p(3) _ k(2,3), folded c])
      show "find (is_ready ?w) (sched_order ?n ?w c) = Some (i, l)"
        using r(1) by (simp add: sched_pick_def c)
      show "live ?w c" using p(4) by (simp only: wk(2) c)
      show "live ?w j" using j R by (simp add: live_def)
    qed (use j l R in \<open>simp_all add: woken_frame\<close>)
    then show ?thesis unfolding woken_frame .
  qed
  have "c' \<in> R" using r(2,3) by (simp add: R i ready_def)
  with above show ?thesis by fastforce
qed

lemma demo_next_pre: "sched_pre (MAX_TASK_COUNT demo_arm) demo_next"
  using run_ok_sched_pre [OF demo_next_run_ok] by simp

lemma demo_next_woken:
  "state (woken demo_arm demo_next) = (\<lambda>_. TASK_STATE_IDLE)(0 := TASK_STATE_SLEEP, 1 := TASK_STATE_SLEEP)"
  using woken_state [OF demo_next_pre]
  by (auto simp: fun_eq_iff entered_state due_def demo_next_fields Let_def)

lemma demo_next_pick: "sched_pick demo_arm demo_next = Some (0, 0)"
proof -
  have lv: "live (woken demo_arm demo_next) = live demo_state"
    using woken_kernel_ok [OF demo_next_pre] demo_next_live by simp
  have "ring_round 4 (woken demo_arm demo_next) 1 = [1, 0]"
    by (simp add: ring_round_def live_slots_def ring_nxt_def jmp_nxt_def woken_frame(1) demo_next_fields
        lv demo_live upt4 upt_rec) (simp add: demo_fields)
  then show ?thesis
    by (simp add: sched_pick_def sched_order_def round_at_def is_ready_def ready_def demo_next_woken
        woken_frame demo_next_fields demo_fields lower_levels_def)
qed

lemma demo_next_tick: "\<exists>s'. kernel_tick demo_arm psp demo_next = Some s' \<and> current_task s' = 0"
  using scheduler_pick [OF sched_preD [OF demo_next_pre]]
  by (simp add: kernel_tick_def demo_next_pick context_switch_def Let_def sched_leave_frame)

text \<open>Two instances: the base task is interrupted, and the task of the highest level is.\<close>

theorem tick_highest_ready_witness:
  "(\<exists>s'. kernel_tick demo_arm 0 demo_state = Some s' \<and> current_task s' = 1 \<and>
     (\<forall>j < 4. state (woken demo_arm demo_state) j = TASK_STATE_SLEEP \<longrightarrow> priority_cur demo_state j \<le> 5)) \<and>
   (\<exists>s'. kernel_tick demo_arm 0 demo_next = Some s' \<and> current_task s' = 0)"
proof -
  obtain s' where t: "kernel_tick demo_arm 0 demo_state = Some s'" "current_task s' = 1"
    using demo_tick by blast
  have "\<forall>j < 4. state (woken demo_arm demo_state) j = TASK_STATE_SLEEP \<longrightarrow> priority_cur demo_state j \<le> 5"
    using tick_highest_ready [OF demo_sched_pre t(1) refl refl refl] by (simp add: t(2) demo_fields)
  with t demo_next_tick show ?thesis by blast
qed

section \<open>Liveness\<close>

text \<open>
  C10. The scheduler always finds a task, and the tick returns, when the base task is ready or
  is the task that was interrupted, and the stash has a level besides that of the
  base task.
\<close>

theorem tick_returns:
  assumes "sched_pre (MAX_TASK_COUNT A) s" and "priority_cur s 0 = 0"
    and "state s 0 = TASK_STATE_SLEEP \<or> current_task s = 0 \<and> normal_schedule s"
    and "1 < unat (lstash_ptr s)"
  shows "\<exists>s'. kernel_tick A psp s = Some s'"
  by (rule tick_exists [OF assms])

theorem tick_returns_witness: "\<exists>s'. kernel_tick demo_arm 0 demo_state = Some s'"
  by (rule tick_returns [OF demo_sched_pre]) (simp_all add: demo_fields)

text \<open>
  C11. Round robin: a task that is ready at the highest level and does not run yet is the
  current one after at most as many ticks as there are task slots, whatever the other tasks
  at that level do.
\<close>

theorem round_robin:
  assumes run: "run_ok (MAX_TASK_COUNT A) s" and j: "j < MAX_TASK_COUNT A"
    "state s j = TASK_STATE_SLEEP" "priority_cur s j = max_level s"
  shows "\<exists>k s'. k \<le> MAX_TASK_COUNT A \<and> ticks A psp k s = Some s' \<and>
    unat (current_task s') = j \<and> state s' j = TASK_STATE_ACTIVE"
proof -
  let ?n = "MAX_TASK_COUNT A" and ?c = "unat (current_task s)"
  note p = sched_preD [OF run_ok_sched_pre [OF run]]
  have act: "state s ?c = TASK_STATE_ACTIVE" using run by (auto simp: run_ok_def)
  have jc: "j \<noteq> ?c"
  proof
    assume "j = ?c"
    with act j(2) show False by simp
  qed
  have jl: "live s j" using j(2) by (simp add: live_def)
  obtain d where d: "d < length (live_slots ?n s) - 1" "j = (ring_nxt s ^^ Suc d) ?c"
    by (rule ring_distance [OF p(1,3,4) j(1) jl jc])
  have "length (live_slots ?n s) \<le> ?n"
    unfolding live_slots_def using length_filter_le [of "live s" "[0..<?n]"] by simp
  then have dn: "Suc d \<le> ?n" using d(1) by linarith
  obtain k s' where "k \<le> Suc d" "ticks A psp k s = Some s'" "unat (current_task s') = j" "run_ok ?n s'"
    using round_robin_from [OF run d j(2,3)] by blast
  with dn j(1) show ?thesis by (intro exI [of _ k] exI [of _ s']) (auto simp: run_ok_def)
qed

theorem round_robin_witness:
  "\<exists>k s'. k \<le> 4 \<and> ticks demo_arm 0 k demo_state = Some s' \<and> unat (current_task s') = 1"
  using round_robin [of demo_arm demo_state 1 0, unfolded demo_max, OF demo_run_ok]
  by (auto simp: demo_fields)

end
