(* ===== verification/SvcTable.thy ===== *)
theory SvcTable
  imports KernelSvc
begin

text \<open>
  The dispatch table of \<^verbatim>\<open>src/svctable.c\<close> and the supervisor call handlers that
  run it: the loop of \<^verbatim>\<open>src/arch/arm-m3m4/svc_handler.S\<close>, and the handler of the
  simulator in \<^verbatim>\<open>src/arch/ossim/svc_handler.c\<close>.
\<close>

section \<open>The table\<close>

text \<open>
  In the order of the source. The entries for the heap and the user MPU regions are
  commented out there; the last entry, with code 0, has no service.
\<close>

definition svc_dispatch :: "(u32 \<times> svc_service) list" where
  "svc_dispatch = [
     (HAND_OVER, svc_service_hand_over),
     (HIBERNATE, svc_service_hibernate),
     (PRIORITY_PROMOTE, svc_service_priority_promote),
     (PRIORITY_DEMOTE, svc_service_priority_demote),
     (HWREG_WRITE, svc_service_hwreg_write),
     (HWREG_READ, svc_service_hwreg_read),
     (CREATE_TASK, svc_service_task_create),
     (KILL_TASK, svc_service_task_kill),
     (INVOKE_BASE, svc_service_invoke_base),
     (RELEASE_BASE, svc_service_release_base),
     (GRANT_PERMISSION, svc_service_grant_permission),
     (INT_ENABLE, svc_service_int_enable),
     (INT_DISABLE, svc_service_int_disable),
     (INT_REGISTER, svc_service_int_register),
     (SET_PRIORITY, svc_service_int_set_priority),
     (CPU_FREQ, svc_service_cpu_freq_update),
     (START_SCHEDULER, svc_service_start_scheduler),
     (DEVICE_RESET, svc_service_device_reset)]"

section \<open>The handlers\<close>

text \<open>
  ARM (\<open>svc_cycle\<close> to \<open>skip_check\<close>): the service for the code is run until it leaves
  the code as it was; \<open>slot\<close> is the address of the code on the kernel stack, which is
  what \<open>R0\<close> holds, and the caller receives, when the table has no entry for the code.
\<close>

partial_function (option) svc_handler ::
  "port \<Rightarrow> u32 \<Rightarrow> u32 \<Rightarrow> svc_args \<Rightarrow> kstate \<Rightarrow> (u32 \<times> kstate) option" where
  "svc_handler A slot code arguments s =
     (case map_of svc_dispatch code of
        None \<Rightarrow> Some (slot, s)
      | Some svc_service \<Rightarrow> do {
          (r, code', arguments', s') \<leftarrow> svc_service A code arguments s;
          (if code' = code then Some (r, s') else svc_handler A slot code' arguments' s')
        })"

text \<open>
  The simulator: its loop searches \<open>TOTAL_SVC_COUNT\<close> entries, the last one included,
  so a request with code 0 calls a null pointer; the result has 8 bits, and \<open>garbage\<close>
  stands for its value before any service has set it.
\<close>

partial_function (option) ossim_svc_handler ::
  "port \<Rightarrow> u8 \<Rightarrow> u32 \<Rightarrow> svc_args \<Rightarrow> kstate \<Rightarrow> (u8 \<times> kstate) option" where
  "ossim_svc_handler A garbage code arguments s =
     (case map_of svc_dispatch code of
        None \<Rightarrow> (if code = 0 then None else Some (garbage, s))
      | Some svc_service \<Rightarrow> do {
          (r, code', arguments', s') \<leftarrow> svc_service A code arguments s;
          (if code' = code then Some (ucast r, s')
           else ossim_svc_handler A (ucast r) code' arguments' s')
        })"

end
