(* ===== verification/SvcInv.thy ===== *)
theory SvcInv
  imports SvcTable ArmPort TaskInv
begin

text \<open>
  The supervisor calls as a whole: the chain of services that one call runs is finite, the
  services that need a permission refuse without it, and what a call can do to the
  permissions.
\<close>

section \<open>Ports that only mark the scheduler as pending\<close>

text \<open>
  On ARM and in the simulator \<open>TRIGGER_SCHEDULER\<close> requests the scheduler, which runs when the
  service has returned.
\<close>

locale pending_port = kernel_port +
  fixes trig :: "mcu \<Rightarrow> mcu"
  assumes trigger_pending: "TRIGGER_SCHEDULER A s = Some (on_mcu trig s)"

interpretation armp: pending_port "arm_port P" arm_TRIGGER_SCHEDULER for P
  by unfold_locales simp

section \<open>The chain of services\<close>

text \<open>The rank of a code; a service that asks for another one asks for one of lower rank.\<close>

definition svc_rank :: "u32 \<Rightarrow> nat" where
  "svc_rank code = (if code = HAND_OVER \<or> code = PRIORITY_PROMOTE then 0
     else if code = PRIORITY_DEMOTE then 1 else 2)"

lemma svc_dispatch_cases:
  assumes "map_of svc_dispatch code = Some svc"
  shows "(code, svc) \<in> set svc_dispatch"
  using assms by (rule map_of_SomeD)

lemma create_code: "svc_service_task_create A c a s = Some (r, c', a', s') \<Longrightarrow> c' = c"
  by (auto simp: svc_service_task_create_def Let_def bind_eq_Some_conv split: if_splits)

lemma kill_code: "svc_service_task_kill A c a s = Some (r, c', a', s') \<Longrightarrow> c' = c \<or> c' = HAND_OVER"
  by (auto simp: svc_service_task_kill_def Let_def bind_eq_Some_conv split: if_splits)

lemma simple_codes:
  "svc_service_hibernate A c a s = Some (r, c', a', s') \<Longrightarrow> c' = c"
  "svc_service_priority_promote A c a s = Some (r, c', a', s') \<Longrightarrow> c' = c"
  "svc_service_priority_demote A c a s = Some (r, c', a', s') \<Longrightarrow> c' = HAND_OVER"
  "svc_service_hand_over A c a s = Some (r, c', a', s') \<Longrightarrow> c' = c"
  "svc_service_start_scheduler A c a s = Some (r, c', a', s') \<Longrightarrow> c' = HAND_OVER"
  "svc_service_cpu_freq_update A c a s = Some (r, c', a', s') \<Longrightarrow> c' = c"
  "svc_service_hwreg_write A c a s = Some (r, c', a', s') \<Longrightarrow> c' = c"
  "svc_service_hwreg_read A c a s = Some (r, c', a', s') \<Longrightarrow> c' = c"
  "svc_service_device_reset A c a s = Some (r, c', a', s') \<Longrightarrow> c' = c"
  "svc_service_invoke_base A c a s = Some (r, c', a', s') \<Longrightarrow> c' = c \<or> c' = PRIORITY_PROMOTE"
  "svc_service_release_base A c a s = Some (r, c', a', s') \<Longrightarrow> c' = c \<or> c' = PRIORITY_DEMOTE"
  "svc_service_grant_permission A c a s = Some (r, c', a', s') \<Longrightarrow> c' = c"
  "svc_service_int_enable A c a s = Some (r, c', a', s') \<Longrightarrow> c' = c"
  "svc_service_int_disable A c a s = Some (r, c', a', s') \<Longrightarrow> c' = c"
  "svc_service_int_set_priority A c a s = Some (r, c', a', s') \<Longrightarrow> c' = c"
  "svc_service_int_register A c a s = Some (r, c', a', s') \<Longrightarrow> c' = c"
  by (auto simp: svc_service_hibernate_def svc_service_priority_promote_def
      svc_service_priority_demote_def svc_service_hand_over_def svc_service_start_scheduler_def
      svc_service_cpu_freq_update_def svc_service_hwreg_write_def svc_service_hwreg_read_def
      svc_service_device_reset_def svc_service_invoke_base_def svc_service_release_base_def
      svc_service_grant_permission_def svc_service_int_enable_def svc_service_int_disable_def
      svc_service_int_set_priority_def svc_service_int_register_def
      Let_def bind_eq_Some_conv split: if_splits prod.splits)

lemmas svc_codes = create_code kill_code simple_codes

lemma chain_rank:
  assumes "map_of svc_dispatch code = Some svc" and "svc A code a s = Some (r, code', a', s')"
    and "code' \<noteq> code"
  shows "svc_rank code' < svc_rank code"
  using svc_dispatch_cases [OF assms(1)] assms(2,3)
  by (auto simp: svc_dispatch_def svc_rank_def dest: svc_codes)

text \<open>
  The rounds of the handler, at most \<open>k\<close> of them, with the outcomes kept apart: the call returns, a
  service does not (it leaves an array, or does not end), or a further service is due after \<open>k\<close> rounds.
\<close>

datatype svc_outcome = Returned u32 kstate | Failed | Pending u32 svc_args kstate

primrec svc_rounds :: "nat \<Rightarrow> port \<Rightarrow> u32 \<Rightarrow> u32 \<Rightarrow> svc_args \<Rightarrow> kstate \<Rightarrow> svc_outcome" where
  "svc_rounds 0 A slot code arguments s = Pending code arguments s"
| "svc_rounds (Suc k) A slot code arguments s =
     (case map_of svc_dispatch code of
        None \<Rightarrow> Returned slot s
      | Some svc_service \<Rightarrow>
         (case svc_service A code arguments s of
            None \<Rightarrow> Failed
          | Some (r, code', arguments', s') \<Rightarrow>
             (if code' = code then Returned r s' else svc_rounds k A slot code' arguments' s')))"

definition svc_result :: "svc_outcome \<Rightarrow> (u32 \<times> kstate) option" where
  "svc_result x = (case x of Returned r s \<Rightarrow> Some (r, s) | _ \<Rightarrow> None)"

text \<open>The result alone, as the proofs about single calls use it.\<close>

definition svc_run :: "nat \<Rightarrow> port \<Rightarrow> u32 \<Rightarrow> u32 \<Rightarrow> svc_args \<Rightarrow> kstate \<Rightarrow> (u32 \<times> kstate) option" where
  "svc_run k A slot code arguments s = svc_result (svc_rounds k A slot code arguments s)"

lemma svc_run_simps [simp]:
  "svc_run 0 A slot code arguments s = None"
  "svc_run (Suc k) A slot code arguments s =
     (case map_of svc_dispatch code of
        None \<Rightarrow> Some (slot, s)
      | Some svc_service \<Rightarrow> do {
          (r, code', arguments', s') \<leftarrow> svc_service A code arguments s;
          (if code' = code then Some (r, s') else svc_run k A slot code' arguments' s')
        })"
  by (auto simp: svc_run_def svc_result_def split: option.split)

text \<open>A call whose code has a rank below \<open>k\<close> needs no more than \<open>k\<close> rounds.\<close>

lemma svc_rounds_done:
  assumes "svc_rank code < k"
  shows "svc_rounds k A slot code arguments s \<noteq> Pending c a s'"
  using assms
proof (induction k arbitrary: code arguments s)
  case (Suc k)
  show ?case
  proof (cases "map_of svc_dispatch code")
    case (Some svc)
    have "svc_rounds k A slot code' arguments' t \<noteq> Pending c a s'"
      if "svc A code arguments s = Some (r, code', arguments', t)" "code' \<noteq> code" for r code' arguments' t
      using chain_rank [OF Some that] Suc by (intro Suc.IH) simp
    with Some show ?thesis by (auto split: option.split)
  qed simp
qed simp

lemma svc_handler_run:
  assumes "svc_rank code < k"
  shows "svc_handler A slot code arguments s = svc_run k A slot code arguments s"
  using assms
proof (induction k arbitrary: code arguments s)
  case (Suc k)
  show ?case
  proof (cases "map_of svc_dispatch code")
    case None
    then show ?thesis by (subst svc_handler.simps) simp
  next
    case (Some svc)
    show ?thesis
    proof (cases "svc A code arguments s")
      case None
      with Some show ?thesis by (subst svc_handler.simps) simp
    next
      case (Some res)
      obtain r code' arguments' s' where res: "res = (r, code', arguments', s')"
        by (metis prod_cases4)
      have "svc_handler A slot code' arguments' s' = svc_run k A slot code' arguments' s'"
        if "code' \<noteq> code"
        using chain_rank [OF \<open>map_of svc_dispatch code = Some svc\<close> Some [unfolded res] that] Suc
        by (intro Suc.IH) simp
      with \<open>map_of svc_dispatch code = Some svc\<close> Some res show ?thesis
        by (subst svc_handler.simps) simp
    qed
  qed
qed simp

section \<open>Services that need a permission\<close>

text \<open>
  The contract of a guarded service: it is in the table under its code, and without the
  permission it refuses and changes nothing. A supervisor call for it then does the same.
\<close>

locale guarded_service =
  fixes code :: u32 and svc :: svc_service and perm :: nat
  assumes entry: "map_of svc_dispatch code = Some svc"
    and refuses: "unat (current_task s) < MAX_TASK_COUNT A \<Longrightarrow>
      permissions s (unat (current_task s)) AND push_bit perm 1 \<noteq> push_bit perm 1 \<Longrightarrow>
      svc A code a s = Some (ERROR_INSUFFICIENT_PERMISSION, code, a, s)"
begin

lemma call_refused:
  assumes "unat (current_task s) < MAX_TASK_COUNT A"
    and "permissions s (unat (current_task s)) AND push_bit perm 1 \<noteq> push_bit perm 1"
  shows "svc_handler A slot code a s = Some (ERROR_INSUFFICIENT_PERMISSION, s)"
  using refuses [OF assms, of a] entry by (subst svc_handler.simps) simp

end

interpretation hw_write: guarded_service HWREG_WRITE svc_service_hwreg_write PERMISSION_HWREG
  by unfold_locales (simp_all add: svc_dispatch_def svc_service_hwreg_write_def permitted_def)

interpretation hw_read: guarded_service HWREG_READ svc_service_hwreg_read PERMISSION_HWREG
  by unfold_locales (simp_all add: svc_dispatch_def svc_service_hwreg_read_def permitted_def)

interpretation int_en: guarded_service INT_ENABLE svc_service_int_enable PERMISSION_INTCTRL
  by unfold_locales (simp_all add: svc_dispatch_def svc_service_int_enable_def permitted_def)

interpretation int_dis: guarded_service INT_DISABLE svc_service_int_disable PERMISSION_INTCTRL
  by unfold_locales (simp_all add: svc_dispatch_def svc_service_int_disable_def permitted_def)

interpretation int_prio: guarded_service SET_PRIORITY svc_service_int_set_priority PERMISSION_INTCTRL
  by unfold_locales (simp_all add: svc_dispatch_def svc_service_int_set_priority_def permitted_def)

interpretation int_reg: guarded_service INT_REGISTER svc_service_int_register PERMISSION_INTCTRL
  by unfold_locales (simp_all add: svc_dispatch_def svc_service_int_register_def permitted_def)

lemmas guarded_refused = hw_write.call_refused hw_read.call_refused int_en.call_refused
  int_dis.call_refused int_prio.call_refused int_reg.call_refused

section \<open>What a call does to the permissions\<close>

text \<open>\<open>perm_kept s s'\<close>: the caller is the same and no task but the base task has gained a permission.\<close>

definition perm_kept :: "kstate \<Rightarrow> kstate \<Rightarrow> bool" where
  "perm_kept s s' \<longleftrightarrow> current_task s' = current_task s \<and>
     (\<forall>i > 0. permissions s' i = permissions s i \<or> permissions s' i = 0)"

lemma perm_keptI:
  "current_task s' = current_task s \<Longrightarrow> permissions s' = permissions s \<Longrightarrow> perm_kept s s'"
  by (simp add: perm_kept_def)

lemma perm_kept_trans: "perm_kept s s' \<Longrightarrow> perm_kept s' s'' \<Longrightarrow> perm_kept s s''"
  unfolding perm_kept_def by metis

lemma create_register_perm:
  "permissions (create_register i obj s) = permissions s"
  "current_task (create_register i obj s) = current_task s"
  by (simp_all add: create_register_def Let_def)

lemma create_levels_perm:
  "create_levels n i s = Some s' \<Longrightarrow> permissions s' = permissions s \<and> current_task s' = current_task s"
  by (auto simp: create_levels_def bind_eq_Some_conv)

lemma kill_levels_perm:
  "kill_levels n i s = Some s' \<Longrightarrow> permissions s' = permissions s \<and> current_task s' = current_task s"
  by (auto simp: kill_levels_def bind_eq_Some_conv split: if_splits)

lemma kill_table_perm:
  "kill_table i s = Some s' \<Longrightarrow> permissions s' = permissions s \<and> current_task s' = current_task s"
  by (auto simp: kill_table_def Let_def bind_eq_Some_conv)

lemma kill_jmp_perm:
  "permissions (kill_jmp i s) = permissions s" "current_task (kill_jmp i s) = current_task s"
  by (simp_all add: kill_jmp_def Let_def)

lemma kill_perm: "svc_service_task_kill A c a s = Some (r, c', a', s') \<Longrightarrow> perm_kept s s'"
  by (rule perm_keptI)
    (auto simp: svc_service_task_kill_def Let_def bind_eq_Some_conv kframe kill_jmp_perm
      dest!: kill_levels_perm kill_table_perm)

lemma set_obj_error_perm:
  "permissions (set_obj_error e obj s) = permissions s" "current_task (set_obj_error e obj s) = current_task s"
  by (simp_all add: set_obj_error_def)

lemma start_perms:
  "fold (\<lambda>i perms. perms(i := 0)) [Suc 0..<n] (f :: nat \<Rightarrow> u16) j = (if 1 \<le> j \<and> j < n then 0 else f j)"
proof (induction n)
  case (Suc n)
  show ?case
  proof (cases "1 \<le> n")
    case True
    with Suc show ?thesis by (auto simp: less_Suc_eq)
  qed auto
qed simp

context pending_port
begin

lemma create_perm: "svc_service_task_create A c a s = Some (r, c', a', s') \<Longrightarrow> perm_kept s s'"
  by (rule perm_keptI)
    (auto simp: svc_service_task_create_def Let_def bind_eq_Some_conv kframe create_register_perm
      stack_init_fields set_obj_error_perm split: if_splits dest!: create_levels_perm)

lemma port_perm:
  "permissions (btask_psp_correction A s) = permissions s"
  "current_task (btask_psp_correction A s) = current_task s"
  "permissions (snd (os_timer_config A f s)) = permissions s"
  "current_task (snd (os_timer_config A f s)) = current_task s"
  by (subst psp_correction_frame, simp)+ (subst timer_config_frame, simp)+

lemma start_perm: "svc_service_start_scheduler A c a s = Some (r, c', a', s') \<Longrightarrow> perm_kept s s'"
  by (auto simp: svc_service_start_scheduler_def perm_kept_def Let_def start_perms
      bind_eq_Some_conv port_perm)

lemma freq_perm: "svc_service_cpu_freq_update A c a s = Some (r, c', a', s') \<Longrightarrow> perm_kept s s'"
  using port_perm(3,4) [of "a 0" s]
  by (intro perm_keptI) (auto simp: svc_service_cpu_freq_update_def split: prod.splits)

lemma simple_perms:
  "svc_service_hibernate A c a s = Some (r, c', a', s') \<Longrightarrow> perm_kept s s'"
  "svc_service_priority_promote A c a s = Some (r, c', a', s') \<Longrightarrow> perm_kept s s'"
  "svc_service_priority_demote A c a s = Some (r, c', a', s') \<Longrightarrow> perm_kept s s'"
  "svc_service_hand_over A c a s = Some (r, c', a', s') \<Longrightarrow> perm_kept s s'"
  "svc_service_hwreg_write A c a s = Some (r, c', a', s') \<Longrightarrow> perm_kept s s'"
  "svc_service_hwreg_read A c a s = Some (r, c', a', s') \<Longrightarrow> perm_kept s s'"
  "svc_service_device_reset A c a s = Some (r, c', a', s') \<Longrightarrow> perm_kept s s'"
  "svc_service_invoke_base A c a s = Some (r, c', a', s') \<Longrightarrow> perm_kept s s'"
  "svc_service_release_base A c a s = Some (r, c', a', s') \<Longrightarrow> perm_kept s s'"
  "svc_service_int_enable A c a s = Some (r, c', a', s') \<Longrightarrow> perm_kept s s'"
  "svc_service_int_disable A c a s = Some (r, c', a', s') \<Longrightarrow> perm_kept s s'"
  "svc_service_int_set_priority A c a s = Some (r, c', a', s') \<Longrightarrow> perm_kept s s'"
  "svc_service_int_register A c a s = Some (r, c', a', s') \<Longrightarrow> perm_kept s s'"
  "current_task s \<noteq> 0 \<Longrightarrow> svc_service_grant_permission A c a s = Some (r, c', a', s') \<Longrightarrow> perm_kept s s'"
  by (rule perm_keptI;
      auto simp: svc_service_hibernate_def svc_service_priority_promote_def
      svc_service_priority_demote_def svc_service_hand_over_def promote_level_def demote_level_def
      release_holder_def svc_service_hwreg_write_def svc_service_hwreg_read_def
      svc_service_device_reset_def svc_service_invoke_base_def svc_service_release_base_def
      svc_service_grant_permission_def svc_service_int_enable_def svc_service_int_disable_def
      svc_service_int_set_priority_def svc_service_int_register_def trigger_pending
      Let_def bind_eq_Some_conv split: if_splits)+

lemmas svc_perms = create_perm kill_perm start_perm freq_perm simple_perms

lemma call_perm:
  assumes "current_task s \<noteq> 0" and "svc_run k A slot code a s = Some (r, s')"
  shows "perm_kept s s'"
  using assms
proof (induction k arbitrary: code a s)
  case (Suc k)
  show ?case
  proof (cases "map_of svc_dispatch code")
    case None
    with Suc.prems show ?thesis by (simp add: perm_kept_def)
  next
    case (Some svc)
    then obtain r1 code' a' s1 where call: "svc A code a s = Some (r1, code', a', s1)"
      and rest: "(if code' = code then Some (r1, s1) else svc_run k A slot code' a' s1) = Some (r, s')"
      using Suc.prems(2) by (auto simp: bind_eq_Some_conv)
    have one: "perm_kept s s1"
      using svc_dispatch_cases [OF Some] call Suc.prems(1)
      by (auto simp: svc_dispatch_def dest: svc_perms)
    show ?thesis
    proof (cases "code' = code")
      case True
      with rest one show ?thesis by simp
    next
      case False
      have "current_task s1 \<noteq> 0" using one Suc.prems(1) by (simp add: perm_kept_def)
      with False rest Suc.IH have "perm_kept s1 s'" by simp
      with one show ?thesis by (rule perm_kept_trans)
    qed
  qed
qed simp

end

end
