(* ===== verification/SvcProps.thy ===== *)
theory SvcProps
  imports SvcInv Demo
begin

text \<open>
  The properties of the supervisor calls: termination of the dispatch, permissions, register
  access and priority inheritance.
\<close>

section \<open>Dispatch\<close>

text \<open>
  C12. A supervisor call runs at most three services, whatever the code, the arguments and the state:
  after three rounds no further service is due, because a service that asks for another one asks for one of
  lower rank. So the handler returns exactly when none of these services gets stuck, and with the result of
  the last one.
\<close>

theorem svc_call_at_most_three:
  "(\<forall>c a s'. svc_rounds 3 A slot code arguments s \<noteq> Pending c a s') \<and>
   svc_handler A slot code arguments s = (case svc_rounds 3 A slot code arguments s of
     Returned r s' \<Rightarrow> Some (r, s') | Failed \<Rightarrow> None | Pending c a s' \<Rightarrow> None)"
proof -
  have "svc_handler A slot code arguments s = svc_result (svc_rounds 3 A slot code arguments s)"
    by (subst svc_handler_run [of _ 3]) (simp_all add: svc_run_def svc_rank_def)
  moreover have "svc_rank code < 3" by (simp add: svc_rank_def)
  ultimately show ?thesis using svc_rounds_done by (simp add: svc_result_def split: svc_outcome.split)
qed

section \<open>Permissions\<close>

text \<open>
  C13. Calls that access device registers or the interrupt controller are refused to a task
  without the permission, and then change nothing at all.
\<close>

theorem guarded_call_refused:
  assumes "unat (current_task s) < MAX_TASK_COUNT A"
    and "(code, perm) \<in> {(HWREG_WRITE, PERMISSION_HWREG), (HWREG_READ, PERMISSION_HWREG),
      (INT_ENABLE, PERMISSION_INTCTRL), (INT_DISABLE, PERMISSION_INTCTRL),
      (SET_PRIORITY, PERMISSION_INTCTRL), (INT_REGISTER, PERMISSION_INTCTRL)}"
    and "permissions s (unat (current_task s)) AND push_bit perm 1 \<noteq> push_bit perm 1"
  shows "svc_handler A slot code arguments s = Some (ERROR_INSUFFICIENT_PERMISSION, s)"
  using assms by (auto intro: guarded_refused)

theorem guarded_call_refused_witness:
  "svc_handler demo_arm 0x20000ff8 HWREG_WRITE (\<lambda>_. 0) demo_next =
     Some (ERROR_INSUFFICIENT_PERMISSION, demo_next)"
  by (rule guarded_call_refused [of _ _ _ PERMISSION_HWREG]) (simp_all add: demo_next_fields demo_fields)




text \<open>
  The base task grants: the permissions of the task with that identifier become exactly the
  requested ones, no other slot changes, and an identifier that is in no slot is reported.
\<close>

theorem grant_by_base:
  assumes "current_task s = 0" and "kinv (MAX_TASK_COUNT A) s"
    and "i < MAX_TASK_COUNT A" and "live s i" and "arguments 0 = task_id s i"
  shows "svc_handler A slot GRANT_PERMISSION arguments s =
    Some (ERROR_NONE, s\<lparr>permissions := (permissions s)(i := ucast (arguments 1))\<rparr>)"
proof -
  have "first_idx (\<lambda>j. task_id s j = arguments 0) (MAX_TASK_COUNT A) = i"
    unfolding assms(5) by (rule task_id_first [OF assms(2-4)])
  with assms(1,3) show ?thesis
    by (subst svc_handler.simps) (simp add: svc_dispatch_def svc_service_grant_permission_def)
qed

theorem grant_by_base_witness:
  "svc_handler demo_arm 0x20000ff8 GRANT_PERMISSION ((\<lambda>_. 0)(0 := 0x10002, 1 := 0x20)) demo_state =
     Some (ERROR_NONE, demo_state\<lparr>permissions := (permissions demo_state)(1 := 0x20)\<rparr>)"
proof -
  have "kinv (MAX_TASK_COUNT demo_arm) demo_state" using demo_kernel_ok by (simp add: kernel_ok_def)
  from grant_by_base [OF _ this, of 1 "(\<lambda>_. 0)(0 := 0x10002, 1 := 0x20)"]
  show ?thesis by (simp add: demo_live) (simp add: demo_fields)
qed

section \<open>Register access\<close>

text \<open>
  With the permission, a value written to a register is the value a read of that register
  delivers, and the kernel variables do not change.
\<close>

theorem hwreg_write_read:
  assumes "unat (current_task s) < MAX_TASK_COUNT A"
    and "permissions s (unat (current_task s)) AND push_bit PERMISSION_HWREG 1 = push_bit PERMISSION_HWREG 1"
    and "wr 0 = reg" "wr 1 = v" "rd 0 = reg" "rd 1 = dst"
  shows "\<exists>s1 s2. svc_handler A slot HWREG_WRITE wr s = Some (ERROR_NONE, s1) \<and>
    svc_handler A slot HWREG_READ rd s1 = Some (ERROR_NONE, s2) \<and>
    mem (mcu s2) dst = v \<and> s2 = s\<lparr>mcu := mcu s2\<rparr> \<and> objs (mcu s2) = objs (mcu s) \<and>
    (\<forall>a. a \<noteq> reg \<longrightarrow> a \<noteq> dst \<longrightarrow> mem (mcu s2) a = mem (mcu s) a)"
proof -
  define s1 where "s1 = on_mcu (hwreg_store reg v) s"
  define s2 where "s2 = on_mcu (mem_store dst (HWREG reg (mcu s1))) s1"
  have w: "svc_handler A slot HWREG_WRITE wr s = Some (ERROR_NONE, s1)"
    using assms by (subst svc_handler.simps)
      (simp add: svc_dispatch_def svc_service_hwreg_write_def permitted_def s1_def)
  have c1: "current_task s1 = current_task s" "permissions s1 = permissions s" by (simp_all add: s1_def)
  have r: "svc_handler A slot HWREG_READ rd s1 = Some (ERROR_NONE, s2)"
    using assms by (subst svc_handler.simps)
      (simp add: svc_dispatch_def svc_service_hwreg_read_def permitted_def s2_def c1)
  have m: "mcu s2 = mem_store dst v (hwreg_store reg v (mcu s))"
    by (simp add: s2_def s1_def HWREG_def hwreg_store_def)
  have "s2 = s\<lparr>mcu := mcu s2\<rparr>" by (simp add: s2_def s1_def on_mcu_def)
  with w r m show ?thesis
    by (intro exI [of _ s1] exI [of _ s2]) (simp add: mem_store_def hwreg_store_def)
qed

theorem hwreg_write_read_witness:
  "\<exists>s1 s2. svc_handler demo_arm 0x20000ff8 HWREG_WRITE ((\<lambda>_. 0)(0 := 0x40004000, 1 := 7)) demo_state =
      Some (ERROR_NONE, s1) \<and>
    svc_handler demo_arm 0x20000ff8 HWREG_READ ((\<lambda>_. 0)(0 := 0x40004000, 1 := 0x20002000)) s1 =
      Some (ERROR_NONE, s2) \<and> mem (mcu s2) 0x20002000 = 7"
proof -
  have c: "unat (current_task demo_state) < MAX_TASK_COUNT demo_arm"
    "permissions demo_state (unat (current_task demo_state)) AND push_bit PERMISSION_HWREG 1 = push_bit PERMISSION_HWREG 1"
    by (simp_all add: demo_fields)
  have "\<exists>s1 s2. svc_handler demo_arm 0x20000ff8 HWREG_WRITE ((\<lambda>_. 0)(0 := 0x40004000, 1 := 7)) demo_state =
      Some (ERROR_NONE, s1) \<and>
    svc_handler demo_arm 0x20000ff8 HWREG_READ ((\<lambda>_. 0)(0 := 0x40004000, 1 := 0x20002000)) s1 =
      Some (ERROR_NONE, s2) \<and> mem (mcu s2) 0x20002000 = 7 \<and> s2 = demo_state\<lparr>mcu := mcu s2\<rparr> \<and>
    objs (mcu s2) = objs (mcu demo_state) \<and>
    (\<forall>a. a \<noteq> 0x40004000 \<longrightarrow> a \<noteq> 0x20002000 \<longrightarrow> mem (mcu s2) a = mem (mcu demo_state) a)"
    by (rule hwreg_write_read [OF c]) simp_all
  then show ?thesis by blast
qed

section \<open>Priority inheritance\<close>

text \<open>
  C17. Promotion and demotion: a task that waits for a mutex is put on hold and the owner gets
  a level above all tasks; when the owner releases the mutex its priority, the highest level and
  the level counts are what they were, the waiting task is ready, and the release goes
  on with the hand-over service.
\<close>

theorem promote_demote_roundtrip:
  assumes port: "pending_port A trig" and c: "c = unat (current_task s)" "c < MAX_TASK_COUNT A"
    and lv: "maxp_level s = 127" and mutex: "arguments 0 = mutex"
    and w: "w = unat (drop_bit 16 (mem (mcu s) mutex))" "w < MAX_TASK_COUNT A" "w \<noteq> c"
    and free: "\<forall>i < MAX_TASK_COUNT A. state s i = TASK_STATE_HOLD \<longrightarrow> op1 s i \<noteq> mutex"
  shows "\<exists>s1 s2. svc_service_priority_promote A PRIORITY_PROMOTE arguments s =
      Some (ERROR_NONE, PRIORITY_PROMOTE, arguments, s1) \<and>
    max_level s1 = 128 \<and> priority_cur s1 w = 128 \<and> state s1 c = TASK_STATE_HOLD \<and>
    svc_service_priority_demote A PRIORITY_DEMOTE arguments' (s1\<lparr>current_task := of_nat w\<rparr>) =
      Some (ERROR_NONE, HAND_OVER, arguments', s2) \<and>
    priority_cur s2 = priority_cur s \<and> max_level s2 = max_level s \<and> maxp_level s2 = 127 \<and>
    alc s2 = alc s \<and> hlc s2 = hlc s \<and> state s2 = (state s)(c := TASK_STATE_SLEEP)"
proof -
  let ?n = "MAX_TASK_COUNT A"
  define p where "p = promote_level s"
  have p: "max_level p = 128" "maxp_level p = max_level s" "alcp p = alc s" "hlcp p = hlc s"
    "mcu p = mcu s" "current_task p = current_task s" "priority_cur p = priority_cur s"
    "state p = state s" "op1 p = op1 s"
    using lv by (simp_all add: p_def promote_level_def Let_def)
  define h where "h = p\<lparr>mutex_stash := (mutex_stash p)(w := mutex),
      priority_stash := (priority_stash p)(w := priority_cur p w),
      priority_cur := (priority_cur p)(w := max_level p),
      state := (state p)(c := TASK_STATE_HOLD), op1 := (op1 p)(c := mutex), normal_schedule := False\<rparr>"
  define s1 where "s1 = on_mcu trig h"
  have one: "svc_service_priority_promote A PRIORITY_PROMOTE arguments s =
      Some (ERROR_NONE, PRIORITY_PROMOTE, arguments, s1)"
    using c w by (simp add: svc_service_priority_promote_def Let_def p_def [symmetric] p mutex s1_def h_def
        pending_port.trigger_pending [OF port] del: One_nat_def)
  have f1: "max_level s1 = 128" "maxp_level s1 = max_level s" "alcp s1 = alc s" "hlcp s1 = hlc s"
    "priority_cur s1 = (priority_cur s)(w := 128)" "priority_stash s1 w = priority_cur s w"
    "state s1 = (state s)(c := TASK_STATE_HOLD)" "op1 s1 = (op1 s)(c := mutex)" "mutex_stash s1 w = mutex"
    by (simp_all add: s1_def h_def p on_mcu_def)
  define t where "t = s1\<lparr>current_task := of_nat w\<rparr>"
  have uw: "unat (current_task t) = w"
    unfolding t_def w(1) by (metis kstate.select_convs(1) kstate.surjective kstate.update_convs(1) of_nat_unat ucast_id)
  define d where "d = demote_level (t\<lparr>priority_cur := (priority_cur t)(w := priority_stash t w),
      priority_stash := (priority_stash t)(w := 0)\<rparr>)"
  have d: "max_level d = max_level s" "maxp_level d = 127" "alc d = alc s" "hlc d = hlc s"
    "priority_cur d = priority_cur s" "state d = (state s)(c := TASK_STATE_HOLD)"
    "op1 d = (op1 s)(c := mutex)" "mutex_stash d w = mutex"
    by (simp_all add: d_def t_def demote_level_def Let_def f1)
  have fi: "first_idx (\<lambda>i. state d i = TASK_STATE_HOLD \<and> op1 d i = mutex) ?n = c"
    using c(2) free by (intro first_idx_eqI) (auto simp: d)
  define r where "r = d\<lparr>state := (state d)(c := TASK_STATE_SLEEP)\<rparr>"
  have two: "svc_service_priority_demote A PRIORITY_DEMOTE arguments' t =
      Some (ERROR_NONE, HAND_OVER, arguments', r\<lparr>mutex_stash := (mutex_stash r)(w := 0)\<rparr>)"
    using w(2) c(2) fi
    by (simp add: svc_service_priority_demote_def uw Let_def d_def [symmetric] d(8) release_holder_def r_def)
  from one two show ?thesis
    unfolding t_def
    by (intro exI [of _ s1] exI [of _ "r\<lparr>mutex_stash := (mutex_stash r)(w := 0)\<rparr>"]) (simp add: f1 r_def d)
qed

theorem promote_demote_roundtrip_witness:
  "\<exists>s1 s2. svc_service_priority_promote demo_arm PRIORITY_PROMOTE (\<lambda>_. 0x2000) demo_next =
      Some (ERROR_NONE, PRIORITY_PROMOTE, \<lambda>_. 0x2000, s1) \<and> priority_cur s1 0 = 128 \<and>
    svc_service_priority_demote demo_arm PRIORITY_DEMOTE (\<lambda>_. 0) (s1\<lparr>current_task := 0\<rparr>) =
      Some (ERROR_NONE, HAND_OVER, \<lambda>_. 0, s2) \<and> max_level s2 = 5"
proof -
  have p: "pending_port demo_arm arm_TRIGGER_SCHEDULER"
    unfolding demo_arm_def by (rule armp.pending_port_axioms)
  have "maxp_level demo_next = 127" by (simp add: demo_next_def demo_state_def)
  then show ?thesis
    using promote_demote_roundtrip [OF p, where c = 1 and s = demo_next and arguments = "\<lambda>_. 0x2000"
        and mutex = "0x2000" and w = 0 and arguments' = "\<lambda>_. 0"]
    by (auto simp: demo_next_fields demo_mcu_def demo_fields(6) less4)
qed

end
