(* ===== verification/SvcMacros.thy ===== *)
theory SvcMacros
  imports SvcTable
begin

text \<open>
  The supervisor calls of the ARM port, one definition per macro of
  \<^verbatim>\<open>src/arch/arm-m3m4/svc_macros.h\<close>.

  \<open>call\<close> is the \<open>SVC\<close> instruction: from the service code and the argument registers to
  the result register and the state in which the caller goes on, which may be much later,
  after other tasks have run. \<open>regs\<close> are the argument registers before the macro has
  loaded the ones it sets. A macro that ends with \<open>GET_SVC_RETURN_CODE\<close> yields the result
  register, the others only the state.
\<close>

type_synonym supervisor = "u32 \<Rightarrow> svc_args \<Rightarrow> kstate \<Rightarrow> (u32 \<times> kstate) option"

definition svc_instr :: "u32 \<Rightarrow> supervisor \<Rightarrow> svc_args \<Rightarrow> kstate \<Rightarrow> kstate option" where
  "svc_instr code call regs s = map_option snd (call code regs s)"

definition GET_SVC_RETURN_CODE :: "(u32 \<times> kstate) option \<Rightarrow> (u32 \<times> kstate) option" where
  "GET_SVC_RETURN_CODE r = do { (R0, s) \<leftarrow> r; Some (R0, s) }"

definition SVC_CREATE_TASK_NO_ARG :: "supervisor \<Rightarrow> svc_args \<Rightarrow> u32 \<Rightarrow> kstate \<Rightarrow> kstate option" where
  "SVC_CREATE_TASK_NO_ARG call regs obj s = svc_instr CREATE_TASK call (regs(0 := obj, 1 := 0)) s"

definition SVC_CREATE_TASK_WITH_ARG :: "supervisor \<Rightarrow> svc_args \<Rightarrow> u32 \<Rightarrow> u32 \<Rightarrow> kstate \<Rightarrow> kstate option" where
  "SVC_CREATE_TASK_WITH_ARG call regs obj proc_arg s = svc_instr CREATE_TASK call (regs(0 := obj, 1 := proc_arg)) s"

definition SVC_KILL_TASK_DIRECT :: "supervisor \<Rightarrow> svc_args \<Rightarrow> u32 \<Rightarrow> kstate \<Rightarrow> kstate option" where
  "SVC_KILL_TASK_DIRECT call regs pid s = svc_instr KILL_TASK call (regs(0 := pid, 1 := 0)) s"

definition SVC_KILL_TASK_RESOLVE_END :: "supervisor \<Rightarrow> svc_args \<Rightarrow> u32 \<Rightarrow> kstate \<Rightarrow> kstate option" where
  "SVC_KILL_TASK_RESOLVE_END call regs pid s = svc_instr KILL_TASK call (regs(0 := pid, 1 := 1)) s"

definition SVC_HIBERNATE :: "supervisor \<Rightarrow> svc_args \<Rightarrow> u32 \<Rightarrow> u32 \<Rightarrow> u32 \<Rightarrow> u32 \<Rightarrow> kstate \<Rightarrow> kstate option" where
  "SVC_HIBERNATE call regs merged a b v s = svc_instr HIBERNATE call (regs(0 := merged, 1 := a, 2 := b, 3 := v)) s"

definition SVC_PRIORITY_PROMOTE :: "supervisor \<Rightarrow> svc_args \<Rightarrow> u32 \<Rightarrow> kstate \<Rightarrow> kstate option" where
  "SVC_PRIORITY_PROMOTE call regs mutex s = svc_instr PRIORITY_PROMOTE call (regs(0 := mutex)) s"

definition SVC_INT_ENABLE :: "supervisor \<Rightarrow> svc_args \<Rightarrow> u32 \<Rightarrow> kstate \<Rightarrow> (u32 \<times> kstate) option" where
  "SVC_INT_ENABLE call regs interrupt s = GET_SVC_RETURN_CODE (call INT_ENABLE (regs(0 := interrupt)) s)"

definition SVC_INT_DISABLE :: "supervisor \<Rightarrow> svc_args \<Rightarrow> u32 \<Rightarrow> kstate \<Rightarrow> (u32 \<times> kstate) option" where
  "SVC_INT_DISABLE call regs interrupt s = GET_SVC_RETURN_CODE (call INT_DISABLE (regs(0 := interrupt)) s)"

definition SVC_INT_REGISTER :: "supervisor \<Rightarrow> svc_args \<Rightarrow> u32 \<Rightarrow> u32 \<Rightarrow> kstate \<Rightarrow> (u32 \<times> kstate) option" where
  "SVC_INT_REGISTER call regs interrupt handler s = GET_SVC_RETURN_CODE (call INT_REGISTER (regs(0 := interrupt, 1 := handler)) s)"

definition SVC_SET_PRIORITY :: "supervisor \<Rightarrow> svc_args \<Rightarrow> u32 \<Rightarrow> u32 \<Rightarrow> kstate \<Rightarrow> (u32 \<times> kstate) option" where
  "SVC_SET_PRIORITY call regs interrupt priority s = GET_SVC_RETURN_CODE (call SET_PRIORITY (regs(0 := interrupt, 1 := priority)) s)"

definition SVC_INVOKE_BASE :: "supervisor \<Rightarrow> svc_args \<Rightarrow> u32 \<Rightarrow> kstate \<Rightarrow> (u32 \<times> kstate) option" where
  "SVC_INVOKE_BASE call regs argument s = GET_SVC_RETURN_CODE (call INVOKE_BASE (regs(0 := argument)) s)"

text \<open>\<open>error\<close> is the word at the address of the operand.\<close>

definition SVC_RELEASE_BASE :: "supervisor \<Rightarrow> svc_args \<Rightarrow> u32 \<Rightarrow> kstate \<Rightarrow> (u32 \<times> kstate) option" where
  "SVC_RELEASE_BASE call regs error s = GET_SVC_RETURN_CODE (call RELEASE_BASE (regs(0 := error)) s)"

definition SVC_GRANT_PERMISSION :: "supervisor \<Rightarrow> svc_args \<Rightarrow> u32 \<Rightarrow> u16 \<Rightarrow> kstate \<Rightarrow> (u32 \<times> kstate) option" where
  "SVC_GRANT_PERMISSION call regs pid permission s = GET_SVC_RETURN_CODE (call GRANT_PERMISSION (regs(0 := pid, 1 := ucast permission)) s)"

text \<open>The frequency goes to \<open>R1\<close>.\<close>

definition SVC_CPU_FREQ_UPDATE :: "supervisor \<Rightarrow> svc_args \<Rightarrow> u32 \<Rightarrow> kstate \<Rightarrow> (u32 \<times> kstate) option" where
  "SVC_CPU_FREQ_UPDATE call regs frequency s = GET_SVC_RETURN_CODE (call CPU_FREQ (regs(1 := frequency)) s)"

definition SVC_ENABLE_UMPU :: "supervisor \<Rightarrow> svc_args \<Rightarrow> u8 \<Rightarrow> u32 \<Rightarrow> u32 \<Rightarrow> kstate \<Rightarrow> (u32 \<times> kstate) option" where
  "SVC_ENABLE_UMPU call regs region address attributes s = GET_SVC_RETURN_CODE (call ENABLE_UMPU (regs(0 := ucast region, 1 := address, 2 := attributes)) s)"

definition SVC_DISABLE_UMPU :: "supervisor \<Rightarrow> svc_args \<Rightarrow> u8 \<Rightarrow> kstate \<Rightarrow> (u32 \<times> kstate) option" where
  "SVC_DISABLE_UMPU call regs region s = GET_SVC_RETURN_CODE (call DISABLE_UMPU (regs(0 := ucast region)) s)"

definition SVC_HWREG_WRITE :: "supervisor \<Rightarrow> svc_args \<Rightarrow> u32 \<Rightarrow> u32 \<Rightarrow> kstate \<Rightarrow> (u32 \<times> kstate) option" where
  "SVC_HWREG_WRITE call regs register_address v s = GET_SVC_RETURN_CODE (call HWREG_WRITE (regs(0 := register_address, 1 := v)) s)"

definition SVC_HWREG_READ :: "supervisor \<Rightarrow> svc_args \<Rightarrow> u32 \<Rightarrow> u32 \<Rightarrow> kstate \<Rightarrow> (u32 \<times> kstate) option" where
  "SVC_HWREG_READ call regs register_address v s = GET_SVC_RETURN_CODE (call HWREG_READ (regs(0 := register_address, 1 := v)) s)"

lemma get_return [simp]: "GET_SVC_RETURN_CODE r = r"
  by (cases r) (auto simp: GET_SVC_RETURN_CODE_def)

lemmas svc_macro_defs = svc_instr_def SVC_CREATE_TASK_NO_ARG_def SVC_CREATE_TASK_WITH_ARG_def SVC_KILL_TASK_DIRECT_def
  SVC_KILL_TASK_RESOLVE_END_def SVC_HIBERNATE_def SVC_PRIORITY_PROMOTE_def
  SVC_INT_ENABLE_def SVC_INT_DISABLE_def SVC_INT_REGISTER_def SVC_SET_PRIORITY_def
  SVC_INVOKE_BASE_def SVC_RELEASE_BASE_def SVC_GRANT_PERMISSION_def SVC_CPU_FREQ_UPDATE_def
  SVC_ENABLE_UMPU_def SVC_DISABLE_UMPU_def SVC_HWREG_WRITE_def SVC_HWREG_READ_def

end
