(* ===== verification/TaskApi.thy ===== *)
theory TaskApi
  imports SvcMacros
begin

text \<open>
  The interface of the kernel to the application: \<^verbatim>\<open>src/task.c\<close>,
  \<^verbatim>\<open>src/permissions.c\<close>, \<^verbatim>\<open>src/interrupt.c\<close>, the end of
  \<^verbatim>\<open>src/kernel.c\<close>, \<^verbatim>\<open>src/umpu.c\<close>, \<^verbatim>\<open>src/share.c\<close> and
  \<^verbatim>\<open>src/baset.c\<close>.
\<close>

section \<open>task.c\<close>

text \<open>The value of \<open>i\<close> after the search for the object in the task table.\<close>

definition find_obj :: "nat \<Rightarrow> u32 \<Rightarrow> kstate \<Rightarrow> nat" where
  "find_obj n obj s = first_idx (\<lambda>i. task_obj s i = obj) n"

definition task_init :: "'z params_scheme \<Rightarrow> u32 \<Rightarrow> kstate \<Rightarrow> u32 \<times> kstate" where
  "task_init P myprocess s =
     (if find_obj (MAX_TASK_COUNT P) myprocess s < MAX_TASK_COUNT P
      then (ERROR_PROCESS_ALREADY_RUNNING, s)
      else (ERROR_NONE, on_mcu (obj_update myprocess (\<lambda>t. t\<lparr>t_priority := 1, t_task_id := 0,
              t_hibernate := 0, t_op1 := 0, t_op2 := 0, t_value := 0\<rparr>)) s))"

definition task_start_arg ::
  "'z params_scheme \<Rightarrow> supervisor \<Rightarrow> svc_args \<Rightarrow> u32 \<Rightarrow> u32 \<Rightarrow> kstate \<Rightarrow> (u32 \<times> kstate) option" where
  "task_start_arg P call regs myprocess arg s =
     (if find_obj (MAX_TASK_COUNT P) myprocess s < MAX_TASK_COUNT P
      then Some (ERROR_PROCESS_ALREADY_RUNNING, s)
      else do {
        s' \<leftarrow> SVC_CREATE_TASK_WITH_ARG call regs myprocess arg s;
        Some (ERROR_NONE, s')
      })"

definition task_start ::
  "'z params_scheme \<Rightarrow> supervisor \<Rightarrow> svc_args \<Rightarrow> u32 \<Rightarrow> kstate \<Rightarrow> (u32 \<times> kstate) option" where
  "task_start P call regs myprocess s =
     (if find_obj (MAX_TASK_COUNT P) myprocess s < MAX_TASK_COUNT P
      then Some (ERROR_PROCESS_ALREADY_RUNNING, s)
      else do {
        s' \<leftarrow> SVC_CREATE_TASK_NO_ARG call regs myprocess s;
        Some (ERROR_NONE, s')
      })"

text \<open>After an unsuccessful search the test reads \<open>task_obj[MAX_TASK_COUNT]\<close>.\<close>

definition task_kill ::
  "'z params_scheme \<Rightarrow> supervisor \<Rightarrow> svc_args \<Rightarrow> u32 \<Rightarrow> kstate \<Rightarrow> (u32 \<times> kstate) option" where
  "task_kill P call regs myprocess s =
     (let i = find_obj (MAX_TASK_COUNT P) myprocess s in
      do {
        chk (i < MAX_TASK_COUNT P);
        (if task_obj s i \<noteq> myprocess then Some (ERROR_PROCESS_IS_IDLE, s)
         else do {
           s' \<leftarrow> SVC_KILL_TASK_DIRECT call regs (task_id s i) s;
           Some (ERROR_NONE, s')
         })
      })"

text \<open>
  \<^verbatim>\<open>while((*op1 - *op2) < value);\<close> and its reverse; \<open>env\<close> is what happens to the state
  between two reads of the memory, by interrupt handlers.
\<close>

partial_function (option) busy_wait ::
  "(kstate \<Rightarrow> kstate) \<Rightarrow> u32 \<Rightarrow> u32 \<Rightarrow> u32 \<Rightarrow> bool \<Rightarrow> kstate \<Rightarrow> kstate option" where
  "busy_wait env a b v reverse s =
     (let d = mem (mcu s) a - mem (mcu s) b in
      if (if reverse then v < d else d < v) then busy_wait env a b v reverse (env s) else Some s)"

definition hibernate ::
  "'z params_scheme \<Rightarrow> supervisor \<Rightarrow> svc_args \<Rightarrow> (kstate \<Rightarrow> kstate) \<Rightarrow> u32 \<Rightarrow> u32 \<Rightarrow> u32 \<Rightarrow> bool \<Rightarrow>
     kstate \<Rightarrow> (u32 \<times> kstate) option" where
  "hibernate P call regs env a b v reverse s =
     (let count = length (filter (\<lambda>i. state s i \<noteq> TASK_STATE_IDLE \<and> priority_cur s i = max_level s)
                            [0..<MAX_TASK_COUNT P]) in
      if task_count s = 1 \<or> \<not> enable_dws s \<and> count = 1 then do {
        s' \<leftarrow> busy_wait env a b v reverse s;
        Some (ERROR_NONE, s')
      }
      else do {
        let merged = current_task s OR (if reverse then HIBEARNTE_REV_MASK else 0);
        s' \<leftarrow> SVC_HIBERNATE call regs merged a b v s;
        Some (ERROR_NONE, s')
      })"

text \<open>The end of a task (\<open>resolve_end\<close> of \<^verbatim>\<open>svr_task.c\<close>), to which its function returns.\<close>

definition resolve_end :: "'z params_scheme \<Rightarrow> supervisor \<Rightarrow> svc_args \<Rightarrow> kstate \<Rightarrow> kstate option" where
  "resolve_end P call regs s = do {
     chk (unat (current_task s) < MAX_TASK_COUNT P);
     SVC_KILL_TASK_RESOLVE_END call regs (task_id s (unat (current_task s))) s
   }"

section \<open>permissions.c\<close>

definition base_run ::
  "'z params_scheme \<Rightarrow> supervisor \<Rightarrow> svc_args \<Rightarrow> u32 \<Rightarrow> kstate \<Rightarrow> (u32 \<times> kstate) option" where
  "base_run P call regs args s =
     (if current_task s = 0 then Some (ERROR_BASE_PROCESS, s)
      else do {
        (error, s') \<leftarrow> SVC_INVOKE_BASE call regs args s;
        (if error = ERROR_NONE then do {
           chk (unat (current_task s') < MAX_TASK_COUNT P);
           Some (hib_value s' (unat (current_task s')), s')
         }
         else Some (error, s'))
      })"

text \<open>
  The macro loads a word from the address of the 8-bit parameter; \<open>hi\<close> is that word, of which
  only the low byte is the parameter.
\<close>

definition base_release :: "supervisor \<Rightarrow> svc_args \<Rightarrow> u32 \<Rightarrow> u8 \<Rightarrow> kstate \<Rightarrow> (u32 \<times> kstate) option" where
  "base_release call regs hi error s =
     (if current_task s \<noteq> 0 then Some (ERROR_INSUFFICIENT_PERMISSION, s)
      else do {
        (r, s') \<leftarrow> SVC_RELEASE_BASE call regs (hi AND NOT 0xFF OR ucast error) s;
        Some (ucast (ucast r :: u8), s')
      })"

definition get_invocation_args :: "u32 \<Rightarrow> u32 \<Rightarrow> kstate \<Rightarrow> u32 \<times> kstate" where
  "get_invocation_args pid args s =
     (if current_task s \<noteq> 0 then (ERROR_INSUFFICIENT_PERMISSION, s)
      else if invocated_task s = 0 then (ERROR_NO_INVOCATION, s)
      else (ERROR_NONE, on_mcu (mem_store args (invocated_args s) \<circ> mem_store pid (invocated_task s)) s))"

definition grant_permission :: "supervisor \<Rightarrow> svc_args \<Rightarrow> u32 \<Rightarrow> u16 \<Rightarrow> kstate \<Rightarrow> (u32 \<times> kstate) option" where
  "grant_permission call regs pid permission s =
     (if current_task s \<noteq> 0 then Some (ERROR_INSUFFICIENT_PERMISSION, s)
      else SVC_GRANT_PERMISSION call regs pid permission s)"

section \<open>interrupt.c\<close>

definition interrupt_enable :: "supervisor \<Rightarrow> svc_args \<Rightarrow> u32 \<Rightarrow> kstate \<Rightarrow> (u32 \<times> kstate) option" where
  "interrupt_enable call regs interrupt = SVC_INT_ENABLE call regs interrupt"

definition interrupt_disable :: "supervisor \<Rightarrow> svc_args \<Rightarrow> u32 \<Rightarrow> kstate \<Rightarrow> (u32 \<times> kstate) option" where
  "interrupt_disable call regs interrupt = SVC_INT_DISABLE call regs interrupt"

definition interrupt_register ::
  "supervisor \<Rightarrow> svc_args \<Rightarrow> u32 \<Rightarrow> u32 \<Rightarrow> kstate \<Rightarrow> (u32 \<times> kstate) option" where
  "interrupt_register call regs interrupt handler =
     SVC_INT_REGISTER call regs interrupt handler"

definition interrupt_set_priority ::
  "supervisor \<Rightarrow> svc_args \<Rightarrow> u32 \<Rightarrow> u8 \<Rightarrow> kstate \<Rightarrow> (u32 \<times> kstate) option" where
  "interrupt_set_priority call regs interrupt priority =
     SVC_SET_PRIORITY call regs interrupt (ucast priority)"

section \<open>kernel.c and umpu.c\<close>

definition cpu_freq_update_api :: "supervisor \<Rightarrow> svc_args \<Rightarrow> u32 \<Rightarrow> kstate \<Rightarrow> (u32 \<times> kstate) option" where
  "cpu_freq_update_api call regs frequency = SVC_CPU_FREQ_UPDATE call regs frequency"

definition hwreg_write :: "supervisor \<Rightarrow> svc_args \<Rightarrow> u32 \<Rightarrow> u32 \<Rightarrow> kstate \<Rightarrow> (u32 \<times> kstate) option" where
  "hwreg_write call regs register_address v = SVC_HWREG_WRITE call regs register_address v"

definition hwreg_read :: "supervisor \<Rightarrow> svc_args \<Rightarrow> u32 \<Rightarrow> u32 \<Rightarrow> kstate \<Rightarrow> (u32 \<times> kstate) option" where
  "hwreg_read call regs register_address v = SVC_HWREG_READ call regs register_address v"

definition device_reset :: "supervisor \<Rightarrow> svc_args \<Rightarrow> kstate \<Rightarrow> (u32 \<times> kstate) option" where
  "device_reset call regs s =
     (if current_task s \<noteq> 0 then Some (ERROR_INSUFFICIENT_PERMISSION, s)
      else do { s' \<leftarrow> svc_instr DEVICE_RESET call regs s; Some (ERROR_NONE, s') })"

definition user_mpu_enable ::
  "supervisor \<Rightarrow> svc_args \<Rightarrow> u8 \<Rightarrow> u32 \<Rightarrow> u32 \<Rightarrow> kstate \<Rightarrow> (u32 \<times> kstate) option" where
  "user_mpu_enable call regs region address attributes =
     SVC_ENABLE_UMPU call regs (region + 3) address attributes"

definition user_mpu_disable :: "supervisor \<Rightarrow> svc_args \<Rightarrow> u8 \<Rightarrow> kstate \<Rightarrow> (u32 \<times> kstate) option" where
  "user_mpu_disable call regs region = SVC_DISABLE_UMPU call regs (region + 3)"

end
