(* ===== verification/Heap.thy ===== *)
theory Heap
  imports TaskApi
begin

text \<open>
  The heap of \<^verbatim>\<open>src/heap.c\<close>: its variables live in kernel memory and are read and written
  there by the routines, which are assembly. This theory holds the initialisation and the two
  functions of the interface.
\<close>

text \<open>Addresses of the heap's variables and of the two linker symbols.\<close>

record heap_env =
  hstart_addr :: u32
  bstart_addr :: u32
  heap_remaining :: u32
  fsll_start :: u32
  fsll_end :: u32
  blist_size :: u32
  heap_start_sym :: u32
  ghmb_addr_sym :: u32

text \<open>The clearing loop: \<open>R1\<close> counts from \<open>HEAP_BOOKEEPING_SIZE\<close> down to 1.\<close>

definition heap_clear :: "nat \<Rightarrow> u32 \<Rightarrow> mcu \<Rightarrow> mcu" where
  "heap_clear n base m = fold (\<lambda>r1. mem_store (base + 4 * of_nat r1) 0) (rev [1..<Suc n]) m"

definition heap_init :: "'z params_scheme \<Rightarrow> heap_env \<Rightarrow> mcu \<Rightarrow> mcu" where
  "heap_init P H m =
     (let m1 = mem_store (hstart_addr H) (heap_start_sym H) m;
          rem = ucast (mem m1 (hstart_addr H) mod 4) :: u8;
          rem' = (if rem = 0 then 0 else rem);
          m2 = mem_store (hstart_addr H) (mem m1 (hstart_addr H) + ucast rem') m1;
          m3 = mem_store (bstart_addr H) (ghmb_addr_sym H) m2;
          m4 = heap_clear (HEAP_BOOKEEPING_SIZE P) (mem m3 (bstart_addr H)) m3;
          m5 = mem_store (bstart_addr H)
                 (mem m4 (bstart_addr H) + (of_nat (HEAP_BOOKEEPING_SIZE P) * 4 - 4)) m4;
          m6 = mem_store (fsll_start H) (mem m5 (bstart_addr H)) m5;
          m7 = mem_store (fsll_end H) (mem m6 (bstart_addr H)) m6;
          m8 = mem_store (blist_size H) 0 m7
      in mem_store (heap_remaining H) ((0x20000000 + 0x40000) - mem m8 (hstart_addr H)) m8)"

definition heap_allocate ::
  "heap_env \<Rightarrow> supervisor \<Rightarrow> svc_args \<Rightarrow> u32 \<Rightarrow> kstate \<Rightarrow> (u32 \<times> kstate) option" where
  "heap_allocate H call regs size0 s =
     (let rem = size0 mod 4;
          rem' = (if rem = 0 then 0 else 4 - rem);
          size1 = size0 + rem'
      in if 32767 < size1 then Some (0, s)
         else if mem (mcu s) (heap_remaining H) < size1 then Some (0, s)
         else call GHEAP_ALLOCATE (regs(1 := size1)) s)"

definition heap_release :: "supervisor \<Rightarrow> svc_args \<Rightarrow> u32 \<Rightarrow> kstate \<Rightarrow> (u32 \<times> kstate) option" where
  "heap_release call regs ptr = call GHEAP_RELEASE (regs(1 := ptr))"

end
