(* ===== verification/Boot.thy ===== *)
theory Boot
  imports Heap ArmPort
begin

text \<open>
  The start of the kernel: \<open>kernel_init\<close> and \<open>start_scheduler\<close> of \<^verbatim>\<open>src/kernel.c\<close>,
  and the parts of \<^verbatim>\<open>src/arch/arm-m3m4\<close> they call.
\<close>

section \<open>kernel.c\<close>

text \<open>What a port does during the start, by the names under which \<open>kernel_init\<close> calls it.\<close>

record boot_port =
  vector_table_relocate :: "kstate \<Rightarrow> kstate"
  arch_kernel_init :: "kstate \<Rightarrow> (u32 \<times> kstate) option"
  os_timer_init :: "u32 \<Rightarrow> kstate \<Rightarrow> (u32 \<times> kstate) option"
  arch_mpu_init :: "kstate \<Rightarrow> u32 \<times> kstate"
  boot_heap_init :: "kstate \<Rightarrow> kstate"
  switch_mcu_mode :: "kstate \<Rightarrow> (u32 \<times> kstate) option"

definition init_states :: "nat \<Rightarrow> kstate \<Rightarrow> kstate" where
  "init_states n s = fold (\<lambda>i s. s\<lparr>state := (state s)(i := TASK_STATE_IDLE)\<rparr>) [0..<n] s"

text \<open>The base task, from \<open>task_init(&base_task)\<close> to \<open>current_task = 0\<close>.\<close>

definition init_base :: "'z params_scheme \<Rightarrow> supervisor \<Rightarrow> svc_args \<Rightarrow> kstate \<Rightarrow> kstate option" where
  "init_base P call regs s =
     (let s1 = snd (task_init P (base_task_addr P) s);
          s2 = on_mcu (obj_update (base_task_addr P) (\<lambda>t. t\<lparr>t_ptr_func := BaseTask_addr P\<rparr>)) s1;
          s3 = on_mcu (obj_update (base_task_addr P) (\<lambda>t. t\<lparr>t_priority := 0\<rparr>)) s2
      in do {
        (_, s4) \<leftarrow> task_start P call regs (base_task_addr P) s3;
        Some (s4\<lparr>permissions := (permissions s4)(0 := 0xFFFF), current_task := 0\<rparr>)
      })"

definition kernel_init ::
  "'z params_scheme \<Rightarrow> boot_port \<Rightarrow> supervisor \<Rightarrow> svc_args \<Rightarrow> kstate \<Rightarrow> (u32 \<times> kstate) option" where
  "kernel_init P B call regs s =
     (let s1 = vector_table_relocate B (s\<lparr>first_start := False\<rparr>) in
      do {
        (error, s2) \<leftarrow> arch_kernel_init B s1;
        (if error \<noteq> 0 then Some (ERROR_NONE, s2)
         else
           do {
             (error, s3) \<leftarrow> os_timer_init B (cpu_freq s2) s2;
             (if error \<noteq> 0 then Some (ERROR_NONE, s3)
              else
                (let s4 = init_states (MAX_TASK_COUNT P) s3;
                     s5 = s4\<lparr>pstack_addr := proc_heap_addr P\<rparr>;
                     (error, s6) = arch_mpu_init B s5 in
                 if error \<noteq> 0 then Some (ERROR_NONE, s6)
                 else do {
                   s7 \<leftarrow> init_base P call regs s6;
                   Some (ERROR_NONE, boot_heap_init B s7)
                 }))
           })
      })"

text \<open>On a target device the function does not return after the switch to user mode.\<close>

definition start_scheduler :: "bool \<Rightarrow> boot_port \<Rightarrow> kstate \<Rightarrow> (u32 \<times> kstate) option" where
  "start_scheduler ossim_run B s =
     (if first_start s then Some (ERROR_SCHEDULER_ALREADY_RUNNING, s)
      else do {
        (_, s1) \<leftarrow> switch_mcu_mode B (s\<lparr>current_task := 0\<rparr>);
        s2 \<leftarrow> (if ossim_run then Some s1 else spin_forever s1);
        Some (ERROR_NONE, s2)
      })"

section \<open>arch/arm-m3m4\<close>

text \<open>Addresses and constants the ARM build fixes.\<close>

record arm_env =
  vector_ram :: u32
  svc_handler_addr :: u32
  pendsv_handler_addr :: u32
  scheduler_addr :: u32
  mem_fault_addr :: u32
  bus_fault_addr :: u32
  DISABLE_BUFFER :: nat
  KERNEL_REGION_SIZE :: u32
  KERNEL_REGION_SRD :: u32
  MPU_PSTACK_SIZE :: u32
  mpu_table :: "u32 arr"

definition arm_os_timer_init :: "'z params_scheme \<Rightarrow> arm_env \<Rightarrow> u32 \<Rightarrow> kstate \<Rightarrow> u32 \<times> kstate" where
  "arm_os_timer_init P E new_cpu_freq s =
     (let (error, s1) = arm_os_timer_config P new_cpu_freq s in
      if error \<noteq> 0 then (error, s1)
      else
        (let s2 = on_mcu (hwreg_or STCTRL SYSTICK_SYS_CLK) s1
         in (error, on_mcu (hwreg_store (KERNEL_START_ADDRESS P + INT_NUM_SYSTICK * 4) (scheduler_addr E)) s2)))"

definition arm_kernel_init ::
  "'z params_scheme \<Rightarrow> arm_env \<Rightarrow> supervisor \<Rightarrow> svc_args \<Rightarrow> kstate \<Rightarrow> (u32 \<times> kstate) option" where
  "arm_kernel_init P E call regs s =
     (let s1 = on_mcu (\<lambda>m. hwreg_store APINT (APINT_VECKEY OR PRIGROUP_8_1 OR (HWREG APINT m AND 0x0000FFFF)) m) s;
          s2 = on_mcu (hwreg_and APINT 0x0000FFFF) s1;
          s3 = on_mcu (hwreg_store (KERNEL_START_ADDRESS P + INT_NUM_SVC * 4) (svc_handler_addr E)) s2;
          s4 = on_mcu (hwreg_store (KERNEL_START_ADDRESS P + INT_NUM_PENDSV * 4) (pendsv_handler_addr E)) s3;
          s5 = on_mcu (hwreg_or SYSPRI2 0x00000000) s4;
          s6 = on_mcu (hwreg_or SYSPRI3 0xE0000000) s5;
          s7 = on_mcu (hwreg_or SYSPRI3 0x00E00000) s6;
          s8 = (if 1 \<le> DISABLE_BUFFER E then on_mcu (hwreg_or ACTLR ACTLR_DISWBUF) s7 else s7)
      in do {
        s9 \<leftarrow> foldo (\<lambda>i s. map_option snd (interrupt_set_priority call regs (of_nat i) 0x20 s))
               [16..<NUM_OF_INTERRUPTS P] s8;
        Some (ERROR_NONE, s9)
      })"

text \<open>One MPU region: number, base address, attributes and size.\<close>

definition mpu_region :: "u32 \<Rightarrow> u32 \<Rightarrow> u32 \<Rightarrow> mcu \<Rightarrow> mcu" where
  "mpu_region rnr rbar rasr = hwreg_store MPURASR rasr \<circ> hwreg_store MPURBAR rbar \<circ> hwreg_store MPURNR rnr"

text \<open>Fields of the region registers (\<^verbatim>\<open>mpu.h\<close>).\<close>

abbreviation (input) MPU_PRIVDEFENA :: u32 where "MPU_PRIVDEFENA \<equiv> 0x00000004"
abbreviation (input) MPU_ENABLE :: u32 where "MPU_ENABLE \<equiv> 0x00000001"
abbreviation (input) MPU_SHAREABLE :: u32 where "MPU_SHAREABLE \<equiv> 0x00040000"
abbreviation (input) MPU_CACHEABLE :: u32 where "MPU_CACHEABLE \<equiv> 0x00020000"
abbreviation (input) MPU_BUFFERABLE :: u32 where "MPU_BUFFERABLE \<equiv> 0x00010000"
abbreviation (input) MPU_EXECUTE_NEVER :: u32 where "MPU_EXECUTE_NEVER \<equiv> 0x10000000"
abbreviation (input) MPU_REGION_ENABLE :: u32 where "MPU_REGION_ENABLE \<equiv> 0x00000001"
abbreviation (input) MPU_AP_PRW_URO :: u32 where "MPU_AP_PRW_URO \<equiv> 2"
abbreviation (input) MPU_AP_PRW_URW :: u32 where "MPU_AP_PRW_URW \<equiv> 3"
abbreviation (input) MPU_AP_PRO_URO :: u32 where "MPU_AP_PRO_URO \<equiv> 6"
abbreviation (input) MPU_REGION_SIZE_256KB :: u32 where "MPU_REGION_SIZE_256KB \<equiv> 17"
abbreviation (input) MPU_REGION_SIZE_512MB :: u32 where "MPU_REGION_SIZE_512MB \<equiv> 28"

definition MPU_KERNEL_DEFAULT :: u32 where
  "MPU_KERNEL_DEFAULT = MPU_SHAREABLE OR MPU_CACHEABLE OR MPU_EXECUTE_NEVER"

definition arm_mpu_init :: "'z params_scheme \<Rightarrow> arm_env \<Rightarrow> kstate \<Rightarrow> u32 \<times> kstate" where
  "arm_mpu_init P E s =
     (if HWREG MPUTYPE (mcu s) = 0 then (ERROR_MPU_UNSUPPORTED, s)
      else
        (ERROR_NONE, on_mcu (
           hwreg_store MPUCTRL (MPU_PRIVDEFENA OR MPU_ENABLE) \<circ>
           hwreg_or SYSHNDCTRL (NVIC_SYS_HND_CTRL_MEM OR NVIC_SYS_HND_CTRL_BUS) \<circ>
           hwreg_store (KERNEL_START_ADDRESS P + INT_NUM_BUSFAULT * 4) (bus_fault_addr E) \<circ>
           hwreg_store (KERNEL_START_ADDRESS P + INT_NUM_MEMFAULT * 4) (mem_fault_addr E) \<circ>
           hwreg_store MPURNR 0 \<circ>
           fold (\<lambda>i. mpu_region (of_nat i) 0 0) [3..<6] \<circ>
           mpu_region 7 (mpu_table E 0) (push_bit 1 (MPU_PSTACK_SIZE E) OR MPU_KERNEL_DEFAULT OR
             push_bit 24 MPU_AP_PRW_URW OR MPU_REGION_ENABLE) \<circ>
           mpu_region 6 0x20000000 (push_bit 1 (KERNEL_REGION_SIZE E) OR MPU_KERNEL_DEFAULT OR
             push_bit 24 MPU_AP_PRW_URO OR push_bit 8 (KERNEL_REGION_SRD E) OR MPU_REGION_ENABLE) \<circ>
           mpu_region 2 0x40000000 (MPU_SHAREABLE OR MPU_BUFFERABLE OR push_bit 1 MPU_REGION_SIZE_512MB OR
             push_bit 24 MPU_AP_PRW_URW OR MPU_REGION_ENABLE) \<circ>
           mpu_region 1 0x20000000 (MPU_SHAREABLE OR MPU_CACHEABLE OR push_bit 1 MPU_REGION_SIZE_256KB OR
             MPU_EXECUTE_NEVER OR push_bit 24 MPU_AP_PRW_URW OR MPU_REGION_ENABLE) \<circ>
           mpu_region 0 0x00000000 (MPU_CACHEABLE OR push_bit 1 MPU_REGION_SIZE_512MB OR push_bit 24 MPU_AP_PRO_URO OR
             MPU_REGION_ENABLE) \<circ>
           hwreg_store MPUCTRL 0) s))"

text \<open>\<open>switch_mcu_mode\<close> of \<^verbatim>\<open>os_util.S\<close>: to the stack of the base task and to user mode.\<close>

definition arm_switch_mcu_mode :: "supervisor \<Rightarrow> svc_args \<Rightarrow> kstate \<Rightarrow> (u32 \<times> kstate) option" where
  "arm_switch_mcu_mode call regs s =
     call START_SCHEDULER (regs(0 := 3)) (on_mcu (\<lambda>m. m\<lparr>psp_reg := PSP_Array s 0\<rparr>) s)"

definition arm_boot ::
  "'z params_scheme \<Rightarrow> arm_env \<Rightarrow> heap_env \<Rightarrow> supervisor \<Rightarrow> svc_args \<Rightarrow> boot_port" where
  "arm_boot P E H call regs = \<lparr>
     vector_table_relocate = on_mcu (arm_vector_table_relocate P (vector_ram E)),
     arch_kernel_init = arm_kernel_init P E call regs,
     os_timer_init = (\<lambda>f s. Some (arm_os_timer_init P E f s)),
     arch_mpu_init = arm_mpu_init P E,
     boot_heap_init = on_mcu (heap_init P H),
     switch_mcu_mode = arm_switch_mcu_mode call regs\<rparr>"

end
