(* ===== verification/BootInv.thy ===== *)
theory BootInv
  imports Boot SvcInv SchedSafe
begin

text \<open>
  The start establishes the kernel's invariants: from the boot values of the kernel variables,
  \<open>kernel_init\<close> on the ARM port ends with the base task alone in the table.
\<close>

section \<open>The first task\<close>

definition arm_call :: "params \<Rightarrow> u32 \<Rightarrow> supervisor" where
  "arm_call P slot = svc_handler (arm_port P) slot"

text \<open>
  During the start no task has a permission yet, so the loop that sets the interrupt
  priorities is refused at every turn and changes nothing.
\<close>

lemma set_priority_refused:
  assumes "0 < MAX_TASK_COUNT P" and "current_task s = 0" and "permissions s 0 = 0"
  shows "foldo (\<lambda>i s. map_option snd (interrupt_set_priority (arm_call P slot) regs (of_nat i) 0x20 s)) xs s = Some s"
proof (induction xs)
  case (Cons x xs)
  have "arm_call P slot SET_PRIORITY a s = Some (ERROR_INSUFFICIENT_PERMISSION, s)" for a
    unfolding arm_call_def using assms by (intro int_prio.call_refused) simp_all
  then have "map_option snd (interrupt_set_priority (arm_call P slot) regs (of_nat x) 0x20 s) = Some s"
    unfolding interrupt_set_priority_def by (simp add: svc_macro_defs)
  then show ?case using Cons by (simp only: foldo.simps bind.bind_lunit)
qed simp

lemma level_add_base:
  assumes "0 < n" and "ls 0 = 0"
  shows "level_add n 0 (ls, 1) = Some (ls, 1)"
proof -
  have "level_search n ls 0 0 1 0 = Some (True, 0)"
    using assms by (subst level_search.simps) simp
  then show ?thesis by (simp add: level_add_def)
qed

lemma init_states_eq: "init_states n s = s\<lparr>state := \<lambda>i. if i < n then TASK_STATE_IDLE else state s i\<rparr>"
proof (induction n)
  case (Suc n)
  have "init_states (Suc n) s = (init_states n s)\<lparr>state := (state (init_states n s))(n := TASK_STATE_IDLE)\<rparr>"
    by (simp add: init_states_def)
  then show ?case unfolding Suc by (auto simp: fun_eq_iff)
qed (simp add: init_states_def)

text \<open>A ring of the base slot alone.\<close>

lemma ring_base:
  assumes "0 < n" "n \<le> 120" and "\<And>i. i < n \<Longrightarrow> lv i = (i = 0)" and "\<And>i. i < n \<Longrightarrow> jl i = 0"
  shows "ring_ok n lv jl"
  using assms by (auto simp: ring_ok_def is_succ_def intro!: exI [of _ 0])

text \<open>The state in which the base task is created: an empty table.\<close>

definition empty_table :: "nat \<Rightarrow> kstate \<Rightarrow> bool" where
  "empty_table n s \<longleftrightarrow> (\<forall>i < n. state s i = TASK_STATE_IDLE) \<and> (\<forall>i. task_obj s i = 0 \<and> task_id s i = 0 \<and>
     jmp_list s i = 0 \<and> priority_cur s i = 0 \<and> level_stash s i = 0) \<and> task_count s = 0 \<and>
     total_task_count s = 0 \<and> lstash_ptr s = 1 \<and> max_level s = 0 \<and> alc s = 0 \<and> hlc s = 0 \<and> \<not> first_start s"

context kernel_port
begin

lemma create_base:
  assumes wf: "wf_params A" and emp: "empty_table (MAX_TASK_COUNT A) s"
    and obj: "arguments 0 \<noteq> 0" "t_priority (objs (mcu s) (arguments 0)) = 0" "t_hibernate (objs (mcu s) (arguments 0)) = 0"
    and stk: "pstack_addr s \<noteq> 0"
  obtains s' where "svc_service_task_create A c arguments s = Some (ERROR_NONE, c, arguments, s')"
    "kernel_ok (MAX_TASK_COUNT A) s'" "count_ok (MAX_TASK_COUNT A) s'" "\<And>i. i < MAX_TASK_COUNT A \<Longrightarrow> live s' i = (i = 0)"
    "task_obj s' 0 = arguments 0" "task_id s' 0 = 1" "priority_cur s' 0 = 0"
    "current_task s' = current_task s" "next_task s' = next_task s" "enable_dws s' = enable_dws s"
    "normal_schedule s' = normal_schedule s" "self_kill s' = self_kill s"
    "state s' 0 = TASK_STATE_SLEEP" "lstash_ptr s' = 1" "first_start s' = first_start s"
    "task_count s' = 1" "total_task_count s' = 1" "pstack_addr s' = pstack_addr s"
    "\<And>a. a \<noteq> arguments 0 \<Longrightarrow> objs (mcu s') a = objs (mcu s) a" "priority_cur s' = (\<lambda>_. 0)"
proof -
  let ?n = "MAX_TASK_COUNT A"
  have n: "0 < ?n" "?n \<le> 120" using wf by (simp_all add: wf_params_def)
  have slot: "create_slot ?n s = 0"
    unfolding create_slot_def by (rule first_idx_eqI) (use emp n in \<open>auto simp: empty_table_def\<close>)
  have ready: "create_ready A arguments s"
    using emp n obj stk by (simp add: create_ready_def create_checks_def empty_table_def slot)
  have lv: "level_add ?n 0 (level_stash s, lstash_ptr s) = Some (level_stash s, lstash_ptr s)"
    using level_add_base [of ?n "level_stash s"] emp n by (simp add: empty_table_def)
  show thesis
  proof (rule create_success [OF ready slot [symmetric] n(1) obj(2) [symmetric] lv, of c])
    fix s7 s'
    assume r: "svc_service_task_create A c arguments s = Some (ERROR_NONE, c, arguments, s')"
      "s' = create_counts A 0 (fold (max_level_step A) [0..<?n] s7)"
      and f: "jmp_list s' = jmp_link 0 (jmp_list s)" "state s' = (state s)(0 := TASK_STATE_SLEEP)"
      "task_obj s' = (task_obj s)(0 := arguments 0)"
      "task_id s' = (task_id s)(0 := make_task_id 0 (total_task_count s))"
      "priority_cur s' = (priority_cur s)(0 := 0)" "task_count s' = task_count s + 1"
      "level_stash s' = level_stash s" "lstash_ptr s' = lstash_ptr s"
      "total_task_count s' = total_task_count s + 1" "pstack_addr s' = pstack_addr s"
      "objs (mcu s') = (objs (mcu s))(arguments 0 := (objs (mcu s) (arguments 0))
        \<lparr>t_task_id := make_task_id 0 (total_task_count s)\<rparr>)"
      and g: "current_task s' = current_task s" "next_task s' = next_task s" "enable_dws s' = enable_dws s"
      "first_start s' = first_start s" "normal_schedule s' = normal_schedule s" "self_kill s' = self_kill s"
      and s7: "state s7 = state s'" "priority_cur s7 = priority_cur s'" "max_level s7 = max_level s"
      "alc s7 = alc s" "hlc s7 = hlc s"
    have live: "live s' i = (i = 0)" if "i < ?n" for i
      using emp that by (simp add: live_def f empty_table_def)
    have id1: "make_task_id 0 (total_task_count s) = 1" using emp by (simp add: make_task_id_def empty_table_def)
    have ti: "task_id s' = (task_id s)(0 := 1)" by (simp only: f(4) id1)
    have "filter (live s') [0..<?n] = filter (\<lambda>i. i = 0) [0..<?n]" using live by (intro filter_cong) auto
    also have "\<dots> = [0]" using n(1) by (simp add: upt_conv_Cons filter_empty_conv)
    finally have fl: "filter (live s') [0..<?n] = [0]" .
    have "kinv ?n s'"
      unfolding kinv_def
    proof (intro conjI)
      show "ring_ok ?n (live s') (jmp_list s')"
        using n live emp by (intro ring_base) (auto simp: f jmp_link_def empty_table_def)
      show "table_ok ?n s'"
        using live emp obj by (auto simp: table_ok_def f(3) ti empty_table_def pid_slot_def drop_bit_eq_div)
      show "unat (task_count s') = length (filter (live s') [0..<?n])"
        using emp by (simp add: fl f empty_table_def)
    qed
    moreover have "stash_ok ?n s'"
      using emp n live by (auto simp: stash_ok_def f empty_table_def incr_upto_def levels_def)
    moreover have m: "max_level s' = 0" "alc s' = 1" "hlc s' = 0"
    proof -
      let ?f = "fold (max_level_step A) [0..<?n] s7"
      have "priority_cur s7 = (\<lambda>_. 0)" using emp by (auto simp: s7 f empty_table_def fun_eq_iff)
      then have mf: "max_level ?f = 0" "alc ?f = 0" "hlc ?f = 0"
        using fold_max_level [of s7 A "[0..<?n]"] emp by (auto simp: s7 empty_table_def)
      have "state ?f 0 = TASK_STATE_SLEEP" "priority_cur ?f 0 = 0" by (simp_all add: kframe s7 f)
      with mf show "max_level s' = 0" "alc s' = 1" "hlc s' = 0"
        by (simp_all add: r(2) create_counts_def Let_def)
    qed
    moreover have "max_ok ?n s'" using m n live emp by (auto simp: max_ok_def f empty_table_def)
    moreover have "count_ok ?n s'"
    proof -
      have "top_slots ?n s' = filter (live s') [0..<?n]"
        unfolding top_slots_def using live by (intro filter_cong) (auto simp: m f)
      then show ?thesis by (simp add: count_ok_def fl m)
    qed
    ultimately show thesis
      using live emp by (intro that [OF r(1)]) (simp_all add: kernel_ok_def f(1-3,5-) ti g empty_table_def fun_eq_iff)
  qed
qed

end

section \<open>The first call\<close>

text \<open>
  What a way to call the kernel promises: the service that creates a task gets the address of the object, and the call
  returns when the service does.
\<close>

locale kernel_call = kernel_port +
  fixes P :: params and call :: supervisor
  assumes call_tasks: "MAX_TASK_COUNT A = MAX_TASK_COUNT P"
    and call_create: "\<exists>b. b 0 = a 0 \<and> (\<forall>s'. svc_service_task_create A CREATE_TASK b s = Some (ERROR_NONE, CREATE_TASK, b, s') \<longrightarrow>
      (\<exists>r. call CREATE_TASK a s = Some (r, s')))"
begin

text \<open>The base task in an empty table.\<close>

lemma init_base_call:
  assumes wf: "wf_params P" and base: "base_task_addr P \<noteq> 0"
    and emp: "empty_table (MAX_TASK_COUNT P) s" and stk: "pstack_addr s \<noteq> 0"
    and cur: "next_task s = 0" "enable_dws s" "normal_schedule s" "\<not> self_kill s"
  obtains s' where "init_base P call regs s = Some s'"
    "kernel_ok (MAX_TASK_COUNT P) s'" "count_ok (MAX_TASK_COUNT P) s'"
    "\<And>i. i < MAX_TASK_COUNT P \<Longrightarrow> live s' i = (i = 0)"
    "current_task s' = 0" "next_task s' = 0" "permissions s' 0 = 0xFFFF" "state s' 0 = TASK_STATE_SLEEP"
    "task_obj s' 0 = base_task_addr P" "task_id s' 0 = 1" "priority_cur s' 0 = 0"
    "enable_dws s'" "normal_schedule s'" "\<not> self_kill s'" "lstash_ptr s' = 1" "\<not> first_start s'"
    "task_count s' = 1" "total_task_count s' = 1" "pstack_addr s' = pstack_addr s"
    "\<And>a. a \<noteq> base_task_addr P \<Longrightarrow> objs (mcu s') a = objs (mcu s) a" "priority_cur s' = (\<lambda>_. 0)"
proof -
  let ?b = "base_task_addr P" and ?n = "MAX_TASK_COUNT P"
  have none: "\<not> find_obj ?n ?b s < ?n"
    using first_idx_hit [of "\<lambda>i. task_obj s i = ?b" ?n] base emp by (auto simp: find_obj_def empty_table_def)
  define s1 where "s1 = on_mcu (obj_update ?b (\<lambda>t. t\<lparr>t_priority := 1, t_task_id := 0, t_hibernate := 0,
    t_op1 := 0, t_op2 := 0, t_value := 0\<rparr>)) s"
  define s2 where "s2 = on_mcu (obj_update ?b (\<lambda>t. t\<lparr>t_ptr_func := BaseTask_addr P\<rparr>)) s1"
  define s3 where "s3 = on_mcu (obj_update ?b (\<lambda>t. t\<lparr>t_priority := 0\<rparr>)) s2"
  have i1: "task_init P ?b s = (ERROR_NONE, s1)" using none by (simp add: task_init_def s1_def)
  have none3: "\<not> find_obj ?n ?b s3 < ?n" using none by (simp add: find_obj_def s3_def s2_def s1_def)
  have emp3: "empty_table (MAX_TASK_COUNT A) s3" using emp by (simp add: call_tasks empty_table_def s3_def s2_def s1_def)
  have o3: "t_priority (objs (mcu s3) ?b) = 0" "t_hibernate (objs (mcu s3) ?b) = 0"
    by (simp_all add: s3_def s2_def s1_def obj_update_def)
  have wfa: "wf_params A" using wf by (simp add: wf_params_def call_tasks)
  have stk3: "pstack_addr s3 \<noteq> 0" using stk by (simp add: s3_def s2_def s1_def on_mcu_def)
  have ib: "init_base P call regs s = map_option
      (\<lambda>(_, s4). s4\<lparr>permissions := (permissions s4)(0 := 0xFFFF), current_task := 0\<rparr>)
      (call CREATE_TASK (regs(0 := ?b, 1 := 0)) s3)"
    using none3
    by (cases "call CREATE_TASK (regs(0 := ?b, 1 := 0)) s3")
      (auto simp: init_base_def i1 task_start_def Let_def s3_def s2_def svc_macro_defs)
  obtain a where a: "a 0 = ?b" and ret: "\<And>s'. svc_service_task_create A CREATE_TASK a s3 =
      Some (ERROR_NONE, CREATE_TASK, a, s') \<Longrightarrow> \<exists>r. call CREATE_TASK (regs(0 := ?b, 1 := 0)) s3 = Some (r, s')"
    using call_create [of "regs(0 := ?b, 1 := 0)" s3] by auto
  show thesis
  proof (rule create_base [OF wfa emp3, of a CREATE_TASK])
    fix s'
    assume c: "svc_service_task_create A CREATE_TASK a s3 = Some (ERROR_NONE, CREATE_TASK, a, s')"
      and k: "kernel_ok (MAX_TASK_COUNT A) s'" "count_ok (MAX_TASK_COUNT A) s'"
      "\<And>i. i < MAX_TASK_COUNT A \<Longrightarrow> live s' i = (i = 0)"
      and f: "task_obj s' 0 = a 0" "task_id s' 0 = 1" "priority_cur s' 0 = 0"
      "current_task s' = current_task s3" "next_task s' = next_task s3" "enable_dws s' = enable_dws s3"
      "normal_schedule s' = normal_schedule s3" "self_kill s' = self_kill s3"
      "state s' 0 = TASK_STATE_SLEEP" "lstash_ptr s' = 1" "first_start s' = first_start s3"
      "task_count s' = 1" "total_task_count s' = 1" "pstack_addr s' = pstack_addr s3"
      and ob: "\<And>x. x \<noteq> a 0 \<Longrightarrow> objs (mcu s') x = objs (mcu s3) x"
      and pr: "priority_cur s' = (\<lambda>_. 0)"
    let ?s = "s'\<lparr>permissions := (permissions s')(0 := 0xFFFF), current_task := 0\<rparr>"
    have lv: "live ?s = live s'" by (simp add: live_def fun_eq_iff)
    have "kernel_ok ?n ?s" by (rule kernel_ok_cong [of _ s']) (use k in \<open>simp_all add: lv call_tasks\<close>)
    moreover have "count_ok ?n ?s" using k(2) by (simp add: count_ok_def top_slots_def lv call_tasks)
    moreover have "init_base P call regs s = Some ?s" using ret [OF c] by (auto simp: ib)
    ultimately show thesis
      using k(3) f ob pr cur emp
      by (intro that [of ?s]) (simp_all add: lv s3_def s2_def s1_def empty_table_def obj_update_def a call_tasks)
  qed (use base o3 stk3 in \<open>simp_all add: a\<close>)
qed

end

interpretation armc: kernel_call "arm_port P" P "arm_call P slot" for P slot
proof unfold_locales
  fix a s
  show "\<exists>b. b 0 = a 0 \<and> (\<forall>s'. svc_service_task_create (arm_port P) CREATE_TASK b s = Some (ERROR_NONE, CREATE_TASK, b, s') \<longrightarrow>
      (\<exists>r. arm_call P slot CREATE_TASK a s = Some (r, s')))"
    by (rule exI [of _ a]) (auto simp: arm_call_def svc_dispatch_def svc_handler.simps [of _ _ CREATE_TASK])
qed simp

section \<open>kernel\_init on ARM\<close>

text \<open>
  The layout of the ARM build: the vector table is at the start of the RAM, and the 24-bit
  tick timer can hold the reload value.
\<close>

definition arm_layout :: "params \<Rightarrow> arm_env \<Rightarrow> bool" where
  "arm_layout P E \<longleftrightarrow> vector_ram E = 0x20000000 \<and> KERNEL_START_ADDRESS P = 0x20000000 \<and>
     NUM_OF_INTERRUPTS P \<le> 256"

text \<open>\<open>quiet g\<close>: an operation on the machine that keeps the MPU type register and the task objects.\<close>

definition quiet :: "(mcu \<Rightarrow> mcu) \<Rightarrow> bool" where
  "quiet g \<longleftrightarrow> (\<forall>m. HWREG MPUTYPE (g m) = HWREG MPUTYPE m \<and> objs (g m) = objs m)"

lemma quiet_comp: "quiet f \<Longrightarrow> quiet g \<Longrightarrow> quiet (f \<circ> g)"
  by (simp add: quiet_def)

lemma quiet_store: "a \<noteq> MPUTYPE \<Longrightarrow> quiet (hwreg_store a v)"
  "a \<noteq> MPUTYPE \<Longrightarrow> quiet (hwreg_or a v)" "a \<noteq> MPUTYPE \<Longrightarrow> quiet (hwreg_and a v)"
  "a \<noteq> MPUTYPE \<Longrightarrow> quiet (\<lambda>m. hwreg_store a (f m) m)"
  by (simp_all add: quiet_def hwreg_store_def hwreg_or_def hwreg_and_def HWREG_def)

lemma on_mcu_comp: "on_mcu f (on_mcu g s) = on_mcu (f \<circ> g) s"
  by (simp add: on_mcu_def)

lemma quiet_relocate:
  assumes "arm_layout P E"
  shows "quiet (arm_vector_table_relocate P (vector_ram E))"
proof -
  have ne: "(0x20000000 :: u32) + 4 * of_nat i \<noteq> MPUTYPE" if "i < 256" for i
  proof
    assume eq: "(0x20000000 :: u32) + 4 * of_nat i = MPUTYPE"
    have "unat ((0x20000000 :: u32) + 4 * of_nat i) = 0x20000000 + 4 * i"
      using that by (simp add: unat_word_ariths unat_of_nat take_bit_eq_mod)
    then have "0x20000000 + 4 * i = 0xE000ED90" unfolding eq by simp
    then show False using that by simp
  qed
  have "HWREG MPUTYPE (fold (\<lambda>i m. mem_store (0x20000000 + 4 * of_nat i) (f i m) m) xs m) = HWREG MPUTYPE m \<and>
      objs (fold (\<lambda>i m. mem_store (0x20000000 + 4 * of_nat i) (f i m) m) xs m) = objs m"
    if "set xs \<subseteq> {..<256}" for f xs m
    using that
  proof (induction xs arbitrary: m)
    case (Cons x xs)
    then show ?case using ne [of x] by (simp add: mem_store_def HWREG_def)
  qed simp
  with assms show ?thesis
    by (simp add: quiet_def arm_vector_table_relocate_def Let_def arm_layout_def hwreg_store_def HWREG_def subset_iff)
qed

lemma arm_kernel_init_quiet:
  assumes "arm_layout P E" and "0 < MAX_TASK_COUNT P" "current_task s = 0" "permissions s 0 = 0"
  obtains g where "arm_kernel_init P E (arm_call P slot) regs s = Some (ERROR_NONE, on_mcu g s)" "quiet g"
proof -
  define g where "g = (if 1 \<le> DISABLE_BUFFER E then hwreg_or ACTLR 0x00000002 else id) \<circ>
    hwreg_or SYSPRI3 0x00E00000 \<circ> hwreg_or SYSPRI3 0xE0000000 \<circ> hwreg_or SYSPRI2 0x00000000 \<circ>
    hwreg_store (0x20000000 + 14 * 4) (pendsv_handler_addr E) \<circ>
    hwreg_store (0x20000000 + 11 * 4) (svc_handler_addr E) \<circ> hwreg_and APINT 0x0000FFFF \<circ>
    (\<lambda>m. hwreg_store APINT (0x05FA0000 OR 0x00000400 OR (HWREG APINT m AND 0x0000FFFF)) m)"
  have "quiet id" by (simp add: quiet_def)
  then have "quiet g" unfolding g_def by (intro quiet_comp quiet_store) (auto intro: quiet_store)
  moreover have "arm_kernel_init P E (arm_call P slot) regs s = Some (ERROR_NONE, on_mcu g s)"
    unfolding arm_kernel_init_def Let_def
    using assms by (subst set_priority_refused) (auto simp: on_mcu_comp g_def arm_layout_def comp_assoc)
  ultimately show thesis by (rule that [rotated])
qed

lemma arm_timer_quiet:
  assumes "arm_layout P E" and "f div TASK_PER_SEC P < 16777216"
  obtains g where "arm_os_timer_init P E f s = (ERROR_NONE, on_mcu g (s\<lparr>cpu_freq := f\<rparr>))" "quiet g"
proof -
  define g where "g = hwreg_store (0x20000000 + 15 * 4) (scheduler_addr E) \<circ> hwreg_or STCTRL 0x00000004 \<circ>
    hwreg_store STCURRENT 0 \<circ> hwreg_store STRELOAD (0x00FFFFFF AND f div TASK_PER_SEC P) \<circ>
    hwreg_store STRELOAD 0"
  have "quiet g" unfolding g_def by (intro quiet_comp quiet_store) simp_all
  moreover have "arm_os_timer_init P E f s = (ERROR_NONE, on_mcu g (s\<lparr>cpu_freq := f\<rparr>))"
    using assms by (simp add: arm_os_timer_init_def arm_os_timer_config_def Let_def on_mcu_comp g_def
        arm_layout_def comp_assoc not_le)
  ultimately show thesis by (rule that [rotated])
qed

lemma arm_mpu_objs:
  assumes "HWREG MPUTYPE (mcu s) \<noteq> 0"
  obtains m where "arm_mpu_init P E s = (ERROR_NONE, s\<lparr>mcu := m\<rparr>)" "objs m = objs (mcu s)"
proof -
  have "objs (fold (\<lambda>i. mpu_region (of_nat i) 0 0) xs m) = objs m" for xs and m
    by (induction xs arbitrary: m) (simp_all add: mpu_region_def)
  then show thesis
    using assms by (intro that [of "mcu (snd (arm_mpu_init P E s))"])
      (simp_all add: arm_mpu_init_def mpu_region_def on_mcu_def)
qed

lemma heap_init_objs: "objs (heap_init P H m) = objs m"
proof -
  have "objs (fold (\<lambda>r1. mem_store (base + 4 * of_nat r1) 0) xs m) = objs m" for base xs and m
    by (induction xs arbitrary: m) (simp_all add: mem_store_def)
  then show ?thesis by (simp add: heap_init_def heap_clear_def Let_def mem_store_def)
qed

text \<open>The whole of \<open>kernel_init\<close>, from the boot values of the kernel variables.\<close>

lemma kernel_init_arm:
  assumes wf: "wf_params P" and lay: "arm_layout P E" and base: "base_task_addr P \<noteq> 0"
    and heap: "proc_heap_addr P \<noteq> 0" and mpu: "HWREG MPUTYPE m \<noteq> 0"
  obtains s' where "kernel_init P (arm_boot P E H (arm_call P slot) regs) (arm_call P slot) regs (kvar_init m) =
      Some (ERROR_NONE, s')"
    "kernel_ok (MAX_TASK_COUNT P) s'" "count_ok (MAX_TASK_COUNT P) s'"
    "\<And>i. i < MAX_TASK_COUNT P \<Longrightarrow> live s' i = (i = 0)"
    "current_task s' = 0" "next_task s' = 0" "permissions s' 0 = 0xFFFF" "state s' 0 = TASK_STATE_SLEEP"
    "task_obj s' 0 = base_task_addr P" "task_id s' 0 = 1" "priority_cur s' 0 = 0"
    "enable_dws s'" "normal_schedule s'" "\<not> self_kill s'" "lstash_ptr s' = 1" "\<not> first_start s'"
    "task_count s' = 1" "total_task_count s' = 1" "pstack_addr s' = proc_heap_addr P"
    "\<And>a. a \<noteq> base_task_addr P \<Longrightarrow> objs (mcu s') a = objs m a" "priority_cur s' = (\<lambda>_. 0)"
proof -
  let ?n = "MAX_TASK_COUNT P" and ?B = "arm_boot P E H (arm_call P slot) regs"
  define s1 where "s1 = on_mcu (arm_vector_table_relocate P (vector_ram E)) ((kvar_init m)\<lparr>first_start := False\<rparr>)"
  have n: "0 < ?n" using wf by (simp add: wf_params_def)
  have c1: "current_task s1 = 0" "permissions s1 0 = 0" by (simp_all add: s1_def on_mcu_def kvar_init_def)
  obtain g2 where g2: "arm_kernel_init P E (arm_call P slot) regs s1 = Some (ERROR_NONE, on_mcu g2 s1)" "quiet g2"
    by (rule arm_kernel_init_quiet [OF lay n c1])
  define s2 where "s2 = on_mcu g2 s1"
  have f2: "cpu_freq s2 = 0" by (simp add: s2_def s1_def on_mcu_def kvar_init_def)
  obtain g3 where g3: "arm_os_timer_init P E 0 s2 = (ERROR_NONE, on_mcu g3 (s2\<lparr>cpu_freq := 0\<rparr>))" "quiet g3"
    by (rule arm_timer_quiet [OF lay, of 0]) simp_all
  define s3 where "s3 = on_mcu g3 (s2\<lparr>cpu_freq := 0\<rparr>)"
  define s5 where "s5 = (init_states ?n s3)\<lparr>pstack_addr := proc_heap_addr P\<rparr>"
  have "HWREG MPUTYPE (mcu s5) \<noteq> 0"
    using mpu g2(2) g3(2) quiet_relocate [OF lay]
    by (simp add: s5_def s3_def s2_def s1_def on_mcu_def init_states_eq kvar_init_def quiet_def)
  then obtain m6 where m6: "arm_mpu_init P E s5 = (ERROR_NONE, s5\<lparr>mcu := m6\<rparr>)"
    and o6: "objs m6 = objs (mcu s5)" by (rule arm_mpu_objs)
  define s6 where "s6 = s5\<lparr>mcu := m6\<rparr>"
  have emp: "empty_table ?n s6"
    by (simp add: s6_def s5_def s3_def s2_def s1_def on_mcu_def init_states_eq kvar_init_def empty_table_def)
  have o6: "objs (mcu s6) = objs m"
    using o6 g2(2) g3(2) quiet_relocate [OF lay]
    by (simp add: s6_def s5_def s3_def s2_def s1_def on_mcu_def init_states_eq kvar_init_def quiet_def)
  have p6: "pstack_addr s6 = proc_heap_addr P" by (simp add: s6_def s5_def)
  have f6: "pstack_addr s6 \<noteq> 0" "next_task s6 = 0" "enable_dws s6" "normal_schedule s6" "\<not> self_kill s6"
    using heap by (simp_all add: s6_def s5_def s3_def s2_def s1_def on_mcu_def init_states_eq kvar_init_def)
  show thesis
  proof (rule armc.init_base_call [OF wf base emp f6, of slot regs])
    fix s7
    assume b: "init_base P (arm_call P slot) regs s6 = Some s7"
      and k: "kernel_ok ?n s7" "count_ok ?n s7" "\<And>i. i < ?n \<Longrightarrow> live s7 i = (i = 0)"
      and f: "current_task s7 = 0" "next_task s7 = 0" "permissions s7 0 = 0xFFFF" "state s7 0 = TASK_STATE_SLEEP"
        "task_obj s7 0 = base_task_addr P" "task_id s7 0 = 1" "priority_cur s7 0 = 0"
        "enable_dws s7" "normal_schedule s7" "\<not> self_kill s7" "lstash_ptr s7 = 1" "\<not> first_start s7"
        "task_count s7 = 1" "total_task_count s7 = 1" "pstack_addr s7 = pstack_addr s6"
      and ob: "\<And>a. a \<noteq> base_task_addr P \<Longrightarrow> objs (mcu s7) a = objs (mcu s6) a"
      and pr: "priority_cur s7 = (\<lambda>_. 0)"
    let ?s = "on_mcu (heap_init P H) s7"
    have "kernel_init P ?B (arm_call P slot) regs (kvar_init m) = Some (ERROR_NONE, ?s)"
      using g2(1) g3(1) m6 b
      by (simp add: kernel_init_def arm_boot_def Let_def s1_def [symmetric] s2_def [symmetric] f2
          s3_def [symmetric] s5_def [symmetric] s6_def [symmetric])
    moreover have lv: "live (s7\<lparr>mcu := heap_init P H (mcu s7)\<rparr>) = live s7" by (simp add: live_def fun_eq_iff)
    moreover have "kernel_ok ?n ?s" by (rule kernel_ok_cong [of _ s7]) (use k lv in \<open>simp_all add: on_mcu_def\<close>)
    moreover have "count_ok ?n ?s" using k(2) by (simp add: on_mcu_def count_ok_def top_slots_def lv)
    ultimately show thesis using k(3) f ob pr by (intro that [of ?s]) (simp_all add: lv on_mcu_def o6 p6 heap_init_objs)
  qed
qed

end
