(* ===== verification/SelfEnd.thy ===== *)
theory SelfEnd
  imports SchedSafe
begin

text \<open>
  The scheduler after a task has ended itself. The slot of the current task is no longer part of the ring, so the
  second loop never passes it and never goes down to a lower level: it ends exactly when some task of
  the highest level is ready after the wake-up.
\<close>

section \<open>The second loop without the current task\<close>

definition left_ring :: "nat \<Rightarrow> kstate \<Rightarrow> bool" where
  "left_ring n s \<longleftrightarrow> ring_ok n (live s) (jmp_list s) \<and> unat (next_task s) < n \<and> live s (unat (next_task s)) \<and>
     \<not> live s (unat (current_task s))"

definition none_ready :: "nat \<Rightarrow> u8 \<Rightarrow> kstate \<Rightarrow> bool" where
  "none_ready n l s \<longleftrightarrow> (\<forall>i < n. \<not> ready s l i)"

lemma sched_loop_spins:
  assumes "left_ring n s" and "none_ready n l s"
  shows "sched_loop n l p s = None"
proof (cases "sched_loop n l p s")
  case (Some y)
  have "\<not> (left_ring n s \<and> none_ready n l s)"
  proof (rule sched_loop.raw_induct [OF _ Some, where P = "\<lambda>n l p s y. \<not> (left_ring n s \<and> none_ready n l s)"])
    fix f :: "nat \<Rightarrow> u8 \<Rightarrow> u8 \<Rightarrow> kstate \<Rightarrow> (kstate \<times> u8) option" and n l p y and s :: kstate
    assume IH: "\<And>n l p s y. f n l p s = Some y \<Longrightarrow> \<not> (left_ring n s \<and> none_ready n l s)"
    let ?s = "s\<lparr>next_task := jmp_step32 (jmp_list s) (next_task s)\<rparr>"
    assume body: "(do { chk (unat (next_task s) < n);
       let s1 = ?s;
       (level1, lptr1) \<leftarrow> pass_current n s1 l p;
       chk (unat (next_task s1) < n);
       (if state s1 (unat (next_task s1)) = TASK_STATE_SLEEP \<and> priority_cur s1 (unat (next_task s1)) = level1
        then Some (s1, level1) else f n level1 lptr1 s1) }) = Some y"
    show "\<not> (left_ring n s \<and> none_ready n l s)"
    proof
      assume a: "left_ring n s \<and> none_ready n l s"
      then have r: "ring_ok n (live s) (jmp_list s)" "unat (next_task s) < n" "live s (unat (next_task s))"
        "\<not> live s (unat (current_task s))" and nr: "none_ready n l s" by (simp_all add: left_ring_def)
      have nx: "unat (next_task ?s) < n" "live s (unat (next_task ?s))"
        using jmp_step32_nxt [OF r(1-3)] jmp_nxt_int(2,3) [OF r(1-3)] by simp_all
      then have cur: "current_task s \<noteq> next_task ?s" using r(4) by metis
      have "\<not> ready s l (unat (next_task ?s))" using nr nx(1) by (simp add: none_ready_def)
      then have "f n l p ?s = Some y"
        using body nx(1) cur by (auto simp: pass_current_def ready_def Let_def)
      moreover have "live ?s = live s" by (simp add: live_def fun_eq_iff)
      then have "left_ring n ?s" using r nx by (simp add: left_ring_def)
      moreover have "none_ready n l ?s" using nr by (simp add: none_ready_def ready_def)
      ultimately show False using IH by blast
    qed
  qed
  with assms show ?thesis by blast
qed

lemma ready_live: "ready s l i \<Longrightarrow> live s i"
  by (simp add: ready_def live_def)

lemma sched_loop_left:
  assumes left: "left_ring n s" and p: "unat p \<le> n" and dws: "enable_dws s"
  shows "sched_loop n l p s = map_option (chosen s)
    (find (is_ready s) (map (\<lambda>i. (i, l)) (jr.walk n (ring_of s) (unat (next_task s)))))"
proof -
  let ?a = "unat (next_task s)"
  have r: "ring_ok n (live s) (jmp_list s)" "?a < n" "live s ?a" "\<not> live s (unat (current_task s))"
    using left by (simp_all add: left_ring_def)
  have inv: "jmp_inv n (ring_of s)" "?a \<in> set (jmp_slots n (ring_of s))"
    using r by (simp_all add: inv_ring slots_ring live_slots_mem)
  let ?m = "length (live_slots n s)"
  have w: "jr.walk n (ring_of s) ?a = map (\<lambda>m. (ring_nxt s ^^ Suc m) ?a) [0..<?m]"
    by (simp only: jr.walk_def slots_ring ring_nxt_def)
  have wl: "map (\<lambda>i. (i, l)) (jr.walk n (ring_of s) ?a) = map (\<lambda>m. ((ring_nxt s ^^ Suc m) ?a, l)) [0..<?m]"
    by (simp only: w map_map comp_def)
  have off: "(ring_nxt s ^^ Suc j) ?a \<noteq> unat (current_task s)" for j
    using ring_iter_mem [OF r(1-3), of "Suc j"] r(4) by metis
  have home: "(ring_nxt s ^^ ?m) ?a = ?a"
  proof -
    obtain k where k: "?m = Suc k" using jr.slots_ne [OF inv(1)] by (cases ?m) (auto simp: slots_ring)
    then show ?thesis using jr.walk_last [OF inv] unfolding w by simp
  qed
  have same: "s\<lparr>next_task := of_nat ?a\<rparr> = s" by simp
  note st = sched_loop_stretch [OF r(1-3) p dws off, of l ?m, unfolded same home]
  show ?thesis
  proof (cases "find (is_ready s) (map (\<lambda>i. (i, l)) (jr.walk n (ring_of s) ?a))")
    case (Some c)
    then show ?thesis using st unfolding wl by simp
  next
    case None
    have "\<not> ready s l i" if "i < n" for i
    proof
      assume rd: "ready s l i"
      then have "i \<in> set (jr.walk n (ring_of s) ?a)"
        using jr.walk_set [OF inv] ready_live [OF rd] that by (simp add: slots_ring live_slots_mem)
      with None rd show False by (auto simp: find_None_iff is_ready_def)
    qed
    then have "none_ready n l s" by (simp add: none_ready_def)
    then show ?thesis using sched_loop_spins [OF left] None by simp
  qed
qed


section \<open>A tick after the end of the current task\<close>

text \<open>The kernel after the end of the current task: its slot is free, and \<open>next_task\<close> is its successor.\<close>

definition end_pre :: "nat \<Rightarrow> kstate \<Rightarrow> bool" where
  "end_pre n s \<longleftrightarrow> kernel_ok n s \<and> unat (next_task s) < n \<and> live s (unat (next_task s)) \<and>
     unat (current_task s) < n \<and> \<not> live s (unat (current_task s)) \<and> enable_dws s \<and> \<not> normal_schedule s \<and>
     (\<forall>i < n. state s i \<noteq> TASK_STATE_ACTIVE)"

definition end_pick :: "port \<Rightarrow> kstate \<Rightarrow> (nat \<times> u8) option" where
  "end_pick A s = find (is_ready (woken A s))
     (map (\<lambda>i. (i, max_level s)) (jr.walk (MAX_TASK_COUNT A) (ring_of (woken A s)) (unat (next_task s))))"

lemma end_woken:
  assumes "end_pre (MAX_TASK_COUNT A) s"
  shows "live (woken A s) = live s" "kernel_ok (MAX_TASK_COUNT A) (woken A s)"
    "left_ring (MAX_TASK_COUNT A) (woken A s)"
    "i < MAX_TASK_COUNT A \<Longrightarrow> state (woken A s) i \<noteq> TASK_STATE_ACTIVE"
    "self_kill (woken A s) = self_kill s"
    "state (woken A s) i = state s i \<or> due (entered A s) i"
proof -
  let ?n = "MAX_TASK_COUNT A"
  have e: "state (entered A s) = state s" using assms by (simp add: entered_state end_pre_def)
  then have le: "live (entered A s) = live s" by (simp add: live_def fun_eq_iff)
  then show lv: "live (woken A s) = live s" by (simp only: woken_frame)
  show "kernel_ok ?n (woken A s)"
    by (rule kernel_ok_cong [of _ s]) (use assms lv in \<open>simp_all add: end_pre_def woken_frame\<close>)
  then show "left_ring ?n (woken A s)"
    using assms lv by (auto simp: left_ring_def end_pre_def kernel_ok_def kinv_def woken_frame)
  have "ring_ok ?n (live (entered A s)) (jmp_list (entered A s))"
    using assms le by (simp add: end_pre_def kernel_ok_def kinv_def entered_frame)
  then have d: "distinct (ring_round ?n (entered A s) (unat (next_task s)))"
    by (rule ring_round_set) (use assms le in \<open>simp_all add: end_pre_def\<close>)
  show "state (woken A s) i \<noteq> TASK_STATE_ACTIVE" if "i < ?n"
    using that assms by (simp add: woken_def fold_hib_state [OF d] e end_pre_def)
  show "state (woken A s) i = state s i \<or> due (entered A s) i"
    by (simp add: woken_def fold_hib_state [OF d] e)
  have "self_kill (fold hib_check xs u) = self_kill u" for xs u
    by (induction xs arbitrary: u) (simp_all add: hib_check_due hib_wake_def Let_def)
  then show "self_kill (woken A s) = self_kill s" by (simp add: woken_def entered_def Let_def)
qed

lemma scheduler_end:
  assumes "end_pre (MAX_TASK_COUNT A) s"
  shows "scheduler A s = map_option (\<lambda>(i, l). sched_leave A l ((woken A s)\<lparr>next_task := of_nat i\<rparr>)) (end_pick A s)"
proof -
  let ?n = "MAX_TASK_COUNT A" and ?w = "woken A s"
  have a: "ring_ok ?n (live s) (jmp_list s)" "unat (next_task s) < ?n" "live s (unat (next_task s))"
    "unat (current_task s) < ?n" "enable_dws s" "unat (lstash_ptr s) \<le> ?n" "0 < unat (lstash_ptr s)"
    using assms by (auto simp: end_pre_def kernel_ok_def kinv_def stash_ok_def)
  have "state (entered A s) = state s" using assms by (simp add: entered_state end_pre_def)
  then have lv: "live (entered A s) = live s" by (simp add: live_def fun_eq_iff)
  have h: "hib_loop ?n (ucast (next_task (entered A s))) (entered A s) = Some ?w"
    unfolding woken_def using hib_loop_round [of ?n "entered A s"] a by (simp add: entered_frame lv)
  have lp: "unat (lstash_ptr ?w - 1) \<le> ?n"
    using unat_pred_u8 [of "lstash_ptr s"] a by (simp add: woken_frame)
  have dws: "enable_dws ?w" using a(5) by (simp add: woken_frame)
  have "sched_loop ?n (max_level ?w) (lstash_ptr ?w - 1) ?w = map_option (chosen ?w) (end_pick A s)"
    unfolding sched_loop_left [OF end_woken(3) [OF assms] lp dws] by (simp only: end_pick_def woken_frame)
  then show ?thesis
    using h sched_enter_entered [OF a(4)]
    by (cases "end_pick A s") (simp_all add: scheduler_def chosen_def split: prod.splits)
qed

text \<open>The tick ends exactly when a task of the highest level is ready, and then one of these runs.\<close>

lemma end_pick_iff:
  assumes "end_pre (MAX_TASK_COUNT A) s"
  shows "end_pick A s = None \<longleftrightarrow> (\<forall>i < MAX_TASK_COUNT A. \<not> ready (woken A s) (max_level s) i)"
    and "end_pick A s = Some (i, l) \<Longrightarrow> i < MAX_TASK_COUNT A \<and> live (woken A s) i \<and> l = max_level s \<and> ready (woken A s) l i"
proof -
  let ?n = "MAX_TASK_COUNT A" and ?w = "woken A s"
  have l: "left_ring ?n ?w" by (rule end_woken [OF assms])
  then have inv: "jmp_inv ?n (ring_of ?w)" "unat (next_task ?w) \<in> set (jmp_slots ?n (ring_of ?w))"
    by (simp_all add: left_ring_def inv_ring slots_ring live_slots_mem)
  have ws: "set (jr.walk ?n (ring_of ?w) (unat (next_task s))) = {i. i < ?n \<and> live ?w i}"
    unfolding jr.walk_set [OF inv, unfolded woken_frame(2) slots_ring] using live_slots_mem by blast
  show "end_pick A s = None \<longleftrightarrow> (\<forall>i < ?n. \<not> ready ?w (max_level s) i)"
  proof -
    have "end_pick A s = None \<longleftrightarrow> (\<forall>i \<in> set (jr.walk ?n (ring_of ?w) (unat (next_task s))). \<not> ready ?w (max_level s) i)"
      by (simp add: end_pick_def find_None_iff is_ready_def)
    then show ?thesis unfolding ws using ready_live by blast
  qed
  show "i < ?n \<and> live ?w i \<and> l = max_level s \<and> ready ?w l i" if "end_pick A s = Some (i, l)"
  proof -
    have "(i, l) \<in> (\<lambda>i. (i, max_level s)) ` set (jr.walk ?n (ring_of ?w) (unat (next_task s)))" "is_ready ?w (i, l)"
      using that by (auto simp: end_pick_def find_Some_iff)
    then show ?thesis unfolding ws by (auto simp: is_ready_def)
  qed
qed

lemma end_tick:
  assumes pre: "end_pre (MAX_TASK_COUNT A) s" and tick: "kernel_tick A psp s = Some s'"
  obtains i where "i < MAX_TASK_COUNT A" "ready (woken A s) (max_level s) i" "current_task s' = of_nat i"
    "state s' = (state (woken A s))(i := TASK_STATE_ACTIVE)" "run_ok (MAX_TASK_COUNT A) s'"
    "self_kill s' = self_kill s" "priority_cur s' = priority_cur s"
proof -
  obtain i l where p: "end_pick A s = Some (i, l)"
    and s': "s' = context_switch psp (sched_leave A l ((woken A s)\<lparr>next_task := of_nat i\<rparr>))"
    using tick scheduler_end [OF pre] by (auto simp: kernel_tick_def)
  note i = end_pick_iff(2) [OF pre p]
  have dws: "enable_dws (woken A s)" using pre by (simp add: woken_frame end_pre_def)
  note w = end_woken [OF pre]
  note r = leave_result [OF w(2) dws woken_normal w(4) i [THEN conjunct1] _ s']
  have "ready (woken A s) (max_level s) i" using i by metis
  with i r w(5) show thesis by (intro that) (simp_all add: woken_frame)
qed

end
