(* ===== verification/KernelSteps.thy ===== *)
theory KernelSteps
  imports SelfEnd SvcInv
begin

text \<open>
  The kernel as a state machine: between two moments at which a task runs, the kernel serves a
  tick or one supervisor call, and after the call the scheduler if the call has requested
  it. This theory has the steps that also keep the sorted stash of levels, and that they keep the whole
  invariant \<open>step_ok\<close>; the steps with all services and their weaker invariant are in the
  theory CoreInv.
\<close>

section \<open>Steps\<close>

text \<open>
  After a service: \<open>normal_schedule\<close> is false exactly when the service has triggered the
  scheduler; then the scheduler and the context switch run before any task does.
\<close>

definition settle :: "port \<Rightarrow> u32 \<Rightarrow> kstate \<Rightarrow> kstate option" where
  "settle A psp s = (if normal_schedule s then Some s else kernel_tick A psp s)"

text \<open>
  A request is served: the call as \<open>svc_handler\<close> dispatches it, then \<open>settle\<close>.
\<close>

definition serve :: "port \<Rightarrow> u32 \<Rightarrow> u32 \<Rightarrow> u32 \<Rightarrow> svc_args \<Rightarrow> kstate \<Rightarrow> (u32 \<times> kstate) option" where
  "serve A psp slot code arguments s = do {
     (r, s1) \<leftarrow> svc_handler A slot code arguments s;
     s2 \<leftarrow> settle A psp s1;
     Some (r, s2)
   }"

text \<open>
  The plain steps: no promotions and demotions, no requests to the base task and no creations out of the order of the levels.
  Creation: a request the kernel accepts, with a level in order, or one it refuses.
  Kill: what \<open>task_kill\<close> passes on, the identifier of a slot in use, for another task
  than the base task and the caller. End: what \<open>resolve_end\<close> passes on when the function of a task other than the
  base task returns. The services that access registers, the
  interrupt controller, the timer and the permissions are taken with any arguments.
\<close>

inductive plain_step :: "port \<Rightarrow> kstate \<Rightarrow> kstate \<Rightarrow> bool" for A where
  tick: "kernel_tick A psp s = Some s' \<Longrightarrow> plain_step A s s'"
| hand_over: "serve A psp slot HAND_OVER arguments s = Some (r, s') \<Longrightarrow> plain_step A s s'"
| hibernate: "serve A psp slot HIBERNATE arguments s = Some (r, s') \<Longrightarrow> plain_step A s s'"
| create: "serve A psp slot CREATE_TASK arguments s = Some (r, s') \<Longrightarrow>
    create_ready A arguments s \<Longrightarrow> unat (lstash_ptr s) < MAX_TASK_COUNT A \<Longrightarrow>
    level_in_order s (t_priority (objs (mcu s) (arguments 0))) \<Longrightarrow> plain_step A s s'"
| refuse: "serve A psp slot CREATE_TASK arguments s = Some (r, s') \<Longrightarrow> r \<noteq> ERROR_NONE \<Longrightarrow> plain_step A s s'"
| kill: "serve A psp slot KILL_TASK arguments s = Some (r, s') \<Longrightarrow>
    i < MAX_TASK_COUNT A \<Longrightarrow> live s i \<Longrightarrow> i \<noteq> 0 \<Longrightarrow> i \<noteq> unat (current_task s) \<Longrightarrow>
    arguments 0 = task_id s i \<Longrightarrow> arguments 1 = 0 \<Longrightarrow>
    unat (lstash_ptr s) < MAX_TASK_COUNT A \<Longrightarrow> plain_step A s s'"
| end_task: "serve A psp slot KILL_TASK arguments s = Some (r, s') \<Longrightarrow>
    unat (current_task s) \<noteq> 0 \<Longrightarrow> arguments 0 = task_id s (unat (current_task s)) \<Longrightarrow> arguments 1 = 1 \<Longrightarrow>
    unat (lstash_ptr s) < MAX_TASK_COUNT A \<Longrightarrow> plain_step A s s'"
| device: "serve A psp slot code arguments s = Some (r, s') \<Longrightarrow>
    code \<in> {HWREG_WRITE, HWREG_READ, INT_ENABLE, INT_DISABLE, INT_REGISTER, SET_PRIORITY, CPU_FREQ,
      GRANT_PERMISSION} \<Longrightarrow> plain_step A s s'"

inductive_cases plain_stepE: "plain_step A s s'"

section \<open>The services keep the invariant\<close>

text \<open>The invariant of the machine: besides \<open>run_ok\<close>, no self-kill is pending and the base task has level 0.\<close>

definition step_ok :: "nat \<Rightarrow> kstate \<Rightarrow> bool" where
  "step_ok n s \<longleftrightarrow> run_ok n s \<and> \<not> self_kill s \<and> priority_cur s 0 = 0"

definition step_pre :: "nat \<Rightarrow> kstate \<Rightarrow> bool" where
  "step_pre n s \<longleftrightarrow> sched_pre n s \<and> \<not> self_kill s \<and> priority_cur s 0 = 0"

lemma self_kill_tick: "kernel_tick A psp s = Some s' \<Longrightarrow> sched_pre (MAX_TASK_COUNT A) s \<Longrightarrow>
    self_kill s' = self_kill s \<and> priority_cur s' = priority_cur s"
proof -
  assume t: "kernel_tick A psp s = Some s'" and p: "sched_pre (MAX_TASK_COUNT A) s"
  obtain i l where "sched_pick A s = Some (i, l)"
    and s': "s' = context_switch psp (sched_leave A l ((woken A s)\<lparr>next_task := of_nat i\<rparr>))"
    using t scheduler_pick [OF sched_preD [OF p]] by (auto simp: kernel_tick_def)
  have "self_kill (fold hib_check xs u) = self_kill u" for xs u
    by (induction xs arbitrary: u) (simp_all add: hib_check_due hib_wake_def Let_def)
  then have "self_kill (woken A s) = self_kill s" by (simp add: woken_def entered_def Let_def)
  then show ?thesis
    by (simp add: s' context_switch_def sched_leave_def Let_def woken_frame)
qed

lemma tick_step_ok:
  assumes "step_pre (MAX_TASK_COUNT A) s" and "kernel_tick A psp s = Some s'"
  shows "step_ok (MAX_TASK_COUNT A) s'"
proof -
  have p: "sched_pre (MAX_TASK_COUNT A) s" using assms(1) by (simp add: step_pre_def)
  have "run_ok (MAX_TASK_COUNT A) s'" by (rule tick_result [OF p assms(2)])
  with self_kill_tick [OF assms(2) p] assms(1) show ?thesis by (simp add: step_ok_def step_pre_def)
qed

lemma settle_step_ok:
  assumes "step_ok (MAX_TASK_COUNT A) s \<or> \<not> normal_schedule s \<and> step_pre (MAX_TASK_COUNT A) s"
    and "settle A psp s = Some s'"
  shows "step_ok (MAX_TASK_COUNT A) s'"
  using assms tick_step_ok by (auto simp: settle_def step_ok_def run_ok_def split: if_splits)

lemma step_ok_pre: "step_ok n s \<Longrightarrow> step_pre n s"
  using run_ok_sched_pre by (auto simp: step_ok_def step_pre_def)

text \<open>A state that agrees on what the invariant reads.\<close>

lemma step_ok_cong:
  assumes "step_ok n s" and "state s' = state s" "jmp_list s' = jmp_list s" "task_obj s' = task_obj s"
    "task_id s' = task_id s" "task_count s' = task_count s" "priority_cur s' = priority_cur s"
    "max_level s' = max_level s" "level_stash s' = level_stash s" "lstash_ptr s' = lstash_ptr s"
    "current_task s' = current_task s" "next_task s' = next_task s" "enable_dws s' = enable_dws s"
    "normal_schedule s' = normal_schedule s" "self_kill s' = self_kill s"
  shows "step_ok n s'"
proof -
  have lv: "live s' = live s" by (simp add: live_def fun_eq_iff assms(2))
  have "kernel_ok n s'"
    by (rule kernel_ok_cong [of n s]) (use assms(1) in \<open>simp_all add: step_ok_def run_ok_def lv assms(2-)\<close>)
  with assms(1) show ?thesis by (simp add: step_ok_def run_ok_def assms(2-))
qed

text \<open>The running task leaves the processor in a state other than active and idle.\<close>

lemma leave_step_pre:
  assumes ok: "step_ok n s" and st: "state s' = (state s)(unat (current_task s) := st)"
    "st \<noteq> TASK_STATE_IDLE" "st \<noteq> TASK_STATE_ACTIVE"
    and fr: "jmp_list s' = jmp_list s" "task_obj s' = task_obj s"
    "task_id s' = task_id s" "task_count s' = task_count s" "priority_cur s' = priority_cur s"
    "max_level s' = max_level s" "level_stash s' = level_stash s" "lstash_ptr s' = lstash_ptr s"
    "current_task s' = current_task s" "next_task s' = next_task s" "enable_dws s' = enable_dws s"
    "self_kill s' = self_kill s"
  shows "step_pre n s'"
proof -
  have cur: "live s (unat (current_task s))"
    using ok run_ok_sched_pre by (auto simp: step_ok_def sched_pre_def)
  then have lv: "live s' = live s" using st by (auto simp: live_def fun_eq_iff)
  have "kernel_ok n s'"
    by (rule kernel_ok_cong [of n s]) (use ok in \<open>simp_all add: step_ok_def run_ok_def lv fr\<close>)
  moreover have "live s' (unat (current_task s'))" using cur by (simp add: lv fr)
  ultimately show ?thesis
    using ok st by (auto simp: step_pre_def sched_pre_def step_ok_def run_ok_def fr)
qed

lemma serveE:
  assumes "serve A psp slot code arguments s = Some (r, s')"
  obtains s1 where "svc_run 3 A slot code arguments s = Some (r, s1)" "settle A psp s1 = Some s'"
  using assms svc_handler_run [of code 3 A slot arguments s]
  by (auto simp: serve_def svc_rank_def bind_eq_Some_conv)

text \<open>A call whose service does not ask for another one.\<close>

lemma run_one:
  assumes "svc_run 3 A slot code arguments s = Some (r, s1)" and "map_of svc_dispatch code = Some svc"
    and "\<And>r c' a' s'. svc A code arguments s = Some (r, c', a', s') \<Longrightarrow> c' = code"
  obtains a' where "svc A code arguments s = Some (r, code, a', s1)"
proof -
  obtain r1 c' a' s' where call: "svc A code arguments s = Some (r1, c', a', s')"
    using assms(1,2) by (auto simp: numeral_3_eq_3 bind_eq_Some_conv)
  with assms(3) have "c' = code" by blast
  with call assms(1,2) have "r1 = r" "s' = s1" by (auto simp: numeral_3_eq_3)
  with call \<open>c' = code\<close> that show thesis by blast
qed

lemma dispatch_entries:
  "map_of svc_dispatch HAND_OVER = Some svc_service_hand_over"
  "map_of svc_dispatch HIBERNATE = Some svc_service_hibernate"
  "map_of svc_dispatch CREATE_TASK = Some svc_service_task_create"
  "map_of svc_dispatch KILL_TASK = Some svc_service_task_kill"
  "map_of svc_dispatch CPU_FREQ = Some svc_service_cpu_freq_update"
  "map_of svc_dispatch GRANT_PERMISSION = Some svc_service_grant_permission"
  by (simp_all add: svc_dispatch_def)

lemma device_mcu:
  assumes "svc_service_hwreg_write A c a s = Some (r, c', a', s1) \<or>
    svc_service_hwreg_read A c a s = Some (r, c', a', s1) \<or>
    svc_service_int_enable A c a s = Some (r, c', a', s1) \<or>
    svc_service_int_disable A c a s = Some (r, c', a', s1) \<or>
    svc_service_int_register A c a s = Some (r, c', a', s1) \<or>
    svc_service_int_set_priority A c a s = Some (r, c', a', s1)"
  shows "s1 = s\<lparr>mcu := mcu s1\<rparr>"
  using assms
  by (elim disjE) (auto simp: svc_service_hwreg_write_def svc_service_hwreg_read_def
      svc_service_int_enable_def svc_service_int_disable_def svc_service_int_register_def
      svc_service_int_set_priority_def on_mcu_def bind_eq_Some_conv split: if_splits)

lemma refused_shape:
  assumes "svc_service_task_create A c arguments s = Some (r, c', a', s1)" and "r \<noteq> ERROR_NONE"
  shows "s1 = set_obj_error r (arguments 0) s \<or>
    (\<exists>i v. s1 = set_obj_error r (arguments 0) (s\<lparr>PSP_Array := (PSP_Array s)(i := v)\<rparr>))"
  using assms by (auto simp: svc_service_task_create_def Let_def bind_eq_Some_conv split: if_splits)

context pending_port
begin

lemma hand_over_pre:
  assumes "step_ok (MAX_TASK_COUNT A) s"
    and "svc_service_hand_over A c a s = Some (r, c', a', s')"
  shows "\<not> normal_schedule s' \<and> step_pre (MAX_TASK_COUNT A) s'"
proof -
  have k: "\<not> self_kill s" using assms(1) by (simp add: step_ok_def)
  have s': "s' = on_mcu trig (s\<lparr>state := (state s)(unat (current_task s) := TASK_STATE_SLEEP),
      normal_schedule := False\<rparr>)"
    using assms(2) k by (simp add: svc_service_hand_over_def trigger_pending)
  have "step_pre (MAX_TASK_COUNT A) s'"
    by (rule leave_step_pre [OF assms(1), where st = TASK_STATE_SLEEP]) (simp_all add: s')
  then show ?thesis by (simp add: s')
qed

lemma hibernate_pre:
  assumes "step_ok (MAX_TASK_COUNT A) s"
    and "svc_service_hibernate A c a s = Some (r, c', a', s')"
  shows "\<not> normal_schedule s' \<and> step_pre (MAX_TASK_COUNT A) s'"
proof -
  let ?st = "if a 0 AND HIBEARNTE_REV_MASK = HIBEARNTE_REV_MASK then TASK_STATE_HIBERNATE_L
      else TASK_STATE_HIBERNATE_G"
  let ?c = "unat (current_task s)"
  define s1 where "s1 = s\<lparr>state := (state s)(?c := ?st), op1 := (op1 s)(?c := a 1),
      op2 := (op2 s)(?c := a 2), hib_value := (hib_value s)(?c := a 3)\<rparr>"
  have s': "s' = on_mcu trig ((if priority_cur s1 ?c = max_level s1
      then s1\<lparr>hlc := hlc s1 + 1, alc := alc s1 - 1\<rparr> else s1)\<lparr>normal_schedule := False\<rparr>)"
    using assms(2) unfolding svc_service_hibernate_def Let_def trigger_pending s1_def
    by (auto simp: chk_def split: if_splits)
  have "step_pre (MAX_TASK_COUNT A) s'"
    by (rule leave_step_pre [OF assms(1), where st = ?st]) (simp_all add: s' s1_def)
  then show ?thesis by (simp add: s')
qed

lemma create_step:
  assumes ok: "step_ok (MAX_TASK_COUNT A) s" and "create_ready A arguments s"
    and "unat (lstash_ptr s) < MAX_TASK_COUNT A"
    and "level_in_order s (t_priority (objs (mcu s) (arguments 0)))"
    and call: "svc_service_task_create A c arguments s = Some (r, c', a', s1)"
  shows "step_ok (MAX_TASK_COUNT A) s1"
proof -
  let ?n = "MAX_TASK_COUNT A"
  have k: "kernel_ok ?n s" using ok by (simp add: step_ok_def run_ok_def)
  show ?thesis
  proof (rule create_preserves [OF assms(2) k assms(3,4), of c])
    fix s'
    assume a: "svc_service_task_create A c arguments s = Some (ERROR_NONE, c, arguments, s')"
      "kernel_ok ?n s'" "state s' = (state s)(create_slot ?n s := TASK_STATE_SLEEP)"
      "\<not> live s (create_slot ?n s)" "current_task s' = current_task s" "next_task s' = next_task s"
      "enable_dws s' = enable_dws s" "normal_schedule s' = normal_schedule s" "self_kill s' = self_kill s"
      "priority_cur s' = (priority_cur s)(create_slot ?n s := t_priority (objs (mcu s) (arguments 0)))"
    have e: "s1 = s'" using a(1) call by simp
    have "live s 0" using k by (auto simp: kernel_ok_def kinv_def ring_ok_def)
    then have i0: "create_slot ?n s \<noteq> 0" using a(4) by metis
    have "live s (unat (current_task s))"
      using run_ok_sched_pre [of ?n s] ok unfolding step_ok_def sched_pre_def by blast
    then have ic: "create_slot ?n s \<noteq> unat (current_task s)" using a(4) by metis
    show "step_ok ?n s1"
      using ok a(2) i0 ic unfolding e step_ok_def run_ok_def a(3,5-10) by simp
  qed
qed

lemma refuse_step:
  assumes ok: "step_ok (MAX_TASK_COUNT A) s"
    and call: "svc_service_task_create A c arguments s = Some (r, c', a', s1)" and "r \<noteq> ERROR_NONE"
  shows "step_ok (MAX_TASK_COUNT A) s1"
  using refused_shape [OF call assms(3)]
  by (elim disjE exE) (rule step_ok_cong [OF ok]; simp add: set_obj_error_def)+

lemma kill_step:
  assumes ok: "step_ok (MAX_TASK_COUNT A) s" and i: "i < MAX_TASK_COUNT A" "live s i" "i \<noteq> 0"
    and cur: "i \<noteq> unat (current_task s)" and pid: "arguments 0 = task_id s i" "arguments 1 = 0"
    and ptr: "unat (lstash_ptr s) < MAX_TASK_COUNT A"
    and call: "svc_service_task_kill A c arguments s = Some (r, c', a', s1)"
  shows "step_ok (MAX_TASK_COUNT A) s1"
proof -
  let ?n = "MAX_TASK_COUNT A"
  have k: "kernel_ok ?n s" "priority_cur s 0 = 0" using ok by (simp_all add: step_ok_def run_ok_def)
  show ?thesis
  proof (rule kill_preserves [where arguments = arguments and svc_num = c, OF k(1) i pid(1) ptr k(2)])
    fix s'
    assume a: "svc_service_task_kill A c arguments s =
        Some (ERROR_NONE, if arguments 1 = 1 then HAND_OVER else c, arguments, s')"
      "kernel_ok ?n s'" "state s' = (state s)(i := TASK_STATE_IDLE)" "priority_cur s' = priority_cur s"
      "next_task s' = (if self_kill s \<or> arguments 1 = 1 then next_task s + scast (jmp_list s i)
                     else next_task s)"
      "current_task s' = current_task s" "enable_dws s' = enable_dws s"
      "self_kill s' = (self_kill s \<or> arguments 1 = 1)" "normal_schedule s' = normal_schedule s"
    have e: "s1 = s'" using a(1) call by simp
    show "step_ok ?n s1"
      using ok a(2) cur pid(2) unfolding e step_ok_def run_ok_def a(3-9) by auto
  qed
qed

text \<open>The end of the running task: its slot is freed, and the hand-over that follows does not touch it.\<close>

lemma end_call:
  assumes ok: "step_ok (MAX_TASK_COUNT A) s" and c: "unat (current_task s) \<noteq> 0"
    and pid: "arguments 0 = task_id s (unat (current_task s))" "arguments 1 = 1"
    and ptr: "unat (lstash_ptr s) < MAX_TASK_COUNT A"
  obtains s1 where "svc_run 3 A slot KILL_TASK arguments s = Some (ERROR_NONE, s1)"
    "end_pre (MAX_TASK_COUNT A) s1" "\<not> self_kill s1" "priority_cur s1 = priority_cur s"
    "state s1 = (state s)(unat (current_task s) := TASK_STATE_IDLE)"
proof -
  let ?n = "MAX_TASK_COUNT A" and ?i = "unat (current_task s)"
  have k: "kernel_ok ?n s" "priority_cur s 0 = 0" "?i < ?n" "next_task s = current_task s"
    and run: "\<And>j. j < ?n \<Longrightarrow> state s j = TASK_STATE_ACTIVE \<longleftrightarrow> j = ?i" "enable_dws s" "normal_schedule s"
    using ok by (simp_all add: step_ok_def run_ok_def)
  have lv: "live s ?i" using run(1) [OF k(3)] by (simp add: live_def)
  have ring: "ring_ok ?n (live s) (jmp_list s)" using k(1) by (simp add: kernel_ok_def kinv_def)
  obtain q where q: "is_succ (live s) ?n ?i q" "int ?i + sint (jmp_list s ?i) = int q" "q < ?n" "live s q"
    by (rule ring_okD [OF ring k(3) lv])
  have qi: "q \<noteq> ?i" using q(1) c by (auto simp: is_succ_def)
  have nx: "unat (jmp_step32 (jmp_list s) (next_task s)) = q"
    using jmp_step32_nxt [OF ring, of "next_task s"] k(3,4) lv q(2) by (simp add: jmp_nxt_def)
  show thesis
  proof (rule kill_preserves [where arguments = arguments and svc_num = KILL_TASK, OF k(1,3) lv c pid(1) ptr k(2)])
    fix s'
    assume a: "svc_service_task_kill A KILL_TASK arguments s =
        Some (ERROR_NONE, if arguments 1 = 1 then HAND_OVER else KILL_TASK, arguments, s')"
      "kernel_ok ?n s'" "live s' = (live s)(?i := False)" "priority_cur s' = priority_cur s"
      "next_task s' = (if self_kill s \<or> arguments 1 = 1 then next_task s + scast (jmp_list s ?i) else next_task s)"
      "current_task s' = current_task s" "enable_dws s' = enable_dws s"
      "self_kill s' = (self_kill s \<or> arguments 1 = 1)" "state s' = (state s)(?i := TASK_STATE_IDLE)"
    define s1 where "s1 = on_mcu trig (s'\<lparr>self_kill := False, normal_schedule := False\<rparr>)"
    have "svc_service_hand_over A HAND_OVER arguments s' = Some (ERROR_NONE, HAND_OVER, arguments, s1)"
      using a(8) pid(2) by (simp add: svc_service_hand_over_def trigger_pending s1_def)
    then have call: "svc_run 3 A slot KILL_TASK arguments s = Some (ERROR_NONE, s1)"
      using a(1) pid(2) by (simp add: numeral_3_eq_3 dispatch_entries)
    have ls: "live s1 = (live s)(?i := False)" using a(3) by (simp add: live_def s1_def fun_eq_iff)
    have n1: "unat (next_task s1) = q"
      using nx a(5) pid(2) k(4) by (simp add: s1_def jmp_step32_def)
    have "kernel_ok ?n s1"
      by (rule kernel_ok_cong [OF a(2)]) (use a(3) ls in \<open>simp_all add: s1_def\<close>)
    moreover have "state s1 j \<noteq> TASK_STATE_ACTIVE" if "j < ?n" for j
      using run(1) [OF that] by (simp add: s1_def a(9))
    ultimately have "end_pre ?n s1"
      using ls n1 q(3,4) qi k(3) run(2) by (simp add: end_pre_def, simp add: s1_def a(6,7))
    then show thesis by (intro that [OF call]) (simp_all add: s1_def a(4,9))
  qed
qed

lemma end_tick_step_ok:
  assumes "end_pre (MAX_TASK_COUNT A) s" "\<not> self_kill s" "priority_cur s 0 = 0" and "settle A psp s = Some s'"
  shows "step_ok (MAX_TASK_COUNT A) s'"
proof -
  have "kernel_tick A psp s = Some s'" using assms(1,4) by (simp add: settle_def end_pre_def)
  then show ?thesis by (rule end_tick [OF assms(1)]) (use assms(2,3) in \<open>simp add: step_ok_def\<close>)
qed

text \<open>The other services change the machine, the permissions or the frequency only.\<close>

lemma device_cases:
  assumes call: "svc A code arguments s = Some (r, c', a', s1)" and entry: "map_of svc_dispatch code = Some svc"
    and code: "code \<in> {HWREG_WRITE, HWREG_READ, INT_ENABLE, INT_DISABLE, INT_REGISTER, SET_PRIORITY, CPU_FREQ,
      GRANT_PERMISSION}"
  obtains "s1 = s\<lparr>mcu := mcu s1\<rparr>" | "s1 = s\<lparr>permissions := permissions s1\<rparr>"
    | "s1 = s\<lparr>cpu_freq := cpu_freq s1, mcu := mcu s1\<rparr>"
proof -
  have "svc \<in> {svc_service_hwreg_write, svc_service_hwreg_read, svc_service_int_enable,
      svc_service_int_disable, svc_service_int_register, svc_service_int_set_priority,
      svc_service_cpu_freq_update, svc_service_grant_permission}"
    using code entry by (auto simp: svc_dispatch_def)
  then show thesis
  proof (elim insertE emptyE)
    assume "svc = svc_service_cpu_freq_update"
    then have "s1 = snd (os_timer_config A (arguments 0) s)"
      using call by (auto simp: svc_service_cpu_freq_update_def split: prod.splits)
    with timer_config_frame [of "arguments 0" s]
    have "s1 = s\<lparr>cpu_freq := cpu_freq s1, mcu := mcu s1\<rparr>" by simp
    then show thesis by (rule that(3))
  next
    assume "svc = svc_service_grant_permission"
    then have "s1 = s\<lparr>permissions := permissions s1\<rparr>"
      using call by (auto simp: svc_service_grant_permission_def Let_def split: if_splits)
    then show thesis by (rule that(2))
  qed (rule that(1), rule device_mcu, insert call, blast)+
qed

lemma device_step:
  assumes ok: "step_ok (MAX_TASK_COUNT A) s"
    and call: "svc A code arguments s = Some (r, c', a', s1)" and entry: "map_of svc_dispatch code = Some svc"
    and code: "code \<in> {HWREG_WRITE, HWREG_READ, INT_ENABLE, INT_DISABLE, INT_REGISTER, SET_PRIORITY, CPU_FREQ,
      GRANT_PERMISSION}"
  shows "step_ok (MAX_TASK_COUNT A) s1"
  by (rule device_cases [OF call entry code]) (rule step_ok_cong [OF ok]; erule ssubst; simp)+

lemma plain_step_ok:
  assumes "plain_step A s s'" and ok: "step_ok (MAX_TASK_COUNT A) s"
  shows "step_ok (MAX_TASK_COUNT A) s'"
  using assms(1)
proof (cases rule: plain_step.cases)
  case (tick psp)
  then show ?thesis using tick_step_ok step_ok_pre [OF ok] by blast
next
  case (hand_over psp slot arguments r)
  obtain s1 where s1: "svc_run 3 A slot HAND_OVER arguments s = Some (r, s1)" "settle A psp s1 = Some s'"
    by (rule serveE [OF hand_over])
  show ?thesis
    by (rule run_one [OF s1(1) dispatch_entries(1) simple_codes(4)], assumption)
      (use settle_step_ok s1(2) hand_over_pre [OF ok] in blast)
next
  case (hibernate psp slot arguments r)
  obtain s1 where s1: "svc_run 3 A slot HIBERNATE arguments s = Some (r, s1)" "settle A psp s1 = Some s'"
    by (rule serveE [OF hibernate])
  show ?thesis
    by (rule run_one [OF s1(1) dispatch_entries(2) simple_codes(1)], assumption)
      (use settle_step_ok s1(2) hibernate_pre [OF ok] in blast)
next
  case (create psp slot arguments r)
  obtain s1 where s1: "svc_run 3 A slot CREATE_TASK arguments s = Some (r, s1)" "settle A psp s1 = Some s'"
    by (rule serveE [OF create(1)])
  show ?thesis
    by (rule run_one [OF s1(1) dispatch_entries(3) create_code], assumption)
      (use settle_step_ok s1(2) create_step [OF ok create(2-4)] in blast)
next
  case (refuse psp slot arguments r)
  obtain s1 where s1: "svc_run 3 A slot CREATE_TASK arguments s = Some (r, s1)" "settle A psp s1 = Some s'"
    by (rule serveE [OF refuse(1)])
  show ?thesis
    by (rule run_one [OF s1(1) dispatch_entries(3) create_code], assumption)
      (use settle_step_ok s1(2) refuse_step [OF ok _ refuse(2)] in blast)
next
  case (kill psp slot arguments r i)
  obtain s1 where s1: "svc_run 3 A slot KILL_TASK arguments s = Some (r, s1)" "settle A psp s1 = Some s'"
    by (rule serveE [OF kill(1)])
  have flag: "c' = KILL_TASK" if "svc_service_task_kill A KILL_TASK arguments s = Some (r, c', a', u)"
    for r c' a' u
    using that kill(7) by (auto simp: svc_service_task_kill_def Let_def bind_eq_Some_conv)
  show ?thesis
    by (rule run_one [OF s1(1) dispatch_entries(4) flag], assumption)
      (use settle_step_ok s1(2) kill_step [OF ok kill(2-8)] in blast)
next
  case (end_task psp slot arguments r)
  obtain s1 where s1: "svc_run 3 A slot KILL_TASK arguments s = Some (r, s1)" "settle A psp s1 = Some s'"
    by (rule serveE [OF end_task(1)])
  show ?thesis
  proof (rule end_call [OF ok end_task(2-5), of slot])
    fix s2
    assume c: "svc_run 3 A slot KILL_TASK arguments s = Some (ERROR_NONE, s2)" "end_pre (MAX_TASK_COUNT A) s2"
      "\<not> self_kill s2" "priority_cur s2 = priority_cur s"
    have "s2 = s1" using c(1) s1(1) by simp
    moreover have "priority_cur s 0 = 0" using ok by (simp add: step_ok_def)
    ultimately show "step_ok (MAX_TASK_COUNT A) s'" using c s1(2) by (intro end_tick_step_ok [of s1 psp]) simp_all
  qed
next
  case (device psp slot code arguments r)
  obtain s1 where s1: "svc_run 3 A slot code arguments s = Some (r, s1)" "settle A psp s1 = Some s'"
    by (rule serveE [OF device(1)])
  obtain svc where svc: "map_of svc_dispatch code = Some svc"
    using device(2) by (auto simp: svc_dispatch_def)
  have one: "c' = code" if "svc A code arguments s = Some (r, c', a', u)" for r c' a' u
    using that svc_dispatch_cases [OF svc] device(2) by (auto simp: svc_dispatch_def dest: svc_codes)
  show ?thesis
    by (rule run_one [OF s1(1) svc one], assumption)
      (use settle_step_ok s1(2) device_step [OF ok _ svc device(2)] in blast)
qed

end

end
