(* ===== verification/StartSteps.thy ===== *)
theory StartSteps
  imports BootInv KernelSteps Demo
begin

text \<open>
  The system from reset: \<open>kernel_init\<close>, the tasks the application creates before the
  scheduler, the start of the scheduler, and then the steps of the kernel. This theory has the creations in the
  order of the levels and the plain steps, under which the whole invariant holds in every state after the
  start; the system with all creations and all steps is in the theory CoreStart.
\<close>

section \<open>The system\<close>

text \<open>
  Before the scheduler runs the base task has its slot, no task is active and
  the creations are calls from \<open>main\<close>.
\<close>

inductive plain_booted :: "params \<Rightarrow> arm_env \<Rightarrow> heap_env \<Rightarrow> mcu \<Rightarrow> kstate \<Rightarrow> bool" for P E H m where
  init: "kernel_init P (arm_boot P E H (arm_call P slot) regs) (arm_call P slot) regs (kvar_init m) = Some (r, s) \<Longrightarrow>
    plain_booted P E H m s"
| create: "plain_booted P E H m s \<Longrightarrow> arm_call P slot CREATE_TASK arguments s = Some (r, s') \<Longrightarrow>
    create_ready (arm_port P) arguments s \<Longrightarrow> unat (lstash_ptr s) < MAX_TASK_COUNT P \<Longrightarrow>
    level_in_order s (t_priority (objs (mcu s) (arguments 0))) \<Longrightarrow> plain_booted P E H m s'"

inductive plain_running :: "params \<Rightarrow> arm_env \<Rightarrow> heap_env \<Rightarrow> mcu \<Rightarrow> kstate \<Rightarrow> bool" for P E H m where
  started: "plain_booted P E H m s \<Longrightarrow> serve (arm_port P) psp slot START_SCHEDULER arguments s = Some (r, s') \<Longrightarrow>
    plain_running P E H m s'"
| step: "plain_running P E H m s \<Longrightarrow> plain_step (arm_port P) s s' \<Longrightarrow> plain_running P E H m s'"

section \<open>The invariant before the start\<close>

definition boot_ok :: "nat \<Rightarrow> kstate \<Rightarrow> bool" where
  "boot_ok n s \<longleftrightarrow> kernel_ok n s \<and> current_task s = 0 \<and> next_task s = 0 \<and> state s 0 = TASK_STATE_SLEEP \<and>
     (\<forall>i < n. state s i \<noteq> TASK_STATE_ACTIVE) \<and> enable_dws s \<and> normal_schedule s \<and> \<not> self_kill s \<and>
     priority_cur s 0 = 0"

text \<open>What the ARM build needs of its parameters, and an MPU in the device.\<close>

definition arm_build :: "params \<Rightarrow> arm_env \<Rightarrow> mcu \<Rightarrow> bool" where
  "arm_build P E m \<longleftrightarrow> wf_params P \<and> arm_layout P E \<and> base_task_addr P \<noteq> 0 \<and> proc_heap_addr P \<noteq> 0 \<and>
     HWREG MPUTYPE m \<noteq> 0"

lemma init_boot_ok:
  assumes "arm_build P E m"
    and "kernel_init P (arm_boot P E H (arm_call P slot) regs) (arm_call P slot) regs (kvar_init m) = Some (r, s)"
  shows "boot_ok (MAX_TASK_COUNT P) s"
proof (rule kernel_init_arm [of P E m H slot regs])
  fix s'
  assume k: "kernel_init P (arm_boot P E H (arm_call P slot) regs) (arm_call P slot) regs (kvar_init m) =
      Some (ERROR_NONE, s')"
    "kernel_ok (MAX_TASK_COUNT P) s'" and lv: "\<And>i. i < MAX_TASK_COUNT P \<Longrightarrow> live s' i = (i = 0)"
    and f: "current_task s' = 0" "next_task s' = 0" "state s' 0 = TASK_STATE_SLEEP" "priority_cur s' 0 = 0"
    "enable_dws s'" "normal_schedule s'" "\<not> self_kill s'"
  have "state s' i \<noteq> TASK_STATE_ACTIVE" if "i < MAX_TASK_COUNT P" for i
    using lv [OF that] f(3) by (cases "i = 0") (auto simp: live_def)
  with k f assms(2) show "boot_ok (MAX_TASK_COUNT P) s" by (simp add: boot_ok_def)
qed (use assms(1) in \<open>simp_all add: arm_build_def\<close>)

lemma create_boot_ok:
  assumes ok: "boot_ok (MAX_TASK_COUNT P) s" and call: "arm_call P slot CREATE_TASK arguments s = Some (r, s')"
    and ready: "create_ready (arm_port P) arguments s" and ptr: "unat (lstash_ptr s) < MAX_TASK_COUNT P"
    and ord: "level_in_order s (t_priority (objs (mcu s) (arguments 0)))"
  shows "boot_ok (MAX_TASK_COUNT P) s'"
proof -
  let ?n = "MAX_TASK_COUNT P" and ?i = "create_slot (MAX_TASK_COUNT (arm_port P)) s"
  have k: "kernel_ok (MAX_TASK_COUNT (arm_port P)) s" using ok by (simp add: boot_ok_def)
  have ptr': "unat (lstash_ptr s) < MAX_TASK_COUNT (arm_port P)" using ptr by simp
  have "live s 0" using ok by (simp add: boot_ok_def live_def)
  show ?thesis
  proof (rule kernel_port.create_preserves [OF arm.kernel_port_axioms ready k ptr' ord, of CREATE_TASK])
    fix u
    assume c: "svc_service_task_create (arm_port P) CREATE_TASK arguments s = Some (ERROR_NONE, CREATE_TASK, arguments, u)"
      and ku: "kernel_ok (MAX_TASK_COUNT (arm_port P)) u"
      and f: "state u = (state s)(?i := TASK_STATE_SLEEP)" "\<not> live s ?i" "current_task u = current_task s"
      "next_task u = next_task s" "enable_dws u = enable_dws s" "normal_schedule u = normal_schedule s"
      "self_kill u = self_kill s" "priority_cur u = (priority_cur s)(?i := t_priority (objs (mcu s) (arguments 0)))"
    have "arm_call P slot CREATE_TASK arguments s = Some (ERROR_NONE, u)"
      using c unfolding arm_call_def by (subst svc_handler.simps) (simp add: svc_dispatch_def)
    with call have u: "s' = u" by simp
    have "?i \<noteq> 0" using f(2) \<open>live s 0\<close> by metis
    then show "boot_ok ?n s'" using ok ku unfolding boot_ok_def u f(1,3-) by auto
  qed
qed

lemma plain_booted_ok:
  assumes "plain_booted P E H m s" and "arm_build P E m"
  shows "boot_ok (MAX_TASK_COUNT P) s"
  using assms by (induction rule: plain_booted.induct) (auto intro: init_boot_ok create_boot_ok)

section \<open>The start\<close>

text \<open>The state in which the context switch of the start runs.\<close>

lemma clear_perms: "fold (\<lambda>i perms. perms(i := 0)) [1..<n] f = (\<lambda>i. if 1 \<le> i \<and> i < n then 0 else f i)"
  by (induction n) (auto simp: fun_eq_iff)

context pending_port
begin

text \<open>The two services of the call, on any port where the scheduler is only requested.\<close>

lemma start_fields:
  assumes n: "0 < MAX_TASK_COUNT A" and c: "current_task s = 0"
  obtains u s1 where "\<And>arguments. svc_service_start_scheduler A START_SCHEDULER arguments s =
      Some (ERROR_NONE, HAND_OVER, arguments, u)"
    "\<And>arguments. svc_service_hand_over A HAND_OVER arguments u = Some (ERROR_NONE, HAND_OVER, arguments, s1)"
    "\<not> normal_schedule s1" "\<not> self_kill s1" "first_start s1" "state s1 = (state s)(0 := TASK_STATE_SLEEP)"
    "permissions s1 = (\<lambda>i. if 1 \<le> i \<and> i < MAX_TASK_COUNT A then 0 else ((permissions s)(0 := 0xFFFF)) i)"
    "jmp_list s1 = jmp_list s" "task_obj s1 = task_obj s" "task_id s1 = task_id s"
    "task_count s1 = task_count s" "priority_cur s1 = priority_cur s" "max_level s1 = max_level s"
    "level_stash s1 = level_stash s" "lstash_ptr s1 = lstash_ptr s" "current_task s1 = 0"
    "next_task s1 = next_task s" "enable_dws s1 = enable_dws s"
proof -
  let ?n = "MAX_TASK_COUNT A"
  define v where "v = s\<lparr>maxp_level := 127, permissions := \<lambda>i. if 1 \<le> i \<and> i < ?n then 0
      else ((permissions s)(0 := 0xFFFF)) i\<rparr>"
  define u where "u = (btask_psp_correction A v)\<lparr>first_start := True, self_kill := False\<rparr>"
  have u: "u = v\<lparr>mcu := mcu (btask_psp_correction A v), first_start := True, self_kill := False\<rparr>"
    unfolding u_def by (subst psp_correction_frame) simp
  define s1 where "s1 = on_mcu trig (u\<lparr>state := (state u)(0 := TASK_STATE_SLEEP), normal_schedule := False\<rparr>)"
  have start: "svc_service_start_scheduler A START_SCHEDULER arguments s = Some (ERROR_NONE, HAND_OVER, arguments, u)"
    for arguments
    using n by (simp add: svc_service_start_scheduler_def clear_perms [simplified] u_def v_def cong: if_cong)
  have hand: "svc_service_hand_over A HAND_OVER arguments u = Some (ERROR_NONE, HAND_OVER, arguments, s1)" for arguments
    using n c by (simp add: svc_service_hand_over_def trigger_pending s1_def u v_def)
  show thesis by (rule that [OF start hand]) (simp_all add: s1_def u v_def c)
qed

lemma start_services:
  assumes ok: "boot_ok (MAX_TASK_COUNT A) s"
  obtains u s1 where "\<And>arguments. svc_service_start_scheduler A START_SCHEDULER arguments s =
      Some (ERROR_NONE, HAND_OVER, arguments, u)"
    "\<And>arguments. svc_service_hand_over A HAND_OVER arguments u = Some (ERROR_NONE, HAND_OVER, arguments, s1)"
    "\<not> normal_schedule s1" "step_pre (MAX_TASK_COUNT A) s1" "state s1 0 = TASK_STATE_SLEEP"
    "lstash_ptr s1 = lstash_ptr s" "first_start s1" "permissions s1 0 = 0xFFFF"
    "\<And>i. 0 < i \<Longrightarrow> i < MAX_TASK_COUNT A \<Longrightarrow> permissions s1 i = 0"
    "state s1 = (state s)(0 := TASK_STATE_SLEEP)" "priority_cur s1 = priority_cur s"
    "task_obj s1 = task_obj s" "current_task s1 = 0"
proof -
  let ?n = "MAX_TASK_COUNT A"
  have n: "0 < ?n" using ok by (auto simp: boot_ok_def kernel_ok_def kinv_def dest: ring_ok_base)
  have cur: "current_task s = 0" using ok by (simp add: boot_ok_def)
  show thesis
  proof (rule start_fields [OF n cur])
    fix u s1
    assume c: "\<And>arguments. svc_service_start_scheduler A START_SCHEDULER arguments s =
        Some (ERROR_NONE, HAND_OVER, arguments, u)"
      "\<And>arguments. svc_service_hand_over A HAND_OVER arguments u = Some (ERROR_NONE, HAND_OVER, arguments, s1)"
      and f: "\<not> normal_schedule s1" "\<not> self_kill s1" "first_start s1" "state s1 = (state s)(0 := TASK_STATE_SLEEP)"
      "permissions s1 = (\<lambda>i. if 1 \<le> i \<and> i < ?n then 0 else ((permissions s)(0 := 0xFFFF)) i)"
      "jmp_list s1 = jmp_list s" "task_obj s1 = task_obj s" "task_id s1 = task_id s"
      "task_count s1 = task_count s" "priority_cur s1 = priority_cur s" "max_level s1 = max_level s"
      "level_stash s1 = level_stash s" "lstash_ptr s1 = lstash_ptr s" "current_task s1 = 0"
      "next_task s1 = next_task s" "enable_dws s1 = enable_dws s"
    have lv: "live s1 = live s" using ok by (auto simp: live_def f fun_eq_iff boot_ok_def)
    have "kernel_ok ?n s1"
      by (rule kernel_ok_cong [of _ s]) (use ok lv in \<open>simp_all add: boot_ok_def f\<close>)
    moreover have "live s1 (unat (current_task s1))" using ok unfolding lv by (simp add: f boot_ok_def live_def)
    ultimately have "step_pre ?n s1"
      using ok n by (auto simp: step_pre_def sched_pre_def boot_ok_def f)
    then show thesis using n by (intro that [OF c]) (simp_all add: f)
  qed
qed

end

lemma start_run:
  assumes ok: "boot_ok (MAX_TASK_COUNT P) s"
  obtains s1 where "\<And>slot arguments. svc_handler (arm_port P) slot START_SCHEDULER arguments s = Some (ERROR_NONE, s1)"
    "\<not> normal_schedule s1" "step_pre (MAX_TASK_COUNT P) s1" "state s1 0 = TASK_STATE_SLEEP"
    "lstash_ptr s1 = lstash_ptr s" "first_start s1" "permissions s1 0 = 0xFFFF"
    "\<And>i. 0 < i \<Longrightarrow> i < MAX_TASK_COUNT P \<Longrightarrow> permissions s1 i = 0"
    "state s1 = (state s)(0 := TASK_STATE_SLEEP)" "priority_cur s1 = priority_cur s"
proof -
  have "boot_ok (MAX_TASK_COUNT (arm_port P)) s" using ok by simp
  then show thesis
  proof (rule armp.start_services)
    fix u s1
    assume c: "\<And>arguments. svc_service_start_scheduler (arm_port P) START_SCHEDULER arguments s =
        Some (ERROR_NONE, HAND_OVER, arguments, u)"
      "\<And>arguments. svc_service_hand_over (arm_port P) HAND_OVER arguments u = Some (ERROR_NONE, HAND_OVER, arguments, s1)"
      and f: "\<not> normal_schedule s1" "step_pre (MAX_TASK_COUNT (arm_port P)) s1" "state s1 0 = TASK_STATE_SLEEP"
      "lstash_ptr s1 = lstash_ptr s" "first_start s1" "permissions s1 0 = 0xFFFF"
      "\<And>i. 0 < i \<Longrightarrow> i < MAX_TASK_COUNT (arm_port P) \<Longrightarrow> permissions s1 i = 0"
      "state s1 = (state s)(0 := TASK_STATE_SLEEP)" "priority_cur s1 = priority_cur s"
    from c have "svc_handler (arm_port P) slot START_SCHEDULER arguments s = Some (ERROR_NONE, s1)" for slot arguments
      by (simp add: svc_handler_run [of START_SCHEDULER 3] svc_rank_def numeral_3_eq_3 svc_dispatch_def)
    then show thesis using f by (intro that [of s1]) simp_all
  qed
qed

text \<open>The start returns when the application has created a task above the base task's level.\<close>

lemma start_exists:
  assumes ok: "boot_ok (MAX_TASK_COUNT P) s" and lv: "1 < unat (lstash_ptr s)"
  obtains s' where "serve (arm_port P) psp slot START_SCHEDULER arguments s = Some (ERROR_NONE, s')"
proof -
  obtain s1 where s1: "svc_handler (arm_port P) slot START_SCHEDULER arguments s = Some (ERROR_NONE, s1)"
    "\<not> normal_schedule s1" "step_pre (MAX_TASK_COUNT P) s1" "state s1 0 = TASK_STATE_SLEEP"
    "lstash_ptr s1 = lstash_ptr s"
    by (rule start_run [OF ok]) blast
  have "\<exists>s'. kernel_tick (arm_port P) psp s1 = Some s'"
    by (rule tick_exists) (use s1 lv in \<open>simp_all add: step_pre_def\<close>)
  then obtain s' where "kernel_tick (arm_port P) psp s1 = Some s'" by blast
  then show thesis using s1(1,2) by (intro that [of s']) (simp add: serve_def settle_def)
qed

lemma start_step_ok:
  assumes ok: "boot_ok (MAX_TASK_COUNT P) s"
    and "serve (arm_port P) psp slot START_SCHEDULER arguments s = Some (r, s')"
  shows "step_ok (MAX_TASK_COUNT P) s'"
proof -
  obtain s1 where s1: "\<And>slot arguments. svc_handler (arm_port P) slot START_SCHEDULER arguments s = Some (ERROR_NONE, s1)"
    "\<not> normal_schedule s1" "step_pre (MAX_TASK_COUNT P) s1"
    by (rule start_run [OF ok]) blast
  have "settle (arm_port P) psp s1 = Some s'" using assms(2) s1(1) by (simp add: serve_def bind_eq_Some_conv)
  then show ?thesis using settle_step_ok [of "arm_port P" s1 psp s'] s1(2,3) by simp
qed

text \<open>Every state of the running system.\<close>

lemma plain_running_ok:
  assumes "plain_running P E H m s" and build: "arm_build P E m"
  shows "step_ok (MAX_TASK_COUNT P) s"
  using assms(1)
proof (induction rule: plain_running.induct)
  case (started s psp slot arguments r s')
  then show ?case using start_step_ok plain_booted_ok build by blast
next
  case (step s s')
  then show ?case using armp.plain_step_ok [of P s s'] by simp
qed

end
