(* ===== verification/CoreInv.thy ===== *)
theory CoreInv
  imports KernelSteps
begin

text \<open>
  The kernel as a state machine with all its services: a step is a tick or any supervisor call with any
  arguments, and the scheduler after it when the call has requested it. What is asked of the callers is
  only that the object of a new task is one the kernel can use, unless the creation is refused, and that a kill names a slot in use
  (\<open>call_ok\<close>). The core of the invariant, which needs neither the stash of levels nor the highest
  level, holds in every state between two steps.
\<close>

section \<open>Steps\<close>

definition call_ok :: "port \<Rightarrow> u32 \<Rightarrow> svc_args \<Rightarrow> kstate \<Rightarrow> bool" where
  "call_ok A code arguments s \<longleftrightarrow>
     (code = CREATE_TASK \<longrightarrow> arguments 0 \<noteq> 0 \<and> unat (total_task_count s) < 65535 \<and>
        t_hibernate (objs (mcu s) (arguments 0)) AND HIBERNATE_STATE_MASK \<noteq> HIBERNATE_STATE_MASK) \<and>
     (code = KILL_TASK \<longrightarrow> (\<exists>i < MAX_TASK_COUNT A. live s i \<and> i \<noteq> 0 \<and> arguments 0 = task_id s i \<and>
        (arguments 1 = 1 \<longleftrightarrow> i = unat (current_task s))))"

inductive kstep :: "port \<Rightarrow> kstate \<Rightarrow> kstate \<Rightarrow> bool" for A where
  tick: "kernel_tick A psp s = Some s' \<Longrightarrow> kstep A s s'"
| call: "serve A psp slot code arguments s = Some (r, s') \<Longrightarrow> call_ok A code arguments s \<Longrightarrow> kstep A s s'"
| refuse: "serve A psp slot CREATE_TASK arguments s = Some (r, s') \<Longrightarrow> r \<noteq> ERROR_NONE \<Longrightarrow> kstep A s s'"

inductive_cases kstepE: "kstep A s s'"

section \<open>The core of the invariant\<close>

definition task_states :: "u8 set" where
  "task_states = {TASK_STATE_ACTIVE, TASK_STATE_SLEEP, TASK_STATE_IDLE, TASK_STATE_HOLD, TASK_STATE_HIBERNATE_G,
     TASK_STATE_HIBERNATE_L}"

lemma task_states_mem [simp]:
  "TASK_STATE_ACTIVE \<in> task_states" "TASK_STATE_SLEEP \<in> task_states" "TASK_STATE_IDLE \<in> task_states"
  "TASK_STATE_HOLD \<in> task_states" "TASK_STATE_HIBERNATE_G \<in> task_states" "TASK_STATE_HIBERNATE_L \<in> task_states"
  by (simp_all add: task_states_def)

text \<open>What holds at every moment, and the four moments of a step.\<close>

definition core_tab :: "nat \<Rightarrow> kstate \<Rightarrow> bool" where
  "core_tab n s \<longleftrightarrow> kinv n s \<and> enable_dws s \<and> unat (current_task s) < n \<and> (\<forall>i < n. state s i \<in> task_states)"

text \<open>A task runs: the current one, and it alone, is active.\<close>

definition core_ok :: "nat \<Rightarrow> kstate \<Rightarrow> bool" where
  "core_ok n s \<longleftrightarrow> core_tab n s \<and> next_task s = current_task s \<and> normal_schedule s \<and> \<not> self_kill s \<and>
     (\<forall>i < n. state s i = TASK_STATE_ACTIVE \<longleftrightarrow> i = unat (current_task s))"

text \<open>The running task has been killed by itself, the hand-over is still to come.\<close>

definition core_ended :: "nat \<Rightarrow> kstate \<Rightarrow> bool" where
  "core_ended n s \<longleftrightarrow> core_tab n s \<and> self_kill s \<and> unat (next_task s) < n \<and> live s (unat (next_task s)) \<and>
     \<not> live s (unat (current_task s)) \<and> (\<forall>i < n. state s i \<noteq> TASK_STATE_ACTIVE)"

text \<open>The scheduler may be entered.\<close>

definition core_pre :: "nat \<Rightarrow> kstate \<Rightarrow> bool" where
  "core_pre n s \<longleftrightarrow> core_tab n s \<and> \<not> self_kill s \<and> unat (next_task s) < n \<and> live s (unat (next_task s)) \<and>
     (\<forall>i < n. state s i = TASK_STATE_ACTIVE \<longrightarrow> i = unat (current_task s)) \<and>
     (if normal_schedule s then live s (unat (current_task s))
      else state s (unat (current_task s)) \<noteq> TASK_STATE_ACTIVE)"

text \<open>The scheduler has been requested.\<close>

definition core_due :: "nat \<Rightarrow> kstate \<Rightarrow> bool" where
  "core_due n s \<longleftrightarrow> core_pre n s \<and> \<not> normal_schedule s"

lemma core_live: "core_ok n s \<Longrightarrow> live s (unat (current_task s))"
  by (auto simp: core_ok_def core_tab_def live_def)

lemma core_ok_pre: "core_ok n s \<Longrightarrow> core_pre n s"
  using core_live by (auto simp: core_ok_def core_pre_def core_tab_def)

text \<open>States that agree on what the core reads.\<close>

lemma core_tab_cong:
  assumes "core_tab n s" and "\<And>i. i < n \<Longrightarrow> live s' i = live s i" and "\<And>i. i < n \<Longrightarrow> state s' i \<in> task_states"
    and "jmp_list s' = jmp_list s" "task_obj s' = task_obj s" "task_id s' = task_id s" "task_count s' = task_count s"
    "current_task s' = current_task s" "enable_dws s' = enable_dws s"
  shows "core_tab n s'"
  using assms(1,3,8,9) kinv_cong [OF _ assms(2,4-7), of n] by (simp add: core_tab_def)

lemma core_ok_cong:
  assumes "core_ok n s" and "state s' = state s" "jmp_list s' = jmp_list s" "task_obj s' = task_obj s"
    "task_id s' = task_id s" "task_count s' = task_count s" "current_task s' = current_task s"
    "next_task s' = next_task s" "enable_dws s' = enable_dws s" "normal_schedule s' = normal_schedule s"
    "self_kill s' = self_kill s"
  shows "core_ok n s'"
proof -
  have "core_tab n s'"
    by (rule core_tab_cong [of n s]) (use assms(1) in \<open>simp_all add: core_ok_def core_tab_def live_def assms(2-)\<close>)
  with assms(1) show ?thesis by (simp add: core_ok_def assms(2-))
qed

text \<open>The running task gives up the processor.\<close>

lemma core_leave:
  assumes ok: "core_ok n s" and st: "state s' = (state s)(unat (current_task s) := st)"
    "st \<in> task_states" "st \<noteq> TASK_STATE_IDLE" "st \<noteq> TASK_STATE_ACTIVE"
    and fr: "jmp_list s' = jmp_list s" "task_obj s' = task_obj s" "task_id s' = task_id s"
    "task_count s' = task_count s" "current_task s' = current_task s" "next_task s' = next_task s"
    "enable_dws s' = enable_dws s" "self_kill s' = self_kill s" "\<not> normal_schedule s'"
  shows "core_due n s'"
proof -
  have lv: "live s' = live s" using core_live [OF ok] st by (auto simp: live_def fun_eq_iff)
  have "core_tab n s'"
    by (rule core_tab_cong [of n s]) (use ok st lv in \<open>auto simp: core_ok_def core_tab_def fr\<close>)
  then show ?thesis
    using ok st core_live [OF ok] by (auto simp: core_due_def core_pre_def core_ok_def core_tab_def fr lv)
qed

section \<open>A tick\<close>

text \<open>What the second loop returns, when it returns: a ready slot of the ring.\<close>

lemma sched_loop_result:
  assumes "sched_loop n l p s = Some (u, l')" and "ring_ok n (live s) (jmp_list s)"
    and "unat (next_task s) < n" "live s (unat (next_task s))"
  obtains i where "i < n" "live s i" "u = s\<lparr>next_task := of_nat i\<rparr>" "ready s l' i"
proof -
  define P where "P = (\<lambda>n s (y :: kstate \<times> u8). ring_ok n (live s) (jmp_list s) \<longrightarrow> unat (next_task s) < n \<longrightarrow>
    live s (unat (next_task s)) \<longrightarrow>
    (\<exists>i. i < n \<and> live s i \<and> fst y = s\<lparr>next_task := of_nat i\<rparr> \<and> ready s (snd y) i))"
  have "P n s (u, l')"
  proof (rule sched_loop.raw_induct [OF _ assms(1), where P = "\<lambda>n l p s y. P n s y"])
    fix f :: "nat \<Rightarrow> u8 \<Rightarrow> u8 \<Rightarrow> kstate \<Rightarrow> (kstate \<times> u8) option" and n l p y and s :: kstate
    assume IH: "\<And>n l p s y. f n l p s = Some y \<Longrightarrow> P n s y"
    let ?s = "s\<lparr>next_task := jmp_step32 (jmp_list s) (next_task s)\<rparr>"
    assume body: "(do { chk (unat (next_task s) < n);
       let s1 = ?s;
       (level1, lptr1) \<leftarrow> pass_current n s1 l p;
       chk (unat (next_task s1) < n);
       (if state s1 (unat (next_task s1)) = TASK_STATE_SLEEP \<and> priority_cur s1 (unat (next_task s1)) = level1
        then Some (s1, level1) else f n level1 lptr1 s1) }) = Some y"
    show "P n s y"
      unfolding P_def
    proof (intro impI)
      assume r: "ring_ok n (live s) (jmp_list s)" "unat (next_task s) < n" "live s (unat (next_task s))"
      define t where "t = ?s"
      have nx: "unat (next_task t) < n" "live s (unat (next_task t))"
        using jmp_step32_nxt [OF r] jmp_nxt_int(2,3) [OF r] by (simp_all add: t_def)
      have lv: "live t = live s" "jmp_list t = jmp_list s" "\<And>l i. ready t l i = ready s l i"
        "t = s\<lparr>next_task := next_task t\<rparr>" "\<And>i. t\<lparr>next_task := i\<rparr> = s\<lparr>next_task := i\<rparr>"
        by (simp_all add: live_def ready_def fun_eq_iff t_def)
      obtain q1 q2 where q: "pass_current n t l p = Some (q1, q2)"
        using body r(2) unfolding t_def [symmetric] Let_def by (cases "pass_current n t l p") auto
      have y: "(if ready t q1 (unat (next_task t)) then Some (t, q1) else f n q1 q2 t) = Some y"
        using body r(2) nx(1) unfolding t_def [symmetric] Let_def by (simp add: q ready_def)
      show "\<exists>i. i < n \<and> live s i \<and> fst y = s\<lparr>next_task := of_nat i\<rparr> \<and> ready s (snd y) i"
      proof (cases "ready t q1 (unat (next_task t))")
        case True
        with y have "y = (t, q1)" by simp
        with True nx lv(3,4) show ?thesis by (intro exI [of _ "unat (next_task t)"]) simp
      next
        case False
        with y have "P n t y" by (intro IH) simp
        with r(1) nx obtain i where "i < n" "live s i" "fst y = t\<lparr>next_task := of_nat i\<rparr>" "ready t (snd y) i"
          by (auto simp: P_def lv(1,2))
        then show ?thesis by (intro exI [of _ i]) (simp add: lv(3,5))
      qed
    qed
  qed
  with assms(2-4) that show thesis by (auto simp: P_def)
qed

lemma woken_self_kill: "self_kill (woken A s) = self_kill s"
proof -
  have "self_kill (fold hib_check xs u) = self_kill u" for xs u
    by (induction xs arbitrary: u) (simp_all add: hib_check_due hib_wake_def Let_def)
  then show ?thesis by (simp add: woken_def entered_def Let_def)
qed

text \<open>The state after the wake-up.\<close>

lemma core_woken:
  assumes "core_pre (MAX_TASK_COUNT A) s"
  shows "live (woken A s) = live s" "core_tab (MAX_TASK_COUNT A) (woken A s)"
    "i < MAX_TASK_COUNT A \<Longrightarrow> state (woken A s) i \<noteq> TASK_STATE_ACTIVE"
    "hib_loop (MAX_TASK_COUNT A) (ucast (next_task (entered A s))) (entered A s) = Some (woken A s)"
proof -
  let ?n = "MAX_TASK_COUNT A"
  have le: "live (entered A s) = live s"
    using assms entered_live [of s A] by (cases "normal_schedule s") (auto simp: core_pre_def live_def entered_state fun_eq_iff)
  then show lv: "live (woken A s) = live s" by (simp only: woken_frame)
  have ring: "ring_ok ?n (live (entered A s)) (jmp_list (entered A s))"
    and nx: "unat (next_task (entered A s)) < ?n" "live (entered A s) (unat (next_task (entered A s)))"
    using assms le by (simp_all add: core_pre_def core_tab_def kinv_def entered_frame)
  show "hib_loop ?n (ucast (next_task (entered A s))) (entered A s) = Some (woken A s)"
    unfolding woken_def using hib_loop_round [OF ring nx] by (simp add: entered_frame)
  have d: "distinct (ring_round ?n (entered A s) (unat (next_task s)))"
    using ring_round_set(2) [OF ring nx] by (simp add: entered_frame)
  have st: "state (woken A s) i \<in> task_states \<and> state (woken A s) i \<noteq> TASK_STATE_ACTIVE" if "i < ?n" for i
    using that assms
    by (auto simp: woken_def fold_hib_state [OF d] entered_state core_pre_def core_tab_def)
  then show "i < ?n \<Longrightarrow> state (woken A s) i \<noteq> TASK_STATE_ACTIVE" by blast
  show "core_tab ?n (woken A s)"
    by (rule core_tab_cong [of _ s]) (use assms st lv in \<open>simp_all add: core_pre_def woken_frame\<close>)
qed

lemma core_tick:
  assumes pre: "core_pre (MAX_TASK_COUNT A) s" and tick: "kernel_tick A psp s = Some s'"
  obtains i l where "i < MAX_TASK_COUNT A" "live s i" "ready (woken A s) l i" "current_task s' = of_nat i"
    "state s' = (state (woken A s))(i := TASK_STATE_ACTIVE)" "priority_cur s' = priority_cur s"
    "core_ok (MAX_TASK_COUNT A) s'"
proof -
  let ?n = "MAX_TASK_COUNT A" and ?w = "woken A s"
  note w = core_woken [OF pre]
  have cur: "unat (current_task s) < ?n" using pre by (simp add: core_pre_def core_tab_def)
  obtain u l where u: "sched_loop ?n (max_level ?w) (lstash_ptr ?w - 1) ?w = Some (u, l)"
    and s': "s' = context_switch psp (sched_leave A l u)"
    using tick sched_enter_entered [OF cur] w(4)
    by (auto simp: kernel_tick_def scheduler_def bind_eq_Some_conv)
  have ring: "ring_ok ?n (live ?w) (jmp_list ?w)" using w(2) by (simp add: core_tab_def kinv_def)
  have nx: "unat (next_task ?w) < ?n" "live ?w (unat (next_task ?w))"
    using pre w(1) by (simp_all add: core_pre_def woken_frame)
  show thesis
  proof (rule sched_loop_result [OF u ring nx])
    fix i
    assume i: "i < ?n" "live ?w i" "u = ?w\<lparr>next_task := of_nat i\<rparr>" "ready ?w l i"
    have "?n \<le> 120" using ring by (rule ring_ok_bound)
    then have ui: "unat (of_nat i :: u32) = i" using i(1) by (intro unat_of_nat_u32) simp
    have f: "state s' = (state ?w)(i := TASK_STATE_ACTIVE)" "jmp_list s' = jmp_list ?w" "task_obj s' = task_obj ?w"
      "task_id s' = task_id ?w" "task_count s' = task_count ?w" "current_task s' = of_nat i" "next_task s' = of_nat i"
      "enable_dws s' = enable_dws ?w" "normal_schedule s' = normal_schedule ?w" "priority_cur s' = priority_cur s"
      "self_kill s' = self_kill ?w"
      by (simp_all add: s' i(3) context_switch_def Let_def sched_leave_frame ui woken_frame)
        (simp add: sched_leave_def Let_def)
    have lv: "live s' = live ?w" using i(2) by (auto simp: live_def f(1) fun_eq_iff)
    have "kinv ?n s'"
      by (rule kinv_cong [of _ ?w]) (use w(2) lv in \<open>simp_all add: core_tab_def f\<close>)
    then have "core_tab ?n s'" using w(2) i(1) by (auto simp: core_tab_def f ui)
    then have "core_ok ?n s'"
      using pre w(3) by (auto simp: core_ok_def f ui woken_normal woken_self_kill core_pre_def)
    then show thesis using i w(1) f by (intro that [of i l]) simp_all
  qed
qed

lemma core_settle:
  assumes "core_ok (MAX_TASK_COUNT A) s \<or> core_due (MAX_TASK_COUNT A) s" and "settle A psp s = Some s'"
  shows "core_ok (MAX_TASK_COUNT A) s'"
proof (cases "normal_schedule s")
  case True
  with assms show ?thesis by (auto simp: settle_def core_due_def)
next
  case False
  then have "core_pre (MAX_TASK_COUNT A) s" "kernel_tick A psp s = Some s'"
    using assms by (auto simp: settle_def core_due_def core_ok_def)
  then show ?thesis by (rule core_tick)
qed

section \<open>The services\<close>

text \<open>What a creation and a kill that return have done.\<close>

context kernel_port
begin

lemma create_returned:
  assumes call: "svc_service_task_create A c arguments s = Some (ERROR_NONE, c', a', s1)"
    and k: "kinv (MAX_TASK_COUNT A) s" and ok: "call_ok A CREATE_TASK arguments s"
  obtains ls lp where "create_ready A arguments s"
    "level_add (MAX_TASK_COUNT A) (t_priority (objs (mcu s) (arguments 0))) (level_stash s, lstash_ptr s) = Some (ls, lp)"
proof -
  have cnt: "unat (task_count s) < MAX_TASK_COUNT A" and ck: "create_checks (arguments 0) s = ERROR_NONE"
    and psp: "pstack_addr s + of_nat (create_slot (MAX_TASK_COUNT A) s * TASK_STACK_SIZE A * 4) \<noteq> 0"
    using call by (auto simp: svc_service_task_create_def Let_def create_slot_def bind_eq_Some_conv split: if_splits)
  have ready: "create_ready A arguments s"
    using cnt ck psp ok by (simp add: create_ready_def call_ok_def)
  have i: "create_slot (MAX_TASK_COUNT A) s < MAX_TASK_COUNT A"
    using k cnt by (intro free_slot) (simp_all add: kinv_def)
  show thesis
  proof (cases "level_add (MAX_TASK_COUNT A) (t_priority (objs (mcu s) (arguments 0))) (level_stash s, lstash_ptr s)")
    case None
    from create_stuck [OF ready refl i None, of c] call show thesis by simp
  next
    case (Some x)
    with that [OF ready] show thesis by (cases x) blast
  qed
qed

lemma refuse_core:
  assumes ok: "core_ok (MAX_TASK_COUNT A) s" and "r \<noteq> ERROR_NONE"
    and call: "svc_service_task_create A c arguments s = Some (r, c', a', s1)"
  shows "core_ok (MAX_TASK_COUNT A) s1"
  using refused_shape [OF call assms(2)]
  by (elim disjE exE) (rule core_ok_cong [OF ok]; simp add: set_obj_error_def)+

lemma create_core:
  assumes ok: "core_ok (MAX_TASK_COUNT A) s" and cok: "call_ok A CREATE_TASK arguments s"
    and call: "svc_service_task_create A c arguments s = Some (r, c', a', s1)"
  shows "core_ok (MAX_TASK_COUNT A) s1"
proof (cases "r = ERROR_NONE")
  case False
  then show ?thesis by (rule refuse_core [OF ok _ call])
next
  case True
  let ?n = "MAX_TASK_COUNT A" and ?i = "create_slot (MAX_TASK_COUNT A) s"
  have k: "kinv ?n s" using ok by (simp add: core_ok_def core_tab_def)
  obtain ls lp where ready: "create_ready A arguments s"
    and lv: "level_add ?n (t_priority (objs (mcu s) (arguments 0))) (level_stash s, lstash_ptr s) = Some (ls, lp)"
    using create_returned [OF call [unfolded True] k cok] by blast
  have i: "?i < ?n" using k ready by (intro free_slot) (simp_all add: kinv_def create_ready_def)
  obtain u where u: "svc_service_task_create A c arguments s = Some (ERROR_NONE, c, arguments, u)"
    "jmp_list u = jmp_link ?i (jmp_list s)" "state u = (state s)(?i := TASK_STATE_SLEEP)"
    "task_obj u = (task_obj s)(?i := arguments 0)"
    "task_id u = (task_id s)(?i := make_task_id ?i (total_task_count s))"
    "task_count u = task_count s + 1" "current_task u = current_task s" "next_task u = next_task s"
    "enable_dws u = enable_dws s" "normal_schedule u = normal_schedule s" "self_kill u = self_kill s"
    by (rule create_success [OF ready refl i refl lv, of c]) blast
  have e: "s1 = u" using u(1) call by simp
  note slot = create_slot_props [OF i]
  have "kinv ?n u"
    by (rule kinv_link [OF k i slot u(3,2,4,5,6)]) (use ready in \<open>auto simp: create_ready_def\<close>)
  moreover have ic: "?i \<noteq> unat (current_task s)" using slot(1) core_live [OF ok] by metis
  ultimately show ?thesis
    using ok by (auto simp: e core_ok_def core_tab_def u)
qed

end

lemma kill_levels_shape:
  assumes "kill_levels n i s = Some t"
  shows "\<exists>ls lp. t = s\<lparr>level_stash := ls, lstash_ptr := lp\<rparr>"
proof (cases "list_ex (\<lambda>j. j \<noteq> i \<and> priority_cur s j = priority_cur s i) [0..<n]")
  case True
  with assms have "t = s\<lparr>level_stash := level_stash s, lstash_ptr := lstash_ptr s\<rparr>" by (simp add: kill_levels_def)
  then show ?thesis by blast
next
  case False
  with assms show ?thesis by (auto simp: kill_levels_def bind_eq_Some_conv)
qed

lemma kill_core:
  assumes ok: "core_ok (MAX_TASK_COUNT A) s" and cok: "call_ok A KILL_TASK arguments s"
    and call: "svc_service_task_kill A KILL_TASK arguments s = Some (r, c', a', s1)"
  shows "c' = KILL_TASK \<and> core_ok (MAX_TASK_COUNT A) s1 \<or> c' = HAND_OVER \<and> core_ended (MAX_TASK_COUNT A) s1"
proof -
  let ?n = "MAX_TASK_COUNT A" and ?c = "unat (current_task s)"
  have k: "kinv ?n s" and nc: "next_task s = current_task s" and act: "\<And>j. j < ?n \<Longrightarrow> state s j = TASK_STATE_ACTIVE \<longleftrightarrow> j = ?c"
    using ok by (simp_all add: core_ok_def core_tab_def)
  obtain i where i: "i < ?n" "live s i" "i \<noteq> 0" and pid: "arguments 0 = task_id s i"
    and flag: "arguments 1 = 1 \<longleftrightarrow> i = ?c"
    using cok by (auto simp: call_ok_def)
  have ring: "ring_ok ?n (live s) (jmp_list s)" using k by (simp add: kinv_def)
  have "pid_slot (arguments 0) = i" using table_okD [of ?n s i] k i pid by (simp add: kinv_def)
  with call obtain t where "kill_levels ?n i s = Some t"
    by (auto simp: svc_service_task_kill_def Let_def bind_eq_Some_conv)
  then obtain ls lp where kl: "kill_levels ?n i s = Some (s\<lparr>level_stash := ls, lstash_ptr := lp\<rparr>)"
    using kill_levels_shape by metis
  show ?thesis
  proof (rule kill_any [where arguments = arguments and svc_num = KILL_TASK, OF k i pid kl])
    fix u
    assume u: "svc_service_task_kill A KILL_TASK arguments s =
        Some (ERROR_NONE, if arguments 1 = 1 then HAND_OVER else KILL_TASK, arguments, u)"
      "kinv ?n u" "live u = (live s)(i := False)"
      "next_task u = (if self_kill s \<or> arguments 1 = 1 then next_task s + scast (jmp_list s i) else next_task s)"
      "current_task u = current_task s" "enable_dws u = enable_dws s"
      "self_kill u = (self_kill s \<or> arguments 1 = 1)" "state u = (state s)(i := TASK_STATE_IDLE)"
      "normal_schedule u = normal_schedule s"
    have e: "s1 = u" "c' = (if arguments 1 = 1 then HAND_OVER else KILL_TASK)" using u(1) call by simp_all
    have tab: "core_tab ?n u" using ok u(2) by (auto simp: core_ok_def core_tab_def u(5,6,8))
    show ?thesis
    proof (cases "i = ?c")
      case False
      then show ?thesis using ok tab flag by (auto simp: e core_ok_def u(4,5,7,8,9))
    next
      case True
      obtain q where q: "is_succ (live s) ?n i q" "int i + sint (jmp_list s i) = int q" "q < ?n" "live s q"
        by (rule ring_okD [OF ring i(1,2)])
      have qi: "q \<noteq> i" using q(1) i(3) by (auto simp: is_succ_def)
      have nx: "unat (next_task u) = q"
        using jmp_step32_nxt [OF ring, of "next_task s"] i(1,2) q(2) True flag nc
        by (simp add: u(4) jmp_step32_def jmp_nxt_def)
      have "state u j \<noteq> TASK_STATE_ACTIVE" if "j < ?n" for j
        using act [OF that] True by (simp add: u(8))
      then have "core_ended ?n u"
        using tab q(3,4) qi True flag by (simp add: core_ended_def nx u(3,5,7))
      then show ?thesis using True flag by (simp add: e)
    qed
  qed
qed

context pending_port
begin

lemma hand_over_core:
  assumes "svc_service_hand_over A c a s = Some (r, c', a', s')"
  shows "core_ok (MAX_TASK_COUNT A) s \<or> core_ended (MAX_TASK_COUNT A) s \<Longrightarrow> core_due (MAX_TASK_COUNT A) s'"
proof (elim disjE)
  assume ok: "core_ok (MAX_TASK_COUNT A) s"
  then have s': "s' = on_mcu trig (s\<lparr>state := (state s)(unat (current_task s) := TASK_STATE_SLEEP),
      normal_schedule := False\<rparr>)"
    using assms by (simp add: svc_service_hand_over_def trigger_pending core_ok_def core_tab_def)
  show ?thesis by (rule core_leave [OF ok, where st = TASK_STATE_SLEEP]) (simp_all add: s')
next
  assume ok: "core_ended (MAX_TASK_COUNT A) s"
  then have s': "s' = on_mcu trig (s\<lparr>self_kill := False, normal_schedule := False\<rparr>)"
    using assms by (simp add: svc_service_hand_over_def trigger_pending core_ended_def)
  have lv: "live s' = live s" by (simp add: live_def s' fun_eq_iff)
  have "core_tab (MAX_TASK_COUNT A) s'"
    by (rule core_tab_cong [of _ s]) (use ok in \<open>simp_all add: core_ended_def core_tab_def lv, simp_all add: s'\<close>)
  then show ?thesis
    using ok lv unfolding core_due_def core_pre_def core_ended_def core_tab_def by (simp add: s')
qed

lemma hibernate_core:
  assumes ok: "core_ok (MAX_TASK_COUNT A) s" and call: "svc_service_hibernate A c a s = Some (r, c', a', s')"
  shows "core_due (MAX_TASK_COUNT A) s'"
proof -
  let ?st = "if a 0 AND HIBEARNTE_REV_MASK = HIBEARNTE_REV_MASK then TASK_STATE_HIBERNATE_L
      else TASK_STATE_HIBERNATE_G"
  let ?c = "unat (current_task s)"
  define s1 where "s1 = s\<lparr>state := (state s)(?c := ?st), op1 := (op1 s)(?c := a 1),
      op2 := (op2 s)(?c := a 2), hib_value := (hib_value s)(?c := a 3)\<rparr>"
  have s': "s' = on_mcu trig ((if priority_cur s1 ?c = max_level s1
      then s1\<lparr>hlc := hlc s1 + 1, alc := alc s1 - 1\<rparr> else s1)\<lparr>normal_schedule := False\<rparr>)"
    using call unfolding svc_service_hibernate_def Let_def trigger_pending s1_def
    by (auto simp: chk_def split: if_splits)
  show ?thesis
    by (rule core_leave [OF ok, where st = ?st]) (simp_all add: s' s1_def)
qed

lemma promote_core:
  assumes ok: "core_ok (MAX_TASK_COUNT A) s" and call: "svc_service_priority_promote A c a s = Some (r, c', a', s')"
  shows "core_due (MAX_TASK_COUNT A) s'"
proof -
  define p where "p = promote_level s"
  have p: "state p = state s" "jmp_list p = jmp_list s" "task_obj p = task_obj s" "task_id p = task_id s"
    "task_count p = task_count s" "current_task p = current_task s" "next_task p = next_task s"
    "enable_dws p = enable_dws s" "self_kill p = self_kill s"
    by (simp_all add: p_def promote_level_def Let_def)
  obtain i v w ms ps where s': "s' = on_mcu trig (p\<lparr>mutex_stash := ms, priority_stash := ps,
      priority_cur := (priority_cur p)(i := v), state := (state p)(unat (current_task p) := TASK_STATE_HOLD),
      op1 := w, normal_schedule := False\<rparr>)"
    using call unfolding svc_service_priority_promote_def Let_def p_def [symmetric] trigger_pending
    by (auto simp: chk_def split: if_splits)
  show ?thesis
    by (rule core_leave [OF ok, where st = TASK_STATE_HOLD]) (simp_all add: s' p)
qed

lemma demote_core:
  assumes ok: "core_ok (MAX_TASK_COUNT A) s" and call: "svc_service_priority_demote A c a s = Some (r, c', a', s')"
  shows "c' = HAND_OVER \<and> core_ok (MAX_TASK_COUNT A) s'"
proof -
  let ?n = "MAX_TASK_COUNT A"
  define d where "d = demote_level (s\<lparr>priority_cur := (priority_cur s)(unat (current_task s) := priority_stash s (unat (current_task s))),
      priority_stash := (priority_stash s)(unat (current_task s) := 0)\<rparr>)"
  have d: "state d = state s" "jmp_list d = jmp_list s" "task_obj d = task_obj s" "task_id d = task_id s"
    "task_count d = task_count s" "current_task d = current_task s" "next_task d = next_task s"
    "enable_dws d = enable_dws s" "self_kill d = self_kill s" "normal_schedule d = normal_schedule s"
    by (simp_all add: d_def demote_level_def Let_def)
  have okd: "core_ok ?n d" by (rule core_ok_cong [OF ok]) (simp_all add: d)
  define x where "x = release_holder ?n (mutex_stash d (unat (current_task s))) d"
  have x: "jmp_list x = jmp_list d" "task_obj x = task_obj d" "task_id x = task_id d"
    "task_count x = task_count d" "current_task x = current_task d" "next_task x = next_task d"
    "enable_dws x = enable_dws d" "self_kill x = self_kill d" "normal_schedule x = normal_schedule d"
    by (simp_all add: x_def release_holder_def Let_def)
  have sx: "state x = state d \<or> (\<exists>i < ?n. state d i = TASK_STATE_HOLD \<and> state x = (state d)(i := TASK_STATE_SLEEP))"
  proof -
    let ?i = "first_idx (\<lambda>i. state d i = TASK_STATE_HOLD \<and> op1 d i = mutex_stash d (unat (current_task s))) ?n"
    show ?thesis
    proof (cases "?i < ?n")
      case True
      with first_idx_hit [OF True] show ?thesis by (auto simp: x_def release_holder_def)
    qed (simp add: x_def release_holder_def)
  qed
  have lv: "live x = live d"
    using sx by (elim disjE exE conjE) (auto simp: live_def fun_eq_iff)
  have act: "state x j = TASK_STATE_ACTIVE \<longleftrightarrow> state d j = TASK_STATE_ACTIVE" for j
    using sx by (elim disjE exE conjE) auto
  have tx: "core_tab ?n x"
    by (rule core_tab_cong [of _ d]) (use okd sx lv in \<open>auto simp: core_ok_def core_tab_def x\<close>)
  have "core_ok ?n x"
    using okd act tx by (simp add: core_ok_def x)
  moreover have "s' = x\<lparr>mutex_stash := (mutex_stash x)(unat (current_task s) := 0)\<rparr>" "c' = HAND_OVER"
    using call unfolding svc_service_priority_demote_def Let_def d_def [symmetric] x_def [symmetric]
    by (auto simp: chk_def split: if_splits)
  ultimately show ?thesis using core_ok_cong [of ?n x s'] by simp
qed

lemma start_core:
  assumes ok: "core_ok (MAX_TASK_COUNT A) s" and call: "svc_service_start_scheduler A c a s = Some (r, c', a', s')"
  shows "c' = HAND_OVER \<and> core_ok (MAX_TASK_COUNT A) s'"
proof -
  define v where "v = s\<lparr>maxp_level := 127, permissions :=
      fold (\<lambda>i perms. perms(i := 0)) [1..<MAX_TASK_COUNT A] ((permissions s)(0 := 0xFFFF))\<rparr>"
  define u where "u = (btask_psp_correction A v)\<lparr>first_start := True, self_kill := False\<rparr>"
  have u: "u = v\<lparr>mcu := mcu (btask_psp_correction A v),
      first_start := True, self_kill := False\<rparr>"
    unfolding u_def by (subst psp_correction_frame) simp
  have "s' = u" "c' = HAND_OVER"
    using call by (auto simp: svc_service_start_scheduler_def u_def v_def Let_def chk_def split: if_splits)
  moreover have "core_ok (MAX_TASK_COUNT A) u"
    by (rule core_ok_cong [OF ok]) (use ok in \<open>simp_all add: u v_def core_ok_def\<close>)
  ultimately show ?thesis by simp
qed

lemma base_core:
  assumes ok: "core_ok (MAX_TASK_COUNT A) s"
  shows "svc_service_invoke_base A c a s = Some (r, c', a', s') \<Longrightarrow> core_ok (MAX_TASK_COUNT A) s'"
    and "svc_service_release_base A c a s = Some (r, c', a', s') \<Longrightarrow> core_ok (MAX_TASK_COUNT A) s'"
  by (rule core_ok_cong [OF ok];
      auto simp: svc_service_invoke_base_def svc_service_release_base_def Let_def chk_def split: if_splits)+

lemma device_core:
  assumes ok: "core_ok (MAX_TASK_COUNT A) s"
    and call: "svc A code arguments s = Some (r, c', a', s1)" and entry: "map_of svc_dispatch code = Some svc"
    and code: "code \<in> {HWREG_WRITE, HWREG_READ, INT_ENABLE, INT_DISABLE, INT_REGISTER, SET_PRIORITY, CPU_FREQ,
      GRANT_PERMISSION}"
  shows "core_ok (MAX_TASK_COUNT A) s1"
  by (rule device_cases [OF call entry code]) (rule core_ok_cong [OF ok]; erule ssubst; simp)+

text \<open>One service of the table, from a state in which a task runs.\<close>

lemma svc_core:
  assumes ok: "core_ok (MAX_TASK_COUNT A) s" and cok: "call_ok A code a s"
    and entry: "map_of svc_dispatch code = Some svc" and call: "svc A code a s = Some (r, c', a', s1)"
  shows "c' = code \<and> (core_ok (MAX_TASK_COUNT A) s1 \<or> core_due (MAX_TASK_COUNT A) s1) \<or>
    c' \<noteq> code \<and> (core_ok (MAX_TASK_COUNT A) s1 \<and> c' \<in> {HAND_OVER, PRIORITY_PROMOTE, PRIORITY_DEMOTE} \<or>
      core_ended (MAX_TASK_COUNT A) s1 \<and> c' = HAND_OVER)"
proof -
  consider (dev) "code \<in> {HWREG_WRITE, HWREG_READ, INT_ENABLE, INT_DISABLE, INT_REGISTER, SET_PRIORITY, CPU_FREQ,
      GRANT_PERMISSION}"
    | (ho) "code = HAND_OVER" "svc = svc_service_hand_over" | (hib) "code = HIBERNATE" "svc = svc_service_hibernate"
    | (pro) "code = PRIORITY_PROMOTE" "svc = svc_service_priority_promote"
    | (dem) "code = PRIORITY_DEMOTE" "svc = svc_service_priority_demote"
    | (cre) "code = CREATE_TASK" "svc = svc_service_task_create" | (kil) "code = KILL_TASK" "svc = svc_service_task_kill"
    | (inv) "code = INVOKE_BASE" "svc = svc_service_invoke_base" | (rel) "code = RELEASE_BASE" "svc = svc_service_release_base"
    | (sta) "code = START_SCHEDULER" "svc = svc_service_start_scheduler"
    | (res) "svc = svc_service_device_reset"
    using svc_dispatch_cases [OF entry] by (auto simp: svc_dispatch_def)
  then show ?thesis
  proof cases
    case dev
    have "c' = code"
      using call svc_dispatch_cases [OF entry] dev by (auto simp: svc_dispatch_def dest: svc_codes)
    with device_core [OF ok call entry dev] show ?thesis by simp
  next
    case ho
    with call ok hand_over_core simple_codes(4) show ?thesis by blast
  next
    case hib
    with call ok hibernate_core simple_codes(1) show ?thesis by blast
  next
    case pro
    with call ok promote_core simple_codes(2) show ?thesis by blast
  next
    case dem
    with call demote_core [OF ok, of code a r c' a' s1] show ?thesis by simp
  next
    case cre
    with call cok create_core [OF ok] create_code show ?thesis by blast
  next
    case kil
    with call cok kill_core [OF ok, of a r c' a' s1] show ?thesis by auto
  next
    case inv
    with call base_core(1) [OF ok] simple_codes(10) show ?thesis by blast
  next
    case rel
    with call base_core(2) [OF ok] simple_codes(11) show ?thesis by blast
  next
    case sta
    with call start_core [OF ok, of code a r c' a' s1] show ?thesis by simp
  next
    case res
    with call show ?thesis by (simp add: svc_service_device_reset_def)
  qed
qed

text \<open>A whole call, with the services it chains.\<close>

lemma run_core:
  assumes "svc_run k A slot code a s = Some (r, s1)"
    and "core_ok (MAX_TASK_COUNT A) s \<and> call_ok A code a s \<or> core_ended (MAX_TASK_COUNT A) s \<and> code = HAND_OVER"
  shows "core_ok (MAX_TASK_COUNT A) s1 \<or> core_due (MAX_TASK_COUNT A) s1"
  using assms
proof (induction k arbitrary: code a s)
  case (Suc k)
  show ?case
  proof (cases "map_of svc_dispatch code")
    case None
    with Suc.prems show ?thesis using dispatch_entries(1) by auto
  next
    case (Some svc)
    then obtain r1 c' a' t where call: "svc A code a s = Some (r1, c', a', t)"
      and rest: "(if c' = code then Some (r1, t) else svc_run k A slot c' a' t) = Some (r, s1)"
      using Suc.prems(1) by (auto simp: bind_eq_Some_conv)
    have more: "core_ok (MAX_TASK_COUNT A) s1 \<or> core_due (MAX_TASK_COUNT A) s1"
      if n: "c' \<noteq> code" and t: "core_ok (MAX_TASK_COUNT A) t \<and> c' \<in> {HAND_OVER, PRIORITY_PROMOTE, PRIORITY_DEMOTE} \<or>
        core_ended (MAX_TASK_COUNT A) t \<and> c' = HAND_OVER"
    proof (rule Suc.IH)
      show "svc_run k A slot c' a' t = Some (r, s1)" using rest n by simp
      show "core_ok (MAX_TASK_COUNT A) t \<and> call_ok A c' a' t \<or> core_ended (MAX_TASK_COUNT A) t \<and> c' = HAND_OVER"
        using t by (auto simp: call_ok_def)
    qed
    show ?thesis
    proof (cases "core_ok (MAX_TASK_COUNT A) s \<and> call_ok A code a s")
      case True
      from svc_core [OF _ _ Some call] True more rest show ?thesis by auto
    next
      case False
      then have e: "core_ended (MAX_TASK_COUNT A) s" "code = HAND_OVER" using Suc.prems(2) by auto
      then have "svc = svc_service_hand_over" using Some dispatch_entries(1) by simp
      then have "core_due (MAX_TASK_COUNT A) t" "c' = code"
        using call e hand_over_core simple_codes(4) by blast+
      with rest show ?thesis by simp
    qed
  qed
qed simp

lemma kstep_core:
  assumes "kstep A s s'" and ok: "core_ok (MAX_TASK_COUNT A) s"
  shows "core_ok (MAX_TASK_COUNT A) s'"
  using assms(1)
proof (cases rule: kstep.cases)
  case (tick psp)
  then show ?thesis using core_tick [OF core_ok_pre [OF ok]] by blast
next
  case (call psp slot code arguments r)
  obtain s1 where s1: "svc_run 3 A slot code arguments s = Some (r, s1)" "settle A psp s1 = Some s'"
    by (rule serveE [OF call(1)])
  have "core_ok (MAX_TASK_COUNT A) s1 \<or> core_due (MAX_TASK_COUNT A) s1"
    using run_core [OF s1(1)] ok call(2) by blast
  then show ?thesis using s1(2) by (rule core_settle)
next
  case (refuse psp slot arguments r)
  obtain s1 where s1: "svc_run 3 A slot CREATE_TASK arguments s = Some (r, s1)" "settle A psp s1 = Some s'"
    by (rule serveE [OF refuse(1)])
  show ?thesis
    by (rule run_one [OF s1(1) dispatch_entries(3) create_code], assumption)
      (use core_settle s1(2) refuse_core [OF ok refuse(2)] in blast)
qed

end

text \<open>The plain steps are steps.\<close>

lemma plain_step_kstep:
  assumes "plain_step A s s'" and "step_ok (MAX_TASK_COUNT A) s"
  shows "kstep A s s'"
  using assms(1)
proof (cases rule: plain_step.cases)
  case (create psp slot arguments r)
  then have "call_ok A CREATE_TASK arguments s" by (simp add: create_ready_def call_ok_def)
  with create show ?thesis by (blast intro: kstep.call)
next
  case (kill psp slot arguments r i)
  then have "call_ok A KILL_TASK arguments s" by (auto simp: call_ok_def)
  with kill show ?thesis by (blast intro: kstep.call)
next
  case (end_task psp slot arguments r)
  have "unat (current_task s) < MAX_TASK_COUNT A" "live s (unat (current_task s))"
    using assms(2) run_ok_sched_pre by (auto simp: step_ok_def sched_pre_def)
  then have "call_ok A KILL_TASK arguments s" using end_task by (auto simp: call_ok_def)
  with end_task show ?thesis by (blast intro: kstep.call)
next
  case (device psp slot code arguments r)
  then have "call_ok A code arguments s" by (auto simp: call_ok_def)
  with device show ?thesis by (blast intro: kstep.call)
next
  case (refuse psp slot arguments r)
  then show ?thesis by (blast intro: kstep.refuse)
next
  case (tick psp)
  then show ?thesis by (rule kstep.tick)
next
  case (hand_over psp slot arguments r)
  then show ?thesis by (rule kstep.call) (simp add: call_ok_def)
next
  case (hibernate psp slot arguments r)
  then show ?thesis by (rule kstep.call) (simp add: call_ok_def)
qed

end
