(* ===== verification/CoreStart.thy ===== *)
theory CoreStart
  imports StartSteps CoreInv
begin

text \<open>
  The system on ARM from reset with all its services: \<open>kernel_init\<close>, creations of the application in any order, the
  start of the scheduler, and then the steps of the theory CoreInv. The core of the invariant holds in every state
  after the start, and the start returns exactly when the application has created a task.
\<close>

section \<open>The system\<close>

inductive booted :: "params \<Rightarrow> arm_env \<Rightarrow> heap_env \<Rightarrow> mcu \<Rightarrow> kstate \<Rightarrow> bool" for P E H m where
  init: "kernel_init P (arm_boot P E H (arm_call P slot) regs) (arm_call P slot) regs (kvar_init m) = Some (r, s) \<Longrightarrow>
    booted P E H m s"
| create: "booted P E H m s \<Longrightarrow> arm_call P slot CREATE_TASK arguments s = Some (r, s') \<Longrightarrow>
    r \<noteq> ERROR_NONE \<or> call_ok (arm_port P) CREATE_TASK arguments s \<Longrightarrow> booted P E H m s'"

inductive running :: "params \<Rightarrow> arm_env \<Rightarrow> heap_env \<Rightarrow> mcu \<Rightarrow> kstate \<Rightarrow> bool" for P E H m where
  started: "booted P E H m s \<Longrightarrow> serve (arm_port P) psp slot START_SCHEDULER arguments s = Some (r, s') \<Longrightarrow>
    running P E H m s'"
| step: "running P E H m s \<Longrightarrow> kstep (arm_port P) s s' \<Longrightarrow> running P E H m s'"

section \<open>Before the start\<close>

text \<open>
  No task is active, the tasks that exist are ready, and the stash has at most as many entries as
  there are tasks.
\<close>

definition boot_core :: "nat \<Rightarrow> kstate \<Rightarrow> bool" where
  "boot_core n s \<longleftrightarrow> kinv n s \<and> max_ok n s \<and> current_task s = 0 \<and> next_task s = 0 \<and> priority_cur s 0 = 0 \<and>
     enable_dws s \<and> normal_schedule s \<and> \<not> self_kill s \<and>
     (\<forall>i < n. state s i = TASK_STATE_SLEEP \<or> state s i = TASK_STATE_IDLE) \<and>
     0 < unat (lstash_ptr s) \<and> unat (lstash_ptr s) \<le> unat (task_count s)"

lemma boot_core_bounds:
  assumes "boot_core n s"
  shows "live s 0" "0 < n" "n \<le> 120" "unat (task_count s) \<le> n" "ring_ok n (live s) (jmp_list s)"
    "i < n \<Longrightarrow> live s i \<Longrightarrow> state s i = TASK_STATE_SLEEP"
proof -
  show r: "ring_ok n (live s) (jmp_list s)" using assms by (simp add: boot_core_def kinv_def)
  show "live s 0" "0 < n" "n \<le> 120" using ring_ok_base [OF r] ring_ok_bound [OF r] by auto
  show "unat (task_count s) \<le> n"
    using assms length_filter_le [of "live s" "[0..<n]"] by (simp add: boot_core_def kinv_def)
  show "i < n \<Longrightarrow> live s i \<Longrightarrow> state s i = TASK_STATE_SLEEP" using assms by (auto simp: boot_core_def live_def)
qed

lemma init_boot_core:
  assumes "arm_build P E m"
    and "kernel_init P (arm_boot P E H (arm_call P slot) regs) (arm_call P slot) regs (kvar_init m) = Some (r, s)"
  shows "boot_core (MAX_TASK_COUNT P) s"
proof (rule kernel_init_arm [of P E m H slot regs])
  fix s'
  assume k: "kernel_init P (arm_boot P E H (arm_call P slot) regs) (arm_call P slot) regs (kvar_init m) =
      Some (ERROR_NONE, s')"
    "kernel_ok (MAX_TASK_COUNT P) s'" and lv: "\<And>i. i < MAX_TASK_COUNT P \<Longrightarrow> live s' i = (i = 0)"
    and f: "current_task s' = 0" "next_task s' = 0" "state s' 0 = TASK_STATE_SLEEP" "priority_cur s' 0 = 0"
    "enable_dws s'" "normal_schedule s'" "\<not> self_kill s'" "lstash_ptr s' = 1" "task_count s' = 1"
  have "state s' i = TASK_STATE_SLEEP \<or> state s' i = TASK_STATE_IDLE" if "i < MAX_TASK_COUNT P" for i
    using lv [OF that] f(3) by (cases "i = 0") (auto simp: live_def)
  with k f assms(2) show "boot_core (MAX_TASK_COUNT P) s" by (simp add: boot_core_def kernel_ok_def)
qed (use assms(1) in \<open>simp_all add: arm_build_def\<close>)

lemma level_add_ptr: "level_add n p (ls, ptr) = Some (ls', ptr') \<Longrightarrow> ptr' = ptr \<or> ptr' = ptr + 1"
  by (auto simp: level_add_def bind_eq_Some_conv split: if_splits)

context kernel_port
begin

lemma create_boot_core:
  assumes ok: "boot_core (MAX_TASK_COUNT A) s"
    and call: "svc_service_task_create A c arguments s = Some (r, c', a', s1)"
    and cok: "r \<noteq> ERROR_NONE \<or> call_ok A CREATE_TASK arguments s"
  shows "boot_core (MAX_TASK_COUNT A) s1"
proof (cases "r = ERROR_NONE")
  case False
  have same: "boot_core (MAX_TASK_COUNT A) (set_obj_error e a (s\<lparr>PSP_Array := v\<rparr>))" for e a v
  proof -
    have lv: "live (set_obj_error e a (s\<lparr>PSP_Array := v\<rparr>)) = live s"
      by (simp add: live_def set_obj_error_def fun_eq_iff)
    have "kinv (MAX_TASK_COUNT A) (set_obj_error e a (s\<lparr>PSP_Array := v\<rparr>))"
      by (rule kinv_cong [of _ s]) (use ok lv in \<open>simp_all add: boot_core_def set_obj_error_def\<close>)
    with ok lv show ?thesis by (simp add: boot_core_def max_ok_def) (simp add: set_obj_error_def)
  qed
  have "s\<lparr>PSP_Array := PSP_Array s\<rparr> = s" by simp
  with refused_shape [OF call False] same [of r "arguments 0"] show ?thesis by metis
next
  case True
  let ?n = "MAX_TASK_COUNT A" and ?i = "create_slot (MAX_TASK_COUNT A) s"
  let ?p = "t_priority (objs (mcu s) (arguments 0))"
  note b = boot_core_bounds [OF ok]
  have k: "kinv ?n s" "max_ok ?n s" using ok by (simp_all add: boot_core_def)
  obtain ls lp where ready: "create_ready A arguments s"
    and lv: "level_add ?n ?p (level_stash s, lstash_ptr s) = Some (ls, lp)"
    using create_returned [OF call [unfolded True] k(1)] cok True by blast
  have i: "?i < ?n" using k ready by (intro free_slot) (simp_all add: kinv_def create_ready_def)
  obtain s7 u where u: "svc_service_task_create A c arguments s = Some (ERROR_NONE, c, arguments, u)"
    "u = create_counts A ?i (fold (max_level_step A) [0..<?n] s7)"
    "jmp_list u = jmp_link ?i (jmp_list s)" "state u = (state s)(?i := TASK_STATE_SLEEP)"
    "task_obj u = (task_obj s)(?i := arguments 0)"
    "task_id u = (task_id s)(?i := make_task_id ?i (total_task_count s))"
    "priority_cur u = (priority_cur s)(?i := ?p)" "task_count u = task_count s + 1" "lstash_ptr u = lp"
    "state s7 = state u" "priority_cur s7 = priority_cur u" "max_level s7 = max_level s" "alc s7 = alc s" "hlc s7 = hlc s"
    "current_task u = current_task s" "next_task u = next_task s"
    "enable_dws u = enable_dws s" "normal_schedule u = normal_schedule s" "self_kill u = self_kill s"
    by (rule create_success [OF ready refl i refl lv, of c]) blast
  have e: "s1 = u" using u(1) call by simp
  note slot = create_slot_props [OF i]
  have i0: "?i \<noteq> 0" using slot(1) b(1) by metis
  have "kinv ?n u"
    by (rule kinv_link [OF k(1) i slot u(4,3,5,6,8)]) (use ready in \<open>auto simp: create_ready_def\<close>)
  moreover have "max_ok ?n u" by (rule create_max_counts [OF u(2) i b(3) slot(1) k(2) u(4,7,10-14)])
  moreover have "0 < unat lp \<and> unat lp \<le> unat (task_count u)"
  proof -
    have tc: "unat (task_count u) = Suc (unat (task_count s))"
      using b(3,4) by (simp add: u(8) unat_word_ariths)
    have lt: "0 < unat (lstash_ptr s)" "unat (lstash_ptr s) \<le> unat (task_count s)" using ok by (simp_all add: boot_core_def)
    have "unat (lstash_ptr s + 1) = Suc (unat (lstash_ptr s))" using lt b(3,4) by (intro unat_Suc_u8) simp
    with level_add_ptr [OF lv] lt tc show ?thesis by auto
  qed
  ultimately show ?thesis using ok i0 by (auto simp: e boot_core_def u(4,7,9,15-19))
qed

end

lemma booted_core:
  assumes "booted P E H m s" and build: "arm_build P E m"
  shows "boot_core (MAX_TASK_COUNT P) s"
  using assms(1)
proof (induction rule: booted.induct)
  case (init slot regs r s)
  then show ?case by (rule init_boot_core [OF build])
next
  case (create s slot arguments r s')
  have run: "svc_run 3 (arm_port P) slot CREATE_TASK arguments s = Some (r, s')"
    using create(2) svc_handler_run [of CREATE_TASK 3 "arm_port P" slot arguments s]
    by (simp add: arm_call_def svc_rank_def)
  have b: "boot_core (MAX_TASK_COUNT (arm_port P)) s" using create(4) by simp
  obtain a' where "svc_service_task_create (arm_port P) CREATE_TASK arguments s = Some (r, CREATE_TASK, a', s')"
    by (rule run_one [OF run dispatch_entries(3) create_code])
  from kernel_port.create_boot_core [OF arm.kernel_port_axioms b this create(3)] show ?case by simp
qed

section \<open>The start\<close>

lemma boot_start:
  assumes ok: "boot_core (MAX_TASK_COUNT P) s"
  obtains s1 where "\<And>slot arguments. svc_handler (arm_port P) slot START_SCHEDULER arguments s = Some (ERROR_NONE, s1)"
    "core_due (MAX_TASK_COUNT P) s1" "state s1 = state s" "jmp_list s1 = jmp_list s" "priority_cur s1 = priority_cur s"
    "max_level s1 = max_level s" "lstash_ptr s1 = lstash_ptr s" "current_task s1 = 0" "next_task s1 = 0"
    "enable_dws s1" "task_count s1 = task_count s" "first_start s1"
proof -
  let ?n = "MAX_TASK_COUNT P"
  note b = boot_core_bounds [OF ok]
  have n: "0 < MAX_TASK_COUNT (arm_port P)" and cur: "current_task s = 0" using b(2) ok by (simp_all add: boot_core_def)
  show thesis
  proof (rule armp.start_fields [OF n cur])
    fix u s1
    assume c: "\<And>arguments. svc_service_start_scheduler (arm_port P) START_SCHEDULER arguments s =
        Some (ERROR_NONE, HAND_OVER, arguments, u)"
      "\<And>arguments. svc_service_hand_over (arm_port P) HAND_OVER arguments u = Some (ERROR_NONE, HAND_OVER, arguments, s1)"
      and f: "\<not> normal_schedule s1" "\<not> self_kill s1" "first_start s1" "state s1 = (state s)(0 := TASK_STATE_SLEEP)"
      "jmp_list s1 = jmp_list s" "task_obj s1 = task_obj s" "task_id s1 = task_id s"
      "task_count s1 = task_count s" "priority_cur s1 = priority_cur s" "max_level s1 = max_level s"
      "lstash_ptr s1 = lstash_ptr s" "current_task s1 = 0"
      "next_task s1 = next_task s" "enable_dws s1 = enable_dws s"
    have h: "svc_handler (arm_port P) slot START_SCHEDULER arguments s = Some (ERROR_NONE, s1)" for slot arguments
      using c by (simp add: svc_handler_run [of START_SCHEDULER 3] svc_rank_def numeral_3_eq_3 svc_dispatch_def)
    have st: "state s1 = state s" using b(6) [of 0] b(1,2) by (simp add: f(4) fun_eq_iff)
    then have lv: "live s1 = live s" by (simp add: live_def fun_eq_iff)
    have "kinv ?n s1" by (rule kinv_cong [of _ s]) (use ok lv in \<open>simp_all add: boot_core_def f\<close>)
    moreover have "state s1 i \<in> task_states" "state s1 i \<noteq> TASK_STATE_ACTIVE" if "i < ?n" for i
      using ok that by (auto simp: boot_core_def st)
    ultimately have "core_due ?n s1"
      using ok b(1,2) lv by (simp add: core_due_def core_pre_def core_tab_def f(1,2,12-) boot_core_def)
    then show thesis using ok by (intro that [OF h _ st]) (simp_all add: f boot_core_def)
  qed
qed

text \<open>The choice of the first tick: a task of the highest level other than the base task, if there is another task at all.\<close>

lemma first_pick:
  assumes ok: "boot_core (MAX_TASK_COUNT A) s" and due: "core_due (MAX_TASK_COUNT A) s1"
    and f: "state s1 = state s" "jmp_list s1 = jmp_list s" "priority_cur s1 = priority_cur s"
      "max_level s1 = max_level s" "lstash_ptr s1 = lstash_ptr s" "current_task s1 = 0" "next_task s1 = 0" "enable_dws s1"
  shows "if \<exists>i < MAX_TASK_COUNT A. 0 < i \<and> live s i
    then \<exists>i. sched_pick A s1 = Some (i, max_level s) \<and> 0 < i \<and> i < MAX_TASK_COUNT A
    else sched_pick A s1 = None"
proof -
  let ?n = "MAX_TASK_COUNT A" and ?w = "woken A s1"
  note b = boot_core_bounds [OF ok]
  have pre: "core_pre ?n s1" using due by (simp add: core_due_def)
  note w = core_woken [OF pre]
  have ls: "live s1 = live s" by (simp add: live_def f fun_eq_iff)
  have lw: "live ?w = live s" by (simp only: w(1) ls)
  have ring: "ring_ok ?n (live ?w) (jmp_list ?w)" using b(5) unfolding lw by (simp add: woken_frame f)
  have l0: "live ?w 0" using b(1) by (simp add: lw)
  have sl: "state ?w i = TASK_STATE_SLEEP" if i: "i < ?n" "live s i" for i
  proof -
    have "state (entered A s1) i = TASK_STATE_SLEEP"
      using b(6) [OF i] due by (simp add: entered_state f core_due_def)
    moreover have "distinct (ring_round ?n (entered A s1) (unat (next_task s1)))"
    proof (rule ring_round_set(2))
      have le: "live (entered A s1) = live s"
        using due by (simp add: live_def entered_state f core_due_def fun_eq_iff)
      show "ring_ok ?n (live (entered A s1)) (jmp_list (entered A s1))" "live (entered A s1) (unat (next_task s1))"
        unfolding le entered_frame f using b(1,5) by simp_all
    qed (use b(2) f in simp)
    ultimately show ?thesis by (simp add: woken_def fold_hib_state)
  qed
  have tl: "(i, l) \<in> set (tl (round_at ?n ?w 0 l)) \<longleftrightarrow> i < ?n \<and> live s i \<and> i \<noteq> 0" for i l
    using tl_round_at [OF ring b(2) l0, of i l] by (simp add: lw)
  show ?thesis
  proof (cases "\<exists>i < ?n. 0 < i \<and> live s i")
    case True
    obtain k where k: "k < ?n" "live s k" "k \<noteq> 0" "priority_cur s k = max_level s"
    proof -
      obtain j where j: "j < ?n" "live s j" "priority_cur s j = max_level s" using ok by (auto simp: boot_core_def max_ok_def)
      obtain i where i: "i < ?n" "0 < i" "live s i" using True by blast
      show thesis
      proof (cases "j = 0")
        case True
        then have "max_level s = 0" using j(3) ok by (simp add: boot_core_def)
        moreover have "priority_cur s i \<le> max_level s" using ok i by (simp add: boot_core_def max_ok_def)
        ultimately show thesis using i by (intro that [of i]) simp_all
      next
        case False
        with j that show thesis by blast
      qed
    qed
    have "is_ready ?w (k, max_level s)"
      using sl [OF k(1,2)] k(4) by (simp add: is_ready_def ready_def woken_frame f)
    moreover have mem: "(k, max_level s) \<in> set (tl (round_at ?n ?w 0 (max_level s)))" using tl k by simp
    ultimately obtain x where x: "find (is_ready ?w) (tl (round_at ?n ?w 0 (max_level s))) = Some x"
      by (metis find_None_iff not_Some_eq)
    then have xm: "x \<in> set (tl (round_at ?n ?w 0 (max_level s)))" by (auto simp: find_Some_iff)
    have sx: "snd x = max_level s" using in_set_tl [OF xm] by (auto simp: round_at_def)
    have "(fst x, snd x) \<in> set (tl (round_at ?n ?w 0 (max_level s)))" using xm by simp
    then have "0 < fst x \<and> fst x < ?n" unfolding sx tl by simp
    moreover have "sched_pick A s1 = Some x"
      using x by (simp add: sched_pick_def sched_order_def find_append_case woken_frame f)
    ultimately show ?thesis using True sx by (cases x) auto
  next
    case False
    have "filter (live s) [0..<?n] = [0]"
    proof -
      have "filter (live s) [1..<?n] = []" using False by (auto simp: filter_empty_conv)
      then show ?thesis using b(1,2) by (simp add: upt_conv_Cons)
    qed
    then have one: "unat (task_count s) = 1" using ok by (simp add: boot_core_def kinv_def)
    then have "unat (lstash_ptr s) = 1" using ok by (simp add: boot_core_def)
    then have lp: "lstash_ptr s = 1" by (metis unat_1 word_unat_eq_iff)
    have "set (tl (round_at ?n ?w 0 (max_level s))) = {}"
    proof -
      have "x \<notin> set (tl (round_at ?n ?w 0 (max_level s)))" for x
      proof
        assume x: "x \<in> set (tl (round_at ?n ?w 0 (max_level s)))"
        have "snd x = max_level s" using in_set_tl [OF x] by (auto simp: round_at_def)
        then have "(fst x, max_level s) \<in> set (tl (round_at ?n ?w 0 (max_level s)))" using x by (metis prod.collapse)
        with tl False show False by auto
      qed
      then show ?thesis by (metis all_not_in_conv)
    qed
    then have "sched_pick A s1 = None"
      by (simp add: sched_pick_def sched_order_def woken_frame f lp lower_levels_def)
    with False show ?thesis by simp
  qed
qed

lemma start_core_iff:
  assumes ok: "boot_core (MAX_TASK_COUNT P) s"
  shows "if \<exists>i < MAX_TASK_COUNT P. 0 < i \<and> live s i
    then \<exists>s'. serve (arm_port P) psp slot START_SCHEDULER arguments s = Some (ERROR_NONE, s') \<and>
      core_ok (MAX_TASK_COUNT P) s' \<and> current_task s' \<noteq> 0 \<and>
      priority_cur s' (unat (current_task s')) = max_level s
    else serve (arm_port P) psp slot START_SCHEDULER arguments s = None"
proof (rule boot_start [OF ok])
  let ?A = "arm_port P" and ?n = "MAX_TASK_COUNT P"
  fix s1
  assume h: "\<And>slot arguments. svc_handler ?A slot START_SCHEDULER arguments s = Some (ERROR_NONE, s1)"
    and due: "core_due ?n s1"
    and f: "state s1 = state s" "jmp_list s1 = jmp_list s" "priority_cur s1 = priority_cur s"
      "max_level s1 = max_level s" "lstash_ptr s1 = lstash_ptr s" "current_task s1 = 0" "next_task s1 = 0" "enable_dws s1"
  have ok': "boot_core (MAX_TASK_COUNT ?A) s" and due': "core_due (MAX_TASK_COUNT ?A) s1" using ok due by simp_all
  note b = boot_core_bounds [OF ok]
  have sv: "serve ?A psp slot START_SCHEDULER arguments s = map_option (\<lambda>s'. (ERROR_NONE, s')) (kernel_tick ?A psp s1)"
    using due by (simp add: serve_def h settle_def core_due_def map_option_case split: option.splits)
  have lv: "live s1 = live s" by (simp add: live_def f fun_eq_iff)
  have sp: "scheduler ?A s1 = map_option (\<lambda>(i, l). sched_leave ?A l ((woken ?A s1)\<lparr>next_task := of_nat i\<rparr>)) (sched_pick ?A s1)"
    by (rule scheduler_pick)
      (use b ok in \<open>simp_all add: f lv boot_core_def\<close>)
  note pk = first_pick [OF ok' due' f]
  show ?thesis
  proof (cases "\<exists>i < ?n. 0 < i \<and> live s i")
    case True
    then obtain i where i: "sched_pick ?A s1 = Some (i, max_level s)" "0 < i" "i < ?n" using pk by auto
    define s' where "s' = context_switch psp (sched_leave ?A (max_level s) ((woken ?A s1)\<lparr>next_task := of_nat i\<rparr>))"
    have t: "kernel_tick ?A psp s1 = Some s'" by (simp add: kernel_tick_def sp i(1) s'_def)
    have ui: "unat (of_nat i :: u32) = i" using i(3) b(3) by (intro unat_of_nat_u32) simp
    have cur: "current_task s' = of_nat i" by (simp add: s'_def context_switch_def Let_def sched_leave_frame)
    then have c0: "current_task s' \<noteq> 0" using ui i(2) by (metis less_not_refl unat_0)
    have rd: "ready (woken ?A s1) (max_level s) i"
      using i(1) by (intro pick_in_order) (simp add: sched_pick_def)
    have "priority_cur s' = priority_cur (woken ?A s1)"
      by (simp add: s'_def context_switch_def Let_def sched_leave_frame)
    then have pr: "priority_cur s' (unat (current_task s')) = max_level s" using rd by (simp add: cur ui ready_def)
    have "core_pre (MAX_TASK_COUNT ?A) s1" using due' by (simp add: core_due_def)
    then have "core_ok (MAX_TASK_COUNT ?A) s'" using t by (rule core_tick)
    with True t c0 pr show ?thesis by (simp add: sv)
  next
    case False
    then have "sched_pick ?A s1 = None" using pk by simp
    then have "kernel_tick ?A psp s1 = None" by (simp add: kernel_tick_def sp)
    with False show ?thesis by (simp add: sv)
  qed
qed

lemma running_core:
  assumes "running P E H m s" and build: "arm_build P E m"
  shows "core_ok (MAX_TASK_COUNT P) s"
  using assms(1)
proof (induction rule: running.induct)
  case (started s psp slot arguments r s')
  show ?case
    using start_core_iff [OF booted_core [OF started(1) build], of psp slot arguments] started(2)
    by (auto split: if_splits)
next
  case (step s s')
  then show ?case using armp.kstep_core [of P s s'] by simp
qed

text \<open>The plain system is a part of this one.\<close>

lemma plain_booted_booted: "plain_booted P E H m s \<Longrightarrow> booted P E H m s"
proof (induction rule: plain_booted.induct)
  case (create s slot arguments r s')
  then have "call_ok (arm_port P) CREATE_TASK arguments s" by (simp add: create_ready_def call_ok_def)
  with create show ?case by (blast intro: booted.create)
qed (rule booted.init)

lemma plain_running_running:
  assumes "plain_running P E H m s" and build: "arm_build P E m"
  shows "running P E H m s"
  using assms(1)
proof (induction rule: plain_running.induct)
  case (started s psp slot arguments r s')
  then show ?case by (blast intro: running.started plain_booted_booted)
next
  case (step s s')
  have "step_ok (MAX_TASK_COUNT (arm_port P)) s" using plain_running_ok [OF step(1) build] by simp
  with step show ?case by (blast intro: running.step plain_step_kstep)
qed

end
