(* ===== verification/Startup.thy ===== *)
theory Startup
  imports BootInv
begin

text \<open>
  The reset code of \<^verbatim>\<open>src/startup.c\<close>: the vector table in flash, the initialisation of the data
  sections, and the way to \<open>kernel_init\<close> and \<open>main\<close>.
\<close>

section \<open>The vector table\<close>

text \<open>An entry is the initial stack pointer, one of the four handlers of the file or a null pointer.\<close>

datatype vector = kstack_end_addr | v_skibios_boot | v_nmi_handler | v_fault_handler | v_default_handler | Reserved

definition g_pfnVectors :: "vector list" where
  "g_pfnVectors =
     [kstack_end_addr, v_skibios_boot, v_nmi_handler, v_fault_handler] @
     replicate 3 v_default_handler @ replicate 4 Reserved @
     replicate 2 v_default_handler @ [Reserved] @
     replicate 70 v_default_handler @ replicate 2 Reserved @
     replicate 4 v_default_handler @ [Reserved] @
     replicate 38 v_default_handler @ [Reserved]"

text \<open>The three handlers of the file are endless loops.\<close>

definition nmi_handler :: "kstate \<Rightarrow> kstate option" where
  "nmi_handler s = spin_forever s"

definition fault_handler :: "kstate \<Rightarrow> kstate option" where
  "fault_handler s = spin_forever s"

definition default_handler :: "kstate \<Rightarrow> kstate option" where
  "default_handler s = spin_forever s"

section \<open>skibios\_boot\<close>

text \<open>The symbols of the linker script.\<close>

record sections =
  data_load :: u32
  data_start :: u32
  data_end :: u32
  bss_start :: u32
  bss_end :: u32
  kdat_load :: u32
  kdat_start :: u32
  kdat_end :: u32
  kbss_start :: u32
  kbss_end :: u32

text \<open>The copy loop compares pointers, the clearing loop compares registers as signed numbers.\<close>

partial_function (option) copy_words :: "u32 \<Rightarrow> u32 \<Rightarrow> u32 \<Rightarrow> mcu \<Rightarrow> mcu option" where
  "copy_words pui32Src pui32Dest stop m =
     (if pui32Dest < stop
      then copy_words (pui32Src + 4) (pui32Dest + 4) stop (mem_store pui32Dest (mem m pui32Src) m)
      else Some m)"

partial_function (option) zero_words :: "u32 \<Rightarrow> u32 \<Rightarrow> mcu \<Rightarrow> mcu option" where
  "zero_words r0 r1 m =
     (if sint r0 < sint r1 then zero_words (r0 + 4) r1 (mem_store r0 0 m) else Some m)"

definition boot_memory :: "sections \<Rightarrow> mcu \<Rightarrow> mcu option" where
  "boot_memory L m = do {
     m1 \<leftarrow> copy_words (data_load L) (data_start L) (data_end L) m;
     m2 \<leftarrow> copy_words (kdat_load L) (kdat_start L) (kdat_end L) m1;
     m3 \<leftarrow> zero_words (kbss_start L) (kbss_end L) m2;
     zero_words (bss_start L) (bss_end L) m3
   }"

text \<open>
  The kernel's variables lie in the sections \<^verbatim>\<open>.kdat\<close> and \<^verbatim>\<open>.kbss\<close>, which the image fills with
  the values of \<open>kvar_init\<close>; since they are fields apart from the memory here, that they have these values after the loops is
  stipulated. \<open>main_fn\<close> is the entry point of the application.
\<close>

definition skibios_boot ::
  "'z params_scheme \<Rightarrow> boot_port \<Rightarrow> sections \<Rightarrow> supervisor \<Rightarrow> svc_args \<Rightarrow> (kstate \<Rightarrow> kstate option) \<Rightarrow> mcu \<Rightarrow> kstate option" where
  "skibios_boot P B L call regs main_fn m = do {
     m1 \<leftarrow> boot_memory L m;
     let m2 = hwreg_store 0xE000ED88 (HWREG 0xE000ED88 m1 AND NOT 0x00F00000 OR 0x00F00000) m1;
     (_, s) \<leftarrow> kernel_init P B call regs (kvar_init m2);
     main_fn s
   }"

section \<open>The loops\<close>

text \<open>The words of a section.\<close>

definition section_size :: "u32 \<Rightarrow> u32 \<Rightarrow> nat" where
  "section_size a b = (unat b - unat a) div 4"

definition section_words :: "u32 \<Rightarrow> nat \<Rightarrow> u32 set" where
  "section_words a n = (\<lambda>i. a + 4 * of_nat i) ` {..<n}"

lemma section_words_Suc: "section_words a (Suc n) = insert a (section_words (a + 4) n)"
proof -
  have "{..<Suc n} = insert 0 (Suc ` {..<n})" by (rule lessThan_Suc_eq_insert_0)
  then show ?thesis by (auto simp: section_words_def image_image algebra_simps)
qed

lemma section_words_at: "i < n \<Longrightarrow> a + 4 * of_nat i \<in> section_words a n"
  by (auto simp: section_words_def)

lemma unat_u32: "unat (x :: u32) < 4294967296"
  using unsigned_less [of x, where 'a = nat] by simp

lemma copy_words_ends:
  assumes "unat a + 4 * n = unat b" and "section_words src n \<inter> section_words a n = {}"
  shows "\<exists>m'. copy_words src a b m = Some m' \<and> (\<forall>i < n. mem m' (a + 4 * of_nat i) = mem m (src + 4 * of_nat i)) \<and>
    (\<forall>x. x \<notin> section_words a n \<longrightarrow> mem m' x = mem m x) \<and> objs m' = objs m"
  using assms
proof (induction n arbitrary: src a m)
  case 0
  then have "\<not> a < b" by (simp add: word_less_nat_alt)
  then show ?case by (subst copy_words.simps) simp
next
  case (Suc n)
  let ?m = "mem_store a (mem m src) m"
  have lt: "a < b" using Suc.prems(1) by (simp add: word_less_nat_alt)
  have a4: "unat (a + 4) = unat a + 4" using Suc.prems(1) unat_u32 [of b] by (simp add: unat_word_ariths)
  note w = Suc.prems(2) [unfolded section_words_Suc]
  obtain m' where m': "copy_words (src + 4) (a + 4) b ?m = Some m'"
    "\<forall>i < n. mem m' (a + 4 + 4 * of_nat i) = mem ?m (src + 4 + 4 * of_nat i)"
    "\<forall>x. x \<notin> section_words (a + 4) n \<longrightarrow> mem m' x = mem ?m x" "objs m' = objs m"
    using Suc.IH [of "a + 4" "src + 4" ?m] a4 Suc.prems(1) w by (auto simp: mem_store_def)
  have nin: "a \<notin> section_words (a + 4) n"
  proof
    assume "a \<in> section_words (a + 4) n"
    then obtain i where i: "i < n" "4 * of_nat (Suc i) = (0 :: u32)" by (auto simp: section_words_def algebra_simps)
    have "unat (4 * of_nat (Suc i) :: u32) = 4 * Suc i"
      using i(1) Suc.prems(1) unat_u32 [of b] by (simp add: unat_word_ariths unat_of_nat del: of_nat_Suc)
    with i(2) show False by (simp del: of_nat_Suc)
  qed
  have "copy_words src a b m = Some m'" using m'(1) lt by (subst copy_words.simps) simp
  moreover have "mem m' (a + 4 * of_nat i) = mem m (src + 4 * of_nat i)" if "i < Suc n" for i
  proof (cases i)
    case 0
    then show ?thesis using m'(3) nin by (simp add: mem_store_def)
  next
    case (Suc j)
    then have "src + 4 + 4 * of_nat j \<noteq> a" using that section_words_at [of j n "src + 4"] w by auto
    then show ?thesis using m'(2) that Suc by (simp add: mem_store_def algebra_simps)
  qed
  moreover have "mem m' x = mem m x" if "x \<notin> section_words a (Suc n)" for x
    using m'(3) that by (simp add: section_words_Suc mem_store_def)
  ultimately show ?case using m'(4) by auto
qed

lemma sint_low:
  assumes "unat (x :: u32) < 2 ^ 31"
  shows "sint x = int (unat x)"
proof -
  have "unat x < 2147483648" using assms by simp
  then have "int (unat x) < 2147483648" by linarith
  then have "signed_take_bit 31 (uint x) = uint x"
    by (intro signed_take_bit_int_eq_self) (simp_all add: order_trans [OF _ unsigned_greater_eq])
  then show ?thesis by (simp add: sint_uint)
qed

lemma zero_words_ends:
  assumes "unat a + 4 * n = unat b" and "unat b < 2 ^ 31"
  shows "\<exists>m'. zero_words a b m = Some m' \<and> (\<forall>x. mem m' x = (if x \<in> section_words a n then 0 else mem m x)) \<and>
    objs m' = objs m"
  using assms(1)
proof (induction n arbitrary: a m)
  case 0
  then have "a = b" by (simp add: word_unat_eq_iff)
  then show ?case by (subst zero_words.simps) (simp add: section_words_def)
next
  case (Suc n)
  have a4: "unat (a + 4) = unat a + 4" using Suc.prems assms(2) by (simp add: unat_word_ariths)
  have "unat a < unat b" "unat a < 2 ^ 31" using Suc.prems assms(2) by simp_all
  then have lt: "sint a < sint b" using assms(2) by (simp only: sint_low of_nat_less_iff)
  obtain m' where "zero_words (a + 4) b (mem_store a 0 m) = Some m'"
    "\<forall>x. mem m' x = (if x \<in> section_words (a + 4) n then 0 else mem (mem_store a 0 m) x)" "objs m' = objs m"
    using Suc.IH [of "a + 4" "mem_store a 0 m"] a4 Suc.prems by (auto simp: mem_store_def)
  then show ?case using lt by (subst zero_words.simps) (auto simp: section_words_Suc mem_store_def)
qed

section \<open>The memory at the start\<close>

definition section_ok :: "u32 \<Rightarrow> u32 \<Rightarrow> bool" where
  "section_ok a b \<longleftrightarrow> unat a \<le> unat b \<and> 4 dvd (unat b - unat a) \<and> unat b < 2 ^ 31"

lemma section_ok_size: "section_ok a b \<Longrightarrow> unat a + 4 * section_size a b = unat b"
  by (auto simp: section_ok_def section_size_def)

text \<open>
  The layout: sections of whole words in the lower half of the address space, apart from each other and from
  the two images in flash.
\<close>

definition sections_ok :: "sections \<Rightarrow> bool" where
  "sections_ok L \<longleftrightarrow>
     section_ok (data_start L) (data_end L) \<and> section_ok (bss_start L) (bss_end L) \<and>
     section_ok (kdat_start L) (kdat_end L) \<and> section_ok (kbss_start L) (kbss_end L) \<and>
     (let D = section_words (data_start L) (section_size (data_start L) (data_end L));
          Z = section_words (bss_start L) (section_size (bss_start L) (bss_end L));
          K = section_words (kdat_start L) (section_size (kdat_start L) (kdat_end L));
          Y = section_words (kbss_start L) (section_size (kbss_start L) (kbss_end L));
          LD = section_words (data_load L) (section_size (data_start L) (data_end L));
          LK = section_words (kdat_load L) (section_size (kdat_start L) (kdat_end L))
      in D \<inter> K = {} \<and> D \<inter> Y = {} \<and> D \<inter> Z = {} \<and> K \<inter> Y = {} \<and> K \<inter> Z = {} \<and> LD \<inter> D = {} \<and> LK \<inter> (D \<union> K) = {})"

definition memory_ready :: "sections \<Rightarrow> mcu \<Rightarrow> mcu \<Rightarrow> bool" where
  "memory_ready L m m' \<longleftrightarrow>
     (\<forall>i < section_size (data_start L) (data_end L). mem m' (data_start L + 4 * of_nat i) = mem m (data_load L + 4 * of_nat i)) \<and>
     (\<forall>i < section_size (kdat_start L) (kdat_end L). mem m' (kdat_start L + 4 * of_nat i) = mem m (kdat_load L + 4 * of_nat i)) \<and>
     (\<forall>i < section_size (bss_start L) (bss_end L). mem m' (bss_start L + 4 * of_nat i) = 0) \<and>
     (\<forall>i < section_size (kbss_start L) (kbss_end L). mem m' (kbss_start L + 4 * of_nat i) = 0) \<and>
     (\<forall>x. 2 ^ 31 \<le> unat x \<longrightarrow> mem m' x = mem m x)"

lemma section_words_low:
  assumes "section_ok a b" and "x \<in> section_words a (section_size a b)"
  shows "unat x < 2 ^ 31"
proof -
  obtain i where i: "i < section_size a b" "x = a + 4 * of_nat i" using assms(2) by (auto simp: section_words_def)
  have "unat a + 4 * i < unat b" using i(1) section_ok_size [OF assms(1)] by linarith
  moreover have "unat x = unat a + 4 * i"
    using calculation unat_u32 [of b] unfolding i(2) by (simp add: unat_word_ariths unat_of_nat)
  ultimately show ?thesis using assms(1) by (simp add: section_ok_def)
qed

lemma boot_memory_ready:
  assumes "sections_ok L"
  obtains m' where "boot_memory L m = Some m'" "memory_ready L m m'" "objs m' = objs m"
proof -
  let ?nd = "section_size (data_start L) (data_end L)" and ?nk = "section_size (kdat_start L) (kdat_end L)"
  let ?nb = "section_size (bss_start L) (bss_end L)" and ?ny = "section_size (kbss_start L) (kbss_end L)"
  let ?D = "section_words (data_start L) ?nd" and ?K = "section_words (kdat_start L) ?nk"
  let ?Z = "section_words (bss_start L) ?nb" and ?Y = "section_words (kbss_start L) ?ny"
  have ok: "section_ok (data_start L) (data_end L)" "section_ok (bss_start L) (bss_end L)"
    "section_ok (kdat_start L) (kdat_end L)" "section_ok (kbss_start L) (kbss_end L)"
    and dj: "?D \<inter> ?K = {}" "?D \<inter> ?Y = {}" "?D \<inter> ?Z = {}" "?K \<inter> ?Y = {}" "?K \<inter> ?Z = {}"
      "section_words (data_load L) ?nd \<inter> ?D = {}" "section_words (kdat_load L) ?nk \<inter> (?D \<union> ?K) = {}"
    using assms by (simp_all add: sections_ok_def Let_def)
  note low = section_words_low [OF ok(1)] section_words_low [OF ok(2)] section_words_low [OF ok(3)] section_words_low [OF ok(4)]
  obtain m1 where m1: "copy_words (data_load L) (data_start L) (data_end L) m = Some m1"
    "\<And>i. i < ?nd \<Longrightarrow> mem m1 (data_start L + 4 * of_nat i) = mem m (data_load L + 4 * of_nat i)"
    "\<And>x. x \<notin> ?D \<Longrightarrow> mem m1 x = mem m x" "objs m1 = objs m"
    using copy_words_ends [OF section_ok_size [OF ok(1)] dj(6)] by metis
  have lk: "section_words (kdat_load L) ?nk \<inter> ?K = {}" using dj(7) by blast
  obtain m2 where m2: "copy_words (kdat_load L) (kdat_start L) (kdat_end L) m1 = Some m2"
    "\<And>i. i < ?nk \<Longrightarrow> mem m2 (kdat_start L + 4 * of_nat i) = mem m1 (kdat_load L + 4 * of_nat i)"
    "\<And>x. x \<notin> ?K \<Longrightarrow> mem m2 x = mem m1 x" "objs m2 = objs m1"
    using copy_words_ends [OF section_ok_size [OF ok(3)] lk] by metis
  have hi: "unat (kbss_end L) < 2 ^ 31" "unat (bss_end L) < 2 ^ 31" using ok by (simp_all add: section_ok_def)
  obtain m3 where m3: "zero_words (kbss_start L) (kbss_end L) m2 = Some m3"
    "\<And>x. mem m3 x = (if x \<in> ?Y then 0 else mem m2 x)" "objs m3 = objs m2"
    using zero_words_ends [OF section_ok_size [OF ok(4)] hi(1)] by metis
  obtain m4 where m4: "zero_words (bss_start L) (bss_end L) m3 = Some m4"
    "\<And>x. mem m4 x = (if x \<in> ?Z then 0 else mem m3 x)" "objs m4 = objs m3"
    using zero_words_ends [OF section_ok_size [OF ok(2)] hi(2)] by metis
  have keep: "mem m4 x = mem m2 x" if "x \<notin> ?Y" "x \<notin> ?Z" for x using that by (simp add: m3(2) m4(2))
  have "mem m4 (data_start L + 4 * of_nat i) = mem m (data_load L + 4 * of_nat i)" if "i < ?nd" for i
  proof -
    have "data_start L + 4 * of_nat i \<notin> ?K \<union> ?Y \<union> ?Z" using section_words_at [OF that, of "data_start L"] dj(1-3) by blast
    then show ?thesis by (simp add: keep m2(3) m1(2) [OF that])
  qed
  moreover have "mem m4 (kdat_start L + 4 * of_nat i) = mem m (kdat_load L + 4 * of_nat i)" if "i < ?nk" for i
  proof -
    have "kdat_start L + 4 * of_nat i \<notin> ?Y \<union> ?Z" using section_words_at [OF that, of "kdat_start L"] dj(4,5) by blast
    moreover have "kdat_load L + 4 * of_nat i \<notin> ?D" using section_words_at [OF that, of "kdat_load L"] dj(7) by blast
    ultimately show ?thesis by (simp add: keep m2(2) [OF that] m1(3))
  qed
  moreover have "mem m4 (bss_start L + 4 * of_nat i) = 0" if "i < ?nb" for i
    using section_words_at [OF that, of "bss_start L"] by (simp add: m4(2))
  moreover have "mem m4 (kbss_start L + 4 * of_nat i) = 0" if "i < ?ny" for i
    using section_words_at [OF that, of "kbss_start L"] by (simp add: m4(2) m3(2))
  moreover have "mem m4 x = mem m x" if "2 ^ 31 \<le> unat x" for x
  proof -
    have "x \<notin> ?D" "x \<notin> ?Z" "x \<notin> ?K" "x \<notin> ?Y" using low [of x] that by auto
    then show ?thesis by (simp add: keep m2(3) m1(3))
  qed
  ultimately have "memory_ready L m m4" unfolding memory_ready_def by blast
  moreover have "boot_memory L m = Some m4" by (simp add: boot_memory_def m1(1) m2(1) m3(1) m4(1))
  ultimately show thesis using m1(4) m2(4) m3(3) m4(3) by (intro that [of m4]) simp_all
qed

end
