(* ===== verification/SvrUmpu.thy ===== *)
theory SvrUmpu
  imports Boot Demo
begin

text \<open>
  The services of \<^verbatim>\<open>src/service/svr_umpu.c\<close> for the user's MPU regions, and what they and
  \<open>arch_mpu_init\<close> leave in the regions of the memory protection unit.
\<close>

section \<open>svr\_umpu.c\<close>

definition umpu_setup :: "u32 \<Rightarrow> u32 \<Rightarrow> u32 \<Rightarrow> kstate \<Rightarrow> kstate" where
  "umpu_setup region rbar rasr = on_mcu (
     hwreg_store MPUCTRL (MPU_PRIVDEFENA OR MPU_ENABLE) \<circ>
     hwreg_store MPURNR 0 \<circ>
     mpu_region region rbar rasr \<circ>
     hwreg_store MPUCTRL 0)"

definition svc_service_umpu_disable :: svc_service where
  "svc_service_umpu_disable A svc_num arguments s =
     (let region = arguments 0 in
      if HWREG MPUTYPE (mcu s) = 0 then Some (ERROR_MPU_UNSUPPORTED, svc_num, arguments, s)
      else if region < 2 \<or> 5 < region then Some (ERROR_INVALID_MPU_REGION, svc_num, arguments, s)
      else Some (ERROR_NONE, svc_num, arguments, umpu_setup region 0 0 s))"

definition svc_service_umpu_enable :: svc_service where
  "svc_service_umpu_enable A svc_num arguments s =
     (let region = arguments 0;
          address = arguments 1;
          attributes = arguments 2 in
      if HWREG MPUTYPE (mcu s) = 0 then Some (ERROR_MPU_UNSUPPORTED, svc_num, arguments, s)
      else if region < 2 \<or> 5 < region then Some (ERROR_INVALID_MPU_REGION, svc_num, arguments, s)
      else if address AND 0x0000001F \<noteq> 0 then Some (ERROR_INVALID_MPU_ADDRESS, svc_num, arguments, s)
      else Some (ERROR_NONE, svc_num, arguments, umpu_setup region address (attributes OR MPU_REGION_ENABLE) s))"

section \<open>The regions behind the registers\<close>

text \<open>
  The three registers are a window onto the table of regions, as the architecture manual
  of ARMv7-M describes it: \<open>MPURNR\<close> selects the region that \<open>MPURBAR\<close> and \<open>MPURASR\<close>
  access, unless bit 4 of the value stored to \<open>MPURBAR\<close> is set, whose low four bits
  select the region then. \<open>mpu_after\<close> is the table after a history of stores.
\<close>

record mpu_regs =
  rnr :: u32
  rbar :: "u32 \<Rightarrow> u32"
  rasr :: "u32 \<Rightarrow> u32"

definition mpu_store :: "io \<Rightarrow> mpu_regs \<Rightarrow> mpu_regs" where
  "mpu_store e d = (case e of
     RegWrite a v \<Rightarrow>
       (if a = MPURNR then d\<lparr>rnr := v\<rparr>
        else if a = MPURBAR then
          (if bit v 4 then d\<lparr>rnr := v AND 0xF, rbar := (rbar d)(v AND 0xF := v)\<rparr>
           else d\<lparr>rbar := (rbar d)(rnr d := v)\<rparr>)
        else if a = MPURASR then d\<lparr>rasr := (rasr d)(rnr d := v)\<rparr>
        else d)
   | _ \<Rightarrow> d)"

definition mpu_after :: "mpu_regs \<Rightarrow> mcu \<Rightarrow> mpu_regs" where
  "mpu_after d m = foldr mpu_store (iolog m) d"

lemma mpu_after_store [simp]:
  "mpu_after d (hwreg_store a v m) = mpu_store (RegWrite a v) (mpu_after d m)"
  by (simp add: mpu_after_def hwreg_store_def)

lemma mpu_region_after:
  assumes "bit b 4 \<longrightarrow> b AND 0xF = r"
  shows "mpu_after d (mpu_region r b a m) =
    (mpu_after d m)\<lparr>rnr := r, rbar := (rbar (mpu_after d m))(r := b), rasr := (rasr (mpu_after d m))(r := a)\<rparr>"
  using assms by (simp add: mpu_region_def mpu_store_def)

lemma umpu_setup_after:
  assumes "\<not> bit b 4"
  shows "mpu_after d (mcu (umpu_setup r b a s)) = (mpu_after d (mcu s))\<lparr>rnr := 0,
    rbar := (rbar (mpu_after d (mcu s)))(r := b), rasr := (rasr (mpu_after d (mcu s)))(r := a)\<rparr>"
  using assms by (simp add: mpu_region_after umpu_setup_def on_mcu_def mpu_store_def)

lemma aligned_bit4:
  assumes "v AND 0x1F = 0"
  shows "\<not> bit (v :: u32) 4"
proof -
  have "bit (v AND 0x1F) 4 = bit v 4" by (simp add: bit_simps)
  then show ?thesis by (simp add: assms)
qed

section \<open>Properties\<close>

text \<open>
  C21. Whatever region, address and attributes a task asks for, the services for the
  user's MPU regions leave the regions of the flash, the RAM, the kernel and the running
  task's stack (0, 1, 6 and 7) as they are, and a request they refuse changes nothing.
\<close>

theorem umpu_keeps_kernel_regions:
  assumes "svc_service_umpu_enable A svc_num arguments s = Some (r, svc_num', arguments', s') \<or>
      svc_service_umpu_disable A svc_num arguments s = Some (r, svc_num', arguments', s')"
    and "q < 2 \<or> 5 < q"
  shows "rbar (mpu_after d (mcu s')) q = rbar (mpu_after d (mcu s)) q \<and>
    rasr (mpu_after d (mcu s')) q = rasr (mpu_after d (mcu s)) q \<and> (r \<noteq> ERROR_NONE \<longrightarrow> s' = s)"
  using assms
  by (auto simp: svc_service_umpu_enable_def svc_service_umpu_disable_def Let_def umpu_setup_after aligned_bit4
      split: if_splits)

definition mpu_reset :: mpu_regs where
  "mpu_reset = \<lparr>rnr = 0, rbar = (\<lambda>_. 0), rasr = (\<lambda>_. 0)\<rparr>"

definition umpu_demo :: kstate where
  "umpu_demo = on_mcu (mem_store MPUTYPE 0x800) demo_state"

definition umpu_args :: svc_args where
  "umpu_args = (\<lambda>_. 0)(0 := 3, 1 := 0x20002000, 2 := 0x1300001B)"

definition demo_env :: arm_env where
  "demo_env = \<lparr>vector_ram = 0x20000000, svc_handler_addr = 0x5001, pendsv_handler_addr = 0x5101,
     scheduler_addr = 0x5201, mem_fault_addr = 0x5301, bus_fault_addr = 0x5401, DISABLE_BUFFER = 1,
     KERNEL_REGION_SIZE = 11, KERNEL_REGION_SRD = 0, MPU_PSTACK_SIZE = 8, mpu_table = (\<lambda>_. 0x20001000)\<rparr>"

lemma umpu_demo_type: "HWREG MPUTYPE (mcu umpu_demo) = 0x800"
  by (simp add: umpu_demo_def HWREG_def mem_store_def)

lemma umpu_demo_call: "svc_service_umpu_enable demo_arm ENABLE_UMPU umpu_args umpu_demo =
    Some (ERROR_NONE, ENABLE_UMPU, umpu_args, umpu_setup 3 0x20002000 (0x1300001B OR 1) umpu_demo)"
  by (simp add: svc_service_umpu_enable_def umpu_args_def umpu_demo_type)

theorem umpu_keeps_kernel_regions_witness:
  "\<exists>s'. svc_service_umpu_enable demo_arm ENABLE_UMPU umpu_args umpu_demo = Some (ERROR_NONE, ENABLE_UMPU, umpu_args, s') \<and>
    rbar (mpu_after mpu_reset (mcu s')) 6 = rbar (mpu_after mpu_reset (mcu umpu_demo)) 6"
  using umpu_keeps_kernel_regions [OF disjI1 [OF umpu_demo_call], of 6 mpu_reset] umpu_demo_call by simp

text \<open>
  A region the user has enabled holds the requested address and attributes with the enable
  bit, and disabling it clears both; the other regions do not change.
\<close>

theorem umpu_enable_disable:
  assumes "svc_service_umpu_enable A svc_num arguments s = Some (ERROR_NONE, svc_num', arguments', s')"
    and "svc_service_umpu_disable A svc_num2 arguments s' = Some (r2, svc_num2', arguments2', s'')"
  shows "mpu_after d (mcu s') = (mpu_after d (mcu s))\<lparr>rnr := 0,
      rbar := (rbar (mpu_after d (mcu s)))(arguments 0 := arguments 1),
      rasr := (rasr (mpu_after d (mcu s)))(arguments 0 := arguments 2 OR 1)\<rparr> \<and> r2 = ERROR_NONE \<and>
    mpu_after d (mcu s'') = (mpu_after d (mcu s))\<lparr>rnr := 0,
      rbar := (rbar (mpu_after d (mcu s)))(arguments 0 := 0), rasr := (rasr (mpu_after d (mcu s)))(arguments 0 := 0)\<rparr>"
proof -
  have s': "s' = umpu_setup (arguments 0) (arguments 1) (arguments 2 OR 1) s"
    and ok: "HWREG MPUTYPE (mcu s) \<noteq> 0" "\<not> (arguments 0 < 2 \<or> 5 < arguments 0)" "arguments 1 AND 0x1F = 0"
    using assms(1) by (auto simp: svc_service_umpu_enable_def Let_def split: if_splits)
  have "HWREG MPUTYPE (mcu s') = HWREG MPUTYPE (mcu s)"
    by (simp add: s' umpu_setup_def on_mcu_def mpu_region_def hwreg_store_def HWREG_def)
  then have "r2 = ERROR_NONE" "s'' = umpu_setup (arguments 0) 0 0 s'"
    using assms(2) ok by (auto simp: svc_service_umpu_disable_def Let_def)
  then show ?thesis using ok(3) by (simp add: s' umpu_setup_after aligned_bit4)
qed

theorem umpu_enable_disable_witness:
  "rasr (mpu_after mpu_reset (mcu (umpu_setup 3 0 0 (umpu_setup 3 0x20002000 (0x1300001B OR 1) umpu_demo)))) 3 = 0"
proof -
  have "svc_service_umpu_disable demo_arm DISABLE_UMPU umpu_args (umpu_setup 3 0x20002000 (0x1300001B OR 1) umpu_demo) =
      Some (ERROR_NONE, DISABLE_UMPU, umpu_args, umpu_setup 3 0 0 (umpu_setup 3 0x20002000 (0x1300001B OR 1) umpu_demo))"
    using umpu_demo_type
    by (simp add: svc_service_umpu_disable_def umpu_args_def umpu_setup_def on_mcu_def mpu_region_def hwreg_store_def HWREG_def)
  from umpu_enable_disable [OF umpu_demo_call this, of mpu_reset] show ?thesis by (simp add: umpu_args_def)
qed

text \<open>
  \<open>arch_mpu_init\<close> on ARM, where the first entry of the table, when it selects a region, selects region 7: the flash is read-only, the RAM and the devices are open, the
  kernel's RAM is read-only for tasks, the first stack is in region 7, the user's
  regions 3 to 5 are disabled, and the unit is enabled with the background region.
\<close>

theorem mpu_init_regions:
  assumes "HWREG MPUTYPE (mcu s) \<noteq> 0" and "bit (mpu_table E 0) 4 \<longrightarrow> mpu_table E 0 AND 0xF = 7"
    and "KERNEL_START_ADDRESS P = 0x20000000"
  shows "\<exists>s'. arm_mpu_init P E s = (ERROR_NONE, s') \<and> HWREG MPUCTRL (mcu s') = 5 \<and>
    rasr (mpu_after d (mcu s')) = (rasr (mpu_after d (mcu s)))(0 := 0x06020039, 1 := 0x13060023, 2 := 0x03050039,
      6 := push_bit 1 (KERNEL_REGION_SIZE E) OR MPU_KERNEL_DEFAULT OR push_bit 24 2 OR
        push_bit 8 (KERNEL_REGION_SRD E) OR 1,
      7 := push_bit 1 (MPU_PSTACK_SIZE E) OR MPU_KERNEL_DEFAULT OR push_bit 24 3 OR 1, 3 := 0, 4 := 0, 5 := 0) \<and>
    rbar (mpu_after d (mcu s')) = (rbar (mpu_after d (mcu s)))(0 := 0, 1 := 0x20000000, 2 := 0x40000000,
      6 := 0x20000000, 7 := mpu_table E 0, 3 := 0, 4 := 0, 5 := 0)"
proof -
  let ?k = "push_bit 1 (KERNEL_REGION_SIZE E) OR MPU_KERNEL_DEFAULT OR push_bit 24 2 OR
      push_bit 8 (KERNEL_REGION_SRD E) OR 1"
  let ?p = "push_bit 1 (MPU_PSTACK_SIZE E) OR MPU_KERNEL_DEFAULT OR push_bit 24 3 OR 1"
  define m1 where "m1 = hwreg_store MPUCTRL 0 (mcu s)"
  define m2 where "m2 = mpu_region 2 0x40000000 0x03050039 (mpu_region 1 0x20000000 0x13060023 (mpu_region 0 0 0x06020039 m1))"
  define m3 where "m3 = mpu_region 7 (mpu_table E 0) ?p (mpu_region 6 0x20000000 ?k m2)"
  define m4 where "m4 = mpu_region 5 0 0 (mpu_region 4 0 0 (mpu_region 3 0 0 m3))"
  define m5 where "m5 = hwreg_or SYSHNDCTRL (0x00010000 OR 0x00020000)
      (hwreg_store (KERNEL_START_ADDRESS P + 5 * 4) (bus_fault_addr E)
      (hwreg_store (KERNEL_START_ADDRESS P + 4 * 4) (mem_fault_addr E) (hwreg_store MPURNR 0 m4)))"
  define m6 where "m6 = hwreg_store MPUCTRL (MPU_PRIVDEFENA OR MPU_ENABLE) m5"
  have "[3..<6] = [3, 4, 5 :: nat]" by (simp add: upt_rec)
  then have init: "arm_mpu_init P E s = (ERROR_NONE, s\<lparr>mcu := m6\<rparr>)"
    using assms(1) by (simp add: arm_mpu_init_def on_mcu_def m1_def m2_def m3_def m4_def m5_def m6_def)
  have a1: "mpu_after d m1 = mpu_after d (mcu s)" by (simp add: m1_def mpu_store_def)
  have a2: "rasr (mpu_after d m2) = (rasr (mpu_after d m1))(0 := 0x06020039, 1 := 0x13060023, 2 := 0x03050039)"
    "rbar (mpu_after d m2) = (rbar (mpu_after d m1))(0 := 0, 1 := 0x20000000, 2 := 0x40000000)"
    by (simp_all add: m2_def mpu_region_after)
  have a3: "rasr (mpu_after d m3) = (rasr (mpu_after d m2))(6 := ?k, 7 := ?p)"
    "rbar (mpu_after d m3) = (rbar (mpu_after d m2))(6 := 0x20000000, 7 := mpu_table E 0)"
    using assms(2) by (simp_all add: m3_def mpu_region_after)
  have a4: "rasr (mpu_after d m4) = (rasr (mpu_after d m3))(3 := 0, 4 := 0, 5 := 0)"
    "rbar (mpu_after d m4) = (rbar (mpu_after d m3))(3 := 0, 4 := 0, 5 := 0)"
    by (simp_all add: m4_def mpu_region_after)
  have a6: "rasr (mpu_after d m6) = rasr (mpu_after d m4)" "rbar (mpu_after d m6) = rbar (mpu_after d m4)"
    by (simp_all add: m6_def m5_def hwreg_or_def mpu_store_def assms(3))
  have "HWREG MPUCTRL m6 = 5" by (simp add: m6_def hwreg_store_def HWREG_def)
  then show ?thesis by (simp add: init a6 a4 a3 a2 a1)
qed

theorem mpu_init_regions_witness:
  "\<exists>s'. arm_mpu_init demo_params demo_env umpu_demo = (ERROR_NONE, s') \<and> rasr (mpu_after mpu_reset (mcu s')) 0 = 0x06020039 \<and>
    rasr (mpu_after mpu_reset (mcu s')) 4 = 0"
proof -
  have "KERNEL_START_ADDRESS demo_params = 0x20000000" by (simp add: demo_params_def)
  then show ?thesis
    using mpu_init_regions [of umpu_demo demo_env demo_params mpu_reset] by (auto simp: umpu_demo_type demo_env_def)
qed

end
