(* ===== verification/SystemProps.thy ===== *)
theory SystemProps
  imports CoreStart Startup SvrUmpu
begin

text \<open>
  The properties of the whole system on the ARM port, from reset on, and a concrete system
  on which they are instantiated.
\<close>

section \<open>A concrete system\<close>

definition demo_heap :: heap_env where
  "demo_heap = \<lparr>hstart_addr = 0x20000100, bstart_addr = 0x20000104, heap_remaining = 0x20000108,
     fsll_start = 0x2000010C, fsll_end = 0x20000110, blist_size = 0x20000114,
     heap_start_sym = 0x20002000, ghmb_addr_sym = 0x20003000\<rparr>"

definition demo_reset :: mcu where
  "demo_reset = demo_mcu\<lparr>mem := (\<lambda>_. 0)(MPUTYPE := 0x800)\<rparr>"

lemma demo_build: "arm_build demo_params demo_env demo_reset"
  by (simp add: arm_build_def wf_params_def arm_layout_def demo_params_def demo_env_def demo_reset_def HWREG_def)


section \<open>Properties\<close>

text \<open>
  C18. The start of the kernel on ARM: from the initial values of the kernel variables
  \<open>kernel_init\<close> returns, the kernel's invariant holds, the base task has slot 0 and the identifier
  1, every other slot is idle, and the base task has every permission.
\<close>

theorem kernel_init_boots:
  assumes "arm_build P E m"
  shows "\<exists>s'. kernel_init P (arm_boot P E H (arm_call P slot) regs) (arm_call P slot) regs (kvar_init m) =
      Some (ERROR_NONE, s') \<and> kernel_ok (MAX_TASK_COUNT P) s' \<and> count_ok (MAX_TASK_COUNT P) s' \<and>
    (\<forall>i < MAX_TASK_COUNT P. state s' i = (if i = 0 then TASK_STATE_SLEEP else TASK_STATE_IDLE)) \<and>
    task_obj s' 0 = base_task_addr P \<and> task_id s' 0 = 1 \<and> priority_cur s' 0 = 0 \<and>
    permissions s' 0 = 0xFFFF \<and> current_task s' = 0 \<and> task_count s' = 1"
proof (rule kernel_init_arm [of P E m H slot regs])
  fix s'
  assume k: "kernel_init P (arm_boot P E H (arm_call P slot) regs) (arm_call P slot) regs (kvar_init m) =
      Some (ERROR_NONE, s')"
    "kernel_ok (MAX_TASK_COUNT P) s'" "count_ok (MAX_TASK_COUNT P) s'"
    and lv: "\<And>i. i < MAX_TASK_COUNT P \<Longrightarrow> live s' i = (i = 0)"
    and f: "current_task s' = 0" "permissions s' 0 = 0xFFFF" "state s' 0 = TASK_STATE_SLEEP"
    "task_obj s' 0 = base_task_addr P" "task_id s' 0 = 1" "priority_cur s' 0 = 0" "task_count s' = 1"
  have "\<forall>i < MAX_TASK_COUNT P. state s' i = (if i = 0 then TASK_STATE_SLEEP else TASK_STATE_IDLE)"
    using lv f(3) by (auto simp: live_def)
  with k f show ?thesis by blast
qed (use assms in \<open>simp_all add: arm_build_def\<close>)

theorem kernel_init_boots_witness:
  "\<exists>s'. kernel_init demo_params (arm_boot demo_params demo_env demo_heap (arm_call demo_params 0) (\<lambda>_. 0))
      (arm_call demo_params 0) (\<lambda>_. 0) (kvar_init demo_reset) = Some (ERROR_NONE, s') \<and> kernel_ok 4 s'"
  using kernel_init_boots [OF demo_build, of demo_heap 0 "\<lambda>_. 0"] by (auto simp: demo_params_def)






text \<open>
  C36. From reset to \<open>main\<close> on ARM: the loops of \<open>skibios_boot\<close> end with the data sections copied and
  cleared, \<open>kernel_init\<close> returns, and the application is entered in a state in which the
  kernel's invariant holds, the base task is current and the scheduler has not been started.
\<close>

theorem reset_reaches_main:
  assumes "arm_build P E m" and "sections_ok L"
  shows "\<exists>m' s. boot_memory L m = Some m' \<and> memory_ready L m m' \<and>
    skibios_boot P (arm_boot P E H (arm_call P slot) regs) L (arm_call P slot) regs main_fn m = main_fn s \<and>
    kernel_ok (MAX_TASK_COUNT P) s \<and> current_task s = 0 \<and> \<not> first_start s \<and>
    (\<forall>i < MAX_TASK_COUNT P. live s i \<longleftrightarrow> i = 0)"
proof (rule boot_memory_ready [OF assms(2), of m])
  fix m1
  assume b: "boot_memory L m = Some m1" "memory_ready L m m1"
  let ?m2 = "hwreg_store 0xE000ED88 (HWREG 0xE000ED88 m1 AND NOT 0x00F00000 OR 0x00F00000) m1"
  have "HWREG MPUTYPE ?m2 = HWREG MPUTYPE m" using b(2) by (simp add: memory_ready_def HWREG_def hwreg_store_def)
  then have a: "arm_build P E ?m2" using assms(1) by (simp add: arm_build_def)
  show ?thesis
  proof (rule kernel_init_arm [of P E ?m2 H slot regs])
    fix s
    assume k: "kernel_init P (arm_boot P E H (arm_call P slot) regs) (arm_call P slot) regs (kvar_init ?m2) =
        Some (ERROR_NONE, s)" "kernel_ok (MAX_TASK_COUNT P) s"
      and lv: "\<And>i. i < MAX_TASK_COUNT P \<Longrightarrow> live s i = (i = 0)" and f: "current_task s = 0" "\<not> first_start s"
    have "skibios_boot P (arm_boot P E H (arm_call P slot) regs) L (arm_call P slot) regs main_fn m = main_fn s"
      using k(1) b(1) by (simp add: skibios_boot_def)
    with b k(2) lv f show ?thesis by blast
  qed (use a in \<open>simp_all add: arm_build_def\<close>)
qed

definition demo_sections :: sections where
  "demo_sections = \<lparr>data_load = 0x1000, data_start = 0x20004000, data_end = 0x20004008, bss_start = 0x20005000,
     bss_end = 0x20005004, kdat_load = 0x2000, kdat_start = 0x20000200, kdat_end = 0x20000204,
     kbss_start = 0x20000300, kbss_end = 0x20000304\<rparr>"

theorem reset_reaches_main_witness:
  "\<exists>m' s. boot_memory demo_sections demo_reset = Some m' \<and> mem m' 0x20004004 = mem demo_reset 0x1004 \<and>
    skibios_boot demo_params (arm_boot demo_params demo_env demo_heap (arm_call demo_params 0) (\<lambda>_. 0)) demo_sections
      (arm_call demo_params 0) (\<lambda>_. 0) Some demo_reset = Some s \<and> kernel_ok 4 s"
proof -
  have "sections_ok demo_sections"
    by (auto simp: sections_ok_def section_ok_def section_size_def section_words_def demo_sections_def lessThan_nat_numeral Let_def)
  from reset_reaches_main [OF demo_build this, of demo_heap 0 "\<lambda>_. 0" Some] obtain m' s where
    r: "boot_memory demo_sections demo_reset = Some m'" "memory_ready demo_sections demo_reset m'"
    "skibios_boot demo_params (arm_boot demo_params demo_env demo_heap (arm_call demo_params 0) (\<lambda>_. 0)) demo_sections
      (arm_call demo_params 0) (\<lambda>_. 0) Some demo_reset = Some s" "kernel_ok 4 s"
    by (auto simp: demo_params_def)
  have "section_size (data_start demo_sections) (data_end demo_sections) = 2"
    by (simp add: section_size_def demo_sections_def)
  then have "\<forall>i < 2. mem m' (data_start demo_sections + 4 * of_nat i) = mem demo_reset (data_load demo_sections + 4 * of_nat i)"
    using r(2) by (simp add: memory_ready_def)
  from this [rule_format, of 1] have "mem m' 0x20004004 = mem demo_reset 0x1004" by (simp add: demo_sections_def)
  with r show ?thesis by blast
qed

end
