(* ===== verification/Share.thy ===== *)
theory Share
  imports TaskApi
begin

text \<open>
  Shared resources: the mutex and semaphore routines of the ARM port
  (\<^verbatim>\<open>mutex.S\<close>, \<^verbatim>\<open>semaphore.S\<close>) and the retry loops of \<^verbatim>\<open>src/share.c\<close>.

  \<open>excl\<close> says whether a store-exclusive instruction finds its reservation intact; it fails when
  another access came between the load and the store. \<^verbatim>\<open>mutex.S\<close> loads the byte of the mutex with a
  load-exclusive and stores a word with the store-exclusive; this is modelled as an ordinary exclusive pair, although the
  architecture leaves the result of a pair of different sizes open.
\<close>

section \<open>Memory bytes\<close>

definition ldrb :: "u32 \<Rightarrow> mcu \<Rightarrow> u32" where
  "ldrb a m = mem m a AND 0xFF"

definition strb :: "u32 \<Rightarrow> u32 \<Rightarrow> mcu \<Rightarrow> mcu" where
  "strb a v m = mem_store a (mem m a AND NOT 0xFF OR v AND 0xFF) m"

section \<open>mutex.S and semaphore.S\<close>

definition mutex_lock :: "nat \<Rightarrow> bool \<Rightarrow> u32 \<Rightarrow> kstate \<Rightarrow> (u32 \<times> kstate) option" where
  "mutex_lock n excl mutex s =
     (if ldrb mutex (mcu s) \<noteq> 0 then Some (1, s)
      else do {
        chk (unat (current_task s) < n);
        (if excl then Some (0, on_mcu (mem_store mutex (task_id s (unat (current_task s)))) s)
         else Some (1, s))
      })"

definition mutex_unlock :: "nat \<Rightarrow> supervisor \<Rightarrow> svc_args \<Rightarrow> u32 \<Rightarrow> kstate \<Rightarrow> kstate option" where
  "mutex_unlock n call regs mutex s =
     (let s1 = on_mcu (strb mutex 0) s in
      do {
        chk (unat (current_task s1) < n);
        (if mutex_stash s1 (unat (current_task s1)) = mutex
         then svc_instr PRIORITY_DEMOTE call (regs(0 := mutex, 1 := mutex, 2 := current_task s1)) s1
         else Some s1)
      })"

definition arch_semaphore_inc :: "bool \<Rightarrow> u32 \<Rightarrow> kstate \<Rightarrow> u32 \<times> kstate" where
  "arch_semaphore_inc excl semaphore s =
     (let r1 = ldrb semaphore (mcu s) + 1 in
      if excl then (0, on_mcu (strb semaphore r1) s) else (1, s))"

definition arch_semaphore_dec :: "bool \<Rightarrow> u32 \<Rightarrow> kstate \<Rightarrow> u32 \<times> kstate" where
  "arch_semaphore_dec excl semaphore s =
     (let r1 = ldrb semaphore (mcu s) in
      if r1 = 0 then (0, s)
      else if excl then (0, on_mcu (strb semaphore (r1 - 1)) s) else (1, s))"

section \<open>share.c\<close>

text \<open>
  The loop of \<open>spin_lock\<close>; the result is the value of \<open>loop\<close> at its end. A lock held by a
  task whose priority has been promoted already is tried again without counting.
\<close>

partial_function (option) spin_lock_loop ::
  "nat \<Rightarrow> (kstate \<Rightarrow> bool) \<Rightarrow> supervisor \<Rightarrow> svc_args \<Rightarrow> u32 \<Rightarrow> u16 \<Rightarrow> u16 \<Rightarrow> kstate \<Rightarrow> (u16 \<times> kstate) option" where
  "spin_lock_loop n excl call regs mutex retry lp s =
     (if lp < retry then do {
        (st, s1) \<leftarrow> mutex_lock n (excl s) mutex s;
        (if ucast st = (0 :: u8) then Some (lp, s1)
         else do {
           let index = unat (ucast (drop_bit 16 (mem (mcu s1) mutex)) :: u8);
           chk (index < n \<and> unat (current_task s1) < n);
           (if priority_cur s1 index < max_level s1 \<and>
               priority_cur s1 (unat (current_task s1)) = max_level s1
            then
              (if 127 < priority_cur s1 index
               then spin_lock_loop n excl call regs mutex retry lp s1
               else do {
                 s2 \<leftarrow> SVC_PRIORITY_PROMOTE call regs mutex s1;
                 s3 \<leftarrow> svc_instr HAND_OVER call regs s2;
                 spin_lock_loop n excl call regs mutex retry (lp + 1) s3
               })
            else do {
              s3 \<leftarrow> svc_instr HAND_OVER call regs s1;
              spin_lock_loop n excl call regs mutex retry (lp + 1) s3
            })
         })
      }
      else Some (lp, s))"

definition spin_lock ::
  "nat \<Rightarrow> (kstate \<Rightarrow> bool) \<Rightarrow> supervisor \<Rightarrow> svc_args \<Rightarrow> u32 \<Rightarrow> u16 \<Rightarrow> kstate \<Rightarrow> (u32 \<times> kstate) option" where
  "spin_lock n excl call regs mutex retry s = do {
     (lp, s') \<leftarrow> spin_lock_loop n excl call regs mutex retry 0 s;
     Some (if lp = retry then ERROR_RESOURCE_LOCKED_INDEFINETLY else ERROR_NONE, s')
   }"

text \<open>The two semaphore loops have the same shape; \<open>op\<close> is the routine of the port.\<close>

fun retry_loop ::
  "(kstate \<Rightarrow> u32 \<times> kstate) \<Rightarrow> (u32 \<Rightarrow> bool) \<Rightarrow> supervisor \<Rightarrow> svc_args \<Rightarrow> nat \<Rightarrow> kstate \<Rightarrow>
     (bool \<times> kstate) option" where
  "retry_loop op won call regs 0 s = Some (False, s)"
| "retry_loop op won call regs (Suc k) s =
     (let (st, s1) = op s in
      if won st then Some (True, s1)
      else do { s2 \<leftarrow> svc_instr HAND_OVER call regs s1; retry_loop op won call regs k s2 })"

definition semaphore_increment ::
  "(kstate \<Rightarrow> bool) \<Rightarrow> supervisor \<Rightarrow> svc_args \<Rightarrow> u32 \<Rightarrow> u16 \<Rightarrow> kstate \<Rightarrow> (u32 \<times> kstate) option" where
  "semaphore_increment excl call regs semaphore retry s = do {
     (ok, s') \<leftarrow> retry_loop (\<lambda>s. arch_semaphore_inc (excl s) semaphore s) (\<lambda>st. st = 0) call regs (unat retry) s;
     Some (if ok then ERROR_NONE else ERROR_RESOURCE_LOCKED_INDEFINETLY, s')
   }"

definition semaphore_decrement ::
  "(kstate \<Rightarrow> bool) \<Rightarrow> supervisor \<Rightarrow> svc_args \<Rightarrow> u32 \<Rightarrow> u16 \<Rightarrow> kstate \<Rightarrow> (u32 \<times> kstate) option" where
  "semaphore_decrement excl call regs semaphore retry s = do {
     (ok, s') \<leftarrow> retry_loop (\<lambda>s. arch_semaphore_dec (excl s) semaphore s)
        (\<lambda>st. ucast st = (0 :: u8)) call regs (unat retry) s;
     Some (if ok then ERROR_NONE else ERROR_RESOURCE_LOCKED_INDEFINETLY, s')
   }"

end
