(* ===== verification/ShareProps.thy ===== *)
theory ShareProps
  imports Share SvcInv Demo
begin

text \<open>
  Properties of the mutex and semaphore functions: who owns a mutex after \<open>spin_lock\<close>, mutual
  exclusion, and the count of a semaphore.
\<close>

section \<open>Mutexes\<close>

text \<open>A mutex is free when the byte that \<open>mutex_lock\<close> tests is zero.\<close>

definition mutex_free :: "u32 \<Rightarrow> kstate \<Rightarrow> bool" where
  "mutex_free mutex s \<longleftrightarrow> mem (mcu s) mutex AND 0xFF = 0"

lemma mutex_lock_cases:
  assumes "mutex_lock n excl mutex s = Some (r, s')"
  obtains "r = 1" "s' = s"
  | "r = 0" "mutex_free mutex s" "excl" "unat (current_task s) < n"
    "s' = on_mcu (mem_store mutex (task_id s (unat (current_task s)))) s"
  using assms by (auto simp: mutex_lock_def ldrb_def mutex_free_def bind_eq_Some_conv chk_def split: if_splits)

text \<open>The state after a store of the identifier of the current task into the mutex.\<close>

definition taken :: "u32 \<Rightarrow> kstate \<Rightarrow> kstate" where
  "taken mutex u = on_mcu (mem_store mutex (task_id u (unat (current_task u)))) u"

lemma taken_owner: "mem (mcu (taken mutex u)) mutex = task_id (taken mutex u) (unat (current_task (taken mutex u)))"
  by (simp add: taken_def mem_store_def)

text \<open>
  A lock that ends below the limit ends with a round in which the mutex was free and the store
  went through; a lock that ends at the limit had no such round.
\<close>

definition lock_won :: "nat \<Rightarrow> (kstate \<Rightarrow> bool) \<Rightarrow> u32 \<Rightarrow> kstate \<Rightarrow> bool" where
  "lock_won n excl mutex s' \<longleftrightarrow>
     (\<exists>u. mutex_free mutex u \<and> excl u \<and> unat (current_task u) < n \<and> s' = taken mutex u)"

lemma spin_lock_loop_owner:
  assumes "spin_lock_loop n excl call regs mutex retry lp s = Some y" and "lp \<le> retry"
  shows "fst y \<le> retry \<and> (fst y < retry \<longrightarrow> lock_won n excl mutex (snd y))"
proof (rule spin_lock_loop.raw_induct [where P = "\<lambda>n excl call regs mutex retry lp s y. lp \<le> retry \<longrightarrow>
      fst y \<le> retry \<and> (fst y < retry \<longrightarrow> lock_won n excl mutex (snd y))",
      OF _ assms(1), THEN mp, OF _ assms(2)])
  fix f n excl call regs mutex retry lp s y
  assume IH: "\<And>n excl call regs mutex retry lp s (y :: u16 \<times> kstate). f n excl call regs mutex retry lp s = Some y \<Longrightarrow>
      lp \<le> retry \<longrightarrow> fst y \<le> retry \<and> (fst y < retry \<longrightarrow> lock_won n excl mutex (snd y))"
    and body: "(if lp < retry then do {
        (st, s1) \<leftarrow> mutex_lock n (excl s) mutex s;
        (if ucast st = (0 :: u8) then Some (lp, s1)
         else do {
           let index = unat (ucast (drop_bit 16 (mem (mcu s1) mutex)) :: u8);
           chk (index < n \<and> unat (current_task s1) < n);
           (if priority_cur s1 index < max_level s1 \<and> priority_cur s1 (unat (current_task s1)) = max_level s1
            then (if 127 < priority_cur s1 index then f n excl call regs mutex retry lp s1
               else do {
                 s2 \<leftarrow> SVC_PRIORITY_PROMOTE call regs mutex s1;
                 s3 \<leftarrow> svc_instr HAND_OVER call regs s2;
                 f n excl call regs mutex retry (lp + 1) s3
               })
            else do {
              s3 \<leftarrow> svc_instr HAND_OVER call regs s1;
              f n excl call regs mutex retry (lp + 1) s3
            })
         })
      }
      else Some (lp, s)) = Some y"
  show "lp \<le> retry \<longrightarrow> fst y \<le> retry \<and> (fst y < retry \<longrightarrow> lock_won n excl mutex (snd y))"
  proof (cases "lp < retry")
    case True
    then have inc: "lp + 1 \<le> retry" by (rule inc_le)
    obtain st s1 where l: "mutex_lock n (excl s) mutex s = Some (st, s1)"
      using body True by (auto simp: bind_eq_Some_conv)
    show ?thesis
    proof (rule mutex_lock_cases [OF l])
      assume "st = 1" "s1 = s"
      then have "(\<exists>u. f n excl call regs mutex retry lp u = Some y) \<or> (\<exists>u. f n excl call regs mutex retry (lp + 1) u = Some y)"
        using body True l by (auto simp: Let_def bind_eq_Some_conv split: if_splits)
      then show ?thesis using IH inc by blast
    next
      assume "st = 0" "mutex_free mutex s" "excl s" "unat (current_task s) < n"
        "s1 = on_mcu (mem_store mutex (task_id s (unat (current_task s)))) s"
      then show ?thesis using body True l by (auto simp: lock_won_def taken_def)
    qed
  qed (use body in auto)
qed

lemma spin_lock_loop_free:
  assumes "mutex_free mutex s" "excl s" "unat (current_task s) < n" "lp < retry"
  shows "spin_lock_loop n excl call regs mutex retry lp s = Some (lp, taken mutex s)"
  using assms by (subst spin_lock_loop.simps) (simp add: mutex_lock_def ldrb_def mutex_free_def taken_def)

text \<open>
  C25. A task that finds the mutex free, and whose exclusive store goes through, has it in the first
  round: \<open>spin_lock\<close> returns \<open>ERROR_NONE\<close>, and only the word of the mutex has changed, which is now the
  identifier of the caller. Whenever \<open>spin_lock\<close> returns, whatever the hand-overs and promotions in
  between did to the state, the code is one of two, and \<open>ERROR_NONE\<close> means that the last round
  found the mutex free and that the word holds the identifier of the task that is current. It need
  not return: \<open>spin_lock_spins\<close> in \<open>Deviations\<close> gives a state in which it tries for ever.
\<close>

theorem spin_lock_owner:
  assumes "0 < retry"
  shows "(mutex_free mutex s \<and> excl s \<and> unat (current_task s) < n \<longrightarrow>
      spin_lock n excl call regs mutex retry s =
        Some (ERROR_NONE, on_mcu (mem_store mutex (task_id s (unat (current_task s)))) s)) \<and>
    (\<forall>e s'. spin_lock n excl call regs mutex retry s = Some (e, s') \<longrightarrow>
      e = ERROR_RESOURCE_LOCKED_INDEFINETLY \<or>
      e = ERROR_NONE \<and> mem (mcu s') mutex = task_id s' (unat (current_task s')) \<and>
        (\<exists>u. mutex_free mutex u \<and> excl u \<and> s' = on_mcu (mem_store mutex (task_id u (unat (current_task u)))) u))"
proof (intro conjI impI allI)
  assume "mutex_free mutex s \<and> excl s \<and> unat (current_task s) < n"
  then show "spin_lock n excl call regs mutex retry s =
      Some (ERROR_NONE, on_mcu (mem_store mutex (task_id s (unat (current_task s)))) s)"
    using assms spin_lock_loop_free [of mutex s excl n 0 retry] by (simp add: spin_lock_def taken_def)
next
  fix e s' assume "spin_lock n excl call regs mutex retry s = Some (e, s')"
  then obtain lp where l: "spin_lock_loop n excl call regs mutex retry 0 s = Some (lp, s')"
    and e: "e = (if lp = retry then ERROR_RESOURCE_LOCKED_INDEFINETLY else ERROR_NONE)"
    by (auto simp: spin_lock_def bind_eq_Some_conv)
  from spin_lock_loop_owner [OF l] have "lp \<le> retry" "lp < retry \<longrightarrow> lock_won n excl mutex s'" by simp_all
  with e show "e = ERROR_RESOURCE_LOCKED_INDEFINETLY \<or>
      e = ERROR_NONE \<and> mem (mcu s') mutex = task_id s' (unat (current_task s')) \<and>
        (\<exists>u. mutex_free mutex u \<and> excl u \<and> s' = on_mcu (mem_store mutex (task_id u (unat (current_task u)))) u)"
    unfolding lock_won_def taken_def [symmetric] using taken_owner by (cases "lp = retry") auto
qed

theorem spin_lock_owner_witness:
  "spin_lock 4 (\<lambda>_. True) (svc_handler demo_arm 0) (\<lambda>_. 0) 0x20004000 3 demo_next =
     Some (ERROR_NONE, on_mcu (mem_store 0x20004000 0x10002) demo_next)"
proof -
  have "mutex_free 0x20004000 demo_next" by (simp add: mutex_free_def demo_next_fields demo_mcu_def)
  then show ?thesis
    using spin_lock_owner [of 3 "0x20004000" demo_next "\<lambda>_. True" 4 "svc_handler demo_arm 0" "\<lambda>_. 0"]
    by (simp add: demo_next_fields demo_fields)
qed

section \<open>Mutual exclusion\<close>

text \<open>
  Tasks that share a mutex: \<open>H\<close> is the set of the slots whose task has locked it and not
  unlocked it yet. The last step is everything else: other tasks, ticks, creations and
  kills that do not touch the mutex and keep the identifiers of its holders.
\<close>

definition ids_ok :: "nat \<Rightarrow> kstate \<Rightarrow> bool" where
  "ids_ok n s \<longleftrightarrow> (\<forall>t < n. live s t \<longrightarrow> task_id s t AND 0xFF \<noteq> 0)"

inductive lock_step :: "params \<Rightarrow> u32 \<Rightarrow> kstate \<times> nat set \<Rightarrow> kstate \<times> nat set \<Rightarrow> bool" for P mutex where
  acquire: "mutex_lock (MAX_TASK_COUNT P) excl mutex s = Some (0, s') \<Longrightarrow>
    live s (unat (current_task s)) \<Longrightarrow> lock_step P mutex (s, H) (s', insert (unat (current_task s)) H)"
| busy: "mutex_lock (MAX_TASK_COUNT P) excl mutex s = Some (1, s') \<Longrightarrow> lock_step P mutex (s, H) (s', H)"
| release: "unat (current_task s) \<in> H \<Longrightarrow>
    mutex_unlock (MAX_TASK_COUNT P) (svc_handler (arm_port P) slot) regs mutex s = Some s' \<Longrightarrow>
    lock_step P mutex (s, H) (s', H - {unat (current_task s)})"
| other: "mem (mcu s') mutex = mem (mcu s) mutex \<Longrightarrow> ids_ok (MAX_TASK_COUNT P) s' \<Longrightarrow>
    \<forall>t \<in> H. task_id s' t = task_id s t \<Longrightarrow> lock_step P mutex (s, H) (s', H)"

inductive_cases lock_stepE: "lock_step P mutex (s, H) (s', H')"

definition lock_inv :: "params \<Rightarrow> u32 \<Rightarrow> kstate \<times> nat set \<Rightarrow> bool" where
  "lock_inv P mutex x = (case x of (s, H) \<Rightarrow> ids_ok (MAX_TASK_COUNT P) s \<and>
     (H = {} \<and> mutex_free mutex s \<or>
      (\<exists>t. H = {t} \<and> mem (mcu s) mutex = task_id s t \<and> \<not> mutex_free mutex s)))"

text \<open>The demotion that \<open>mutex_unlock\<close> may request keeps the mutex and the identifiers.\<close>

lemma demote_keeps_mutex:
  assumes "svc_handler (arm_port P) slot PRIORITY_DEMOTE regs s = Some (r, s')" and "mutex \<noteq> INTCTRL"
  shows "mem (mcu s') mutex = mem (mcu s) mutex \<and> task_id s' = task_id s \<and>
    (\<forall>t. live s' t \<longrightarrow> live s t \<or> t = unat (current_task s))"
proof -
  have lvl: "mcu (demote_level u) = mcu u" "task_id (demote_level u) = task_id u" "state (demote_level u) = state u"
    "current_task (demote_level u) = current_task u" for u
    by (simp_all add: demote_level_def Let_def)
  have rel: "mcu (release_holder n m u) = mcu u" "task_id (release_holder n m u) = task_id u"
    "current_task (release_holder n m u) = current_task u" for u n m
    by (simp_all add: release_holder_def Let_def)
  have lv: "live (release_holder n m u) = live u" for u n m
    using first_idx_hit [of "\<lambda>i. state u i = TASK_STATE_HOLD \<and> op1 u i = m" n]
    by (auto simp: release_holder_def Let_def live_def fun_eq_iff)
  obtain u where u: "svc_service_priority_demote (arm_port P) PRIORITY_DEMOTE regs s = Some (ERROR_NONE, HAND_OVER, regs, u)"
    and h: "svc_service_hand_over (arm_port P) HAND_OVER regs u = Some (r, HAND_OVER, regs, s')"
    using assms(1)
    by (auto simp: svc_handler_run [of PRIORITY_DEMOTE 3] svc_rank_def numeral_3_eq_3 svc_dispatch_def
        svc_service_priority_demote_def svc_service_hand_over_def Let_def bind_eq_Some_conv split: if_splits)
  define d where "d = demote_level (s\<lparr>priority_cur := (priority_cur s)(unat (current_task s) := priority_stash s (unat (current_task s))),
      priority_stash := (priority_stash s)(unat (current_task s) := 0)\<rparr>)"
  have u': "u = (release_holder (MAX_TASK_COUNT P) (mutex_stash d (unat (current_task s))) d)
      \<lparr>mutex_stash := (mutex_stash (release_holder (MAX_TASK_COUNT P) (mutex_stash d (unat (current_task s))) d))
        (unat (current_task s) := 0)\<rparr>"
    using u by (simp add: svc_service_priority_demote_def Let_def bind_eq_Some_conv d_def)
  have "live (x\<lparr>mutex_stash := v\<rparr>) = live x" for x v by (simp add: live_def fun_eq_iff)
  then have fu: "mcu u = mcu s" "task_id u = task_id s" "live u = live s" "current_task u = current_task s"
    unfolding u' by (simp_all add: rel lv) (simp_all add: d_def lvl live_def fun_eq_iff)
  have "mem (mcu s') mutex = mem (mcu u) mutex \<and> task_id s' = task_id u \<and>
      (\<forall>t. live s' t \<longrightarrow> live u t \<or> t = unat (current_task u))"
    using h assms(2)
    by (auto simp: svc_service_hand_over_def Let_def bind_eq_Some_conv arm_TRIGGER_SCHEDULER_def hwreg_or_def
        hwreg_store_def live_def split: if_splits)
  then show ?thesis by (simp add: fu)
qed

lemma unlock_frees:
  assumes "mutex_unlock n (svc_handler (arm_port P) slot) regs mutex s = Some s'" and "mutex \<noteq> INTCTRL"
  shows "mutex_free mutex s' \<and> task_id s' = task_id s \<and> (\<forall>t. live s' t \<longrightarrow> live s t \<or> t = unat (current_task s))"
proof -
  define s1 where "s1 = on_mcu (strb mutex 0) s"
  have f: "mutex_free mutex s1" "task_id s1 = task_id s" "live s1 = live s" "current_task s1 = current_task s"
    by (simp_all add: s1_def mutex_free_def strb_def mem_store_def ac_simps live_def fun_eq_iff)
  have "s' = s1 \<or> (\<exists>r regs. svc_handler (arm_port P) slot PRIORITY_DEMOTE regs s1 = Some (r, s'))"
    using assms(1)
    by (auto simp: mutex_unlock_def s1_def [symmetric] Let_def bind_eq_Some_conv svc_instr_def split: if_splits)
  then have "mem (mcu s') mutex = mem (mcu s1) mutex \<and> task_id s' = task_id s1 \<and>
      (\<forall>t. live s' t \<longrightarrow> live s1 t \<or> t = unat (current_task s1))"
    using demote_keeps_mutex [OF _ assms(2)] by blast
  then show ?thesis using f by (simp add: mutex_free_def)
qed

lemma lock_step_inv:
  assumes "lock_step P mutex x y" and "lock_inv P mutex x" and ne: "mutex \<noteq> INTCTRL"
  shows "lock_inv P mutex y"
  using assms(1,2)
proof (induction rule: lock_step.induct)
  case (acquire excl s s' H)
  from acquire(1) show ?case
  proof (cases rule: mutex_lock_cases)
    case 2
    have "H = {}" using acquire(3) 2(2) by (auto simp: lock_inv_def)
    with 2 acquire(2,3) show ?thesis by (auto simp: lock_inv_def ids_ok_def mem_store_def mutex_free_def live_def)
  qed simp
next
  case (busy excl s s' H)
  then show ?case by (auto elim: mutex_lock_cases)
next
  case (release s H slot regs s')
  from release(1,3) have "H = {unat (current_task s)}" "task_id s (unat (current_task s)) AND 0xFF \<noteq> 0"
    by (auto simp: lock_inv_def mutex_free_def)
  with unlock_frees [OF release(2) ne] release(3) show ?case by (auto simp: lock_inv_def ids_ok_def)
next
  case (other s' s H)
  then show ?case by (auto simp: lock_inv_def mutex_free_def)
qed

text \<open>
  C26. Mutual exclusion, for tasks that lock with \<open>mutex_lock\<close> and release what they hold with
  \<open>mutex_unlock\<close>, in any order and number, with spoilt exclusive stores and with everything else that
  runs in between: at most one task holds the mutex, and its word is the identifier of that task.
  Two conditions carry it. No live task has an identifier that ends with a zero byte, at the start and
  after every step of other code (without it two tasks have the mutex, \<open>mutex_taken_twice\<close> in
  \<open>Deviations\<close>); and other code leaves the word of the mutex and the identifiers of its holders alone.
\<close>

theorem mutual_exclusion:
  assumes "(lock_step P mutex)\<^sup>*\<^sup>* (s, {}) (s', H)" and "ids_ok (MAX_TASK_COUNT P) s" and "mutex_free mutex s"
    and "mutex \<noteq> INTCTRL"
  shows "(\<forall>t \<in> H. \<forall>u \<in> H. t = u) \<and> (\<forall>t \<in> H. mem (mcu s') mutex = task_id s' t)"
proof -
  have "lock_inv P mutex y" if "(lock_step P mutex)\<^sup>*\<^sup>* (s, {}) y" for y
    using that by (induction rule: rtranclp_induct) (use assms in \<open>auto simp: lock_inv_def [of _ _ "(s, {})"] intro: lock_step_inv\<close>)
  from this [OF assms(1)] show ?thesis by (auto simp: lock_inv_def)
qed

theorem mutual_exclusion_witness:
  "\<exists>s' H. (lock_step demo_params 0x20004000)\<^sup>*\<^sup>* (demo_next, {}) (s', H) \<and> H = {1} \<and>
    mem (mcu s') 0x20004000 = task_id s' 1"
proof -
  have m: "mutex_free 0x20004000 demo_next" by (simp add: mutex_free_def demo_next_fields demo_mcu_def)
  have i: "ids_ok (MAX_TASK_COUNT demo_params) demo_next"
    by (simp add: ids_ok_def demo_params_def demo_next_live demo_live demo_next_fields demo_fields)
  have "mutex_lock (MAX_TASK_COUNT demo_params) True 0x20004000 demo_next =
      Some (0, on_mcu (mem_store 0x20004000 0x10002) demo_next)"
    using m by (simp add: mutex_lock_def ldrb_def mutex_free_def demo_params_def demo_next_fields demo_fields)
  then have "lock_step demo_params 0x20004000 (demo_next, {})
      (on_mcu (mem_store 0x20004000 0x10002) demo_next, insert (unat (current_task demo_next)) {})"
    by (rule lock_step.acquire) (simp add: demo_next_live demo_live demo_next_fields)
  then have r: "(lock_step demo_params 0x20004000)\<^sup>*\<^sup>* (demo_next, {}) (on_mcu (mem_store 0x20004000 0x10002) demo_next, {1})"
    by (simp add: demo_next_fields)
  from mutual_exclusion [OF r i m] r show ?thesis by auto
qed

section \<open>Semaphores\<close>

text \<open>The count is the low byte of the word; the rest of the word stays.\<close>

definition sem_count :: "u32 \<Rightarrow> kstate \<Rightarrow> u32" where
  "sem_count a s = mem (mcu s) a AND 0xFF"

lemma byte_split: "(w AND NOT m) OR (w AND m) = (w :: 'a :: len word)"
  by (rule bit_word_eqI) (auto simp: bit_simps)

lemma byte_set: "((w AND NOT m) OR (v AND m)) AND m = v AND (m :: 'a :: len word)"
  "((w AND NOT m) OR (v AND m)) AND NOT m = w AND NOT m"
  by (rule bit_word_eqI, auto simp: bit_simps)+

lemma low_byte: "(w :: u32) AND 0xFF = take_bit 8 w"
  by (simp add: take_bit_eq_mask mask_numeral)

lemma low_byte_small: "unat w < 256 \<Longrightarrow> (w :: u32) AND 0xFF = w"
  unfolding low_byte by (rule word_unat_eq_iff [THEN iffD2]) (simp add: take_bit_eq_mod unat_mod)

lemma strb_mem: "mem (strb a v m) a = mem m a AND NOT 0xFF OR v AND 0xFF"
  by (simp only: strb_def mem_store_def) simp

lemma strb_twice: "strb a v (strb a u m) = strb a v m"
  unfolding strb_def mem_store_def using byte_set(2) [of "mem m a" "0xFF" u] by simp

lemma strb_same: "strb a (mem m a AND 0xFF) m = m"
  unfolding strb_def mem_store_def using byte_split [of "mem m a" "0xFF"] by simp

lemma sem_count_strb [simp]: "sem_count a (on_mcu (strb a v) s) = v AND 0xFF"
  unfolding sem_count_def strb_def mem_store_def using byte_set(1) [of "mem (mcu s) a" "0xFF" v] by simp

text \<open>
  A semaphore that is incremented and decremented again is as before, when no other access
  comes between the exclusive load and store; the increment adds one modulo 256 to the
  count and leaves the other three bytes.
\<close>

theorem semaphore_roundtrip:
  assumes "0 < retry" and "sem_count a s \<noteq> 0xFF"
  shows "\<exists>s1. semaphore_increment (\<lambda>_. True) call regs a retry s = Some (ERROR_NONE, s1) \<and>
    sem_count a s1 = sem_count a s + 1 \<and>
    semaphore_decrement (\<lambda>_. True) call regs a retry s1 = Some (ERROR_NONE, s)"
proof -
  define s1 where "s1 = on_mcu (strb a (sem_count a s + 1)) s"
  obtain k where k: "unat retry = Suc k" using assms(1) by (cases "unat retry") (auto simp: unat_eq_0)
  have le: "sem_count a s \<le> 0xFF" by (simp add: sem_count_def word_and_le1)
  then have lt: "unat (sem_count a s) < 255" using assms(2) by (simp add: word_le_nat_alt word_unat_eq_iff)
  then have "unat (sem_count a s + 1) < 256" by (simp add: unat_word_ariths)
  then have c: "sem_count a s + 1 AND 0xFF = sem_count a s + 1" by (rule low_byte_small)
  have nz: "sem_count a s + 1 \<noteq> 0" using lt by (simp add: word_unat_eq_iff unat_word_ariths)
  have inc: "semaphore_increment (\<lambda>_. True) call regs a retry s = Some (ERROR_NONE, s1)"
    by (simp add: semaphore_increment_def k arch_semaphore_inc_def Let_def s1_def sem_count_def ldrb_def)
  have cnt: "sem_count a s1 = sem_count a s + 1" by (simp only: s1_def sem_count_strb c)
  have "mem (mcu s1) a AND 0xFF = sem_count a s + 1" using cnt by (simp add: sem_count_def)
  then have "semaphore_decrement (\<lambda>_. True) call regs a retry s1 = Some (ERROR_NONE, on_mcu (strb a (sem_count a s)) s1)"
    using nz by (simp add: semaphore_decrement_def k arch_semaphore_dec_def Let_def ldrb_def)
  moreover have "on_mcu (strb a (sem_count a s)) s1 = s"
    by (simp add: s1_def on_mcu_def strb_twice strb_same sem_count_def)
  ultimately show ?thesis using inc cnt by simp
qed

theorem semaphore_roundtrip_witness:
  "\<exists>s1. semaphore_increment (\<lambda>_. True) (svc_handler demo_arm 0) (\<lambda>_. 0) 0x20004000 3 demo_state = Some (ERROR_NONE, s1) \<and>
    semaphore_decrement (\<lambda>_. True) (svc_handler demo_arm 0) (\<lambda>_. 0) 0x20004000 3 s1 = Some (ERROR_NONE, demo_state)"
proof -
  have "sem_count 0x20004000 demo_state \<noteq> 0xFF" by (simp add: sem_count_def demo_fields demo_mcu_def)
  then show ?thesis
    using semaphore_roundtrip [of 3 "0x20004000" demo_state "svc_handler demo_arm 0" "\<lambda>_. 0"] by auto
qed

text \<open>
  Both semaphore functions return, with one of their two codes, whatever other accesses
  spoil the exclusive stores, as long as the hand-over calls return.
\<close>

lemma retry_loop_returns:
  assumes "\<And>s. call HAND_OVER regs s \<noteq> None"
  shows "\<exists>ok s'. retry_loop opr won call regs k s = Some (ok, s')"
proof (induction k arbitrary: s)
  case (Suc k)
  obtain st s1 where "opr s = (st, s1)" by (cases "opr s")
  moreover obtain r s2 where "call HAND_OVER regs s1 = Some (r, s2)" using assms [of s1] by auto
  ultimately show ?case using Suc [of s2] by (auto simp: svc_instr_def)
qed auto

theorem semaphore_returns:
  assumes "\<forall>s. call HAND_OVER regs s \<noteq> None"
  shows "(\<exists>e s'. semaphore_increment excl call regs a retry s = Some (e, s') \<and>
      e \<in> {ERROR_NONE, ERROR_RESOURCE_LOCKED_INDEFINETLY}) \<and>
    (\<exists>e s'. semaphore_decrement excl call regs a retry s = Some (e, s') \<and>
      e \<in> {ERROR_NONE, ERROR_RESOURCE_LOCKED_INDEFINETLY})"
proof -
  have r: "\<exists>ok s'. retry_loop opr won call regs k s = Some (ok, s')" for opr won k
    by (rule retry_loop_returns) (use assms in blast)
  show ?thesis
    using r [of "\<lambda>s. arch_semaphore_inc (excl s) a s" "\<lambda>st. st = 0" "unat retry"]
      r [of "\<lambda>s. arch_semaphore_dec (excl s) a s" "\<lambda>st. ucast st = (0 :: u8)" "unat retry"]
    by (auto simp: semaphore_increment_def semaphore_decrement_def)
qed

theorem semaphore_returns_witness:
  "\<exists>e s'. semaphore_increment (\<lambda>_. False) (\<lambda>_ _ s. Some (0, s)) (\<lambda>_. 0) 0x20004000 3 demo_state = Some (e, s')"
  using semaphore_returns [of "\<lambda>_ _ s. Some (0, s)" "\<lambda>_. 0" "\<lambda>_. False" "0x20004000" 3 demo_state] by auto

end
