(* ===== verification/LevelProps.thy ===== *)
theory LevelProps
  imports LevelStash
begin

text \<open>
  Properties of the level stash: adding and removing a level as operations on the list of the
  levels in use.
\<close>

text \<open>A stash of three levels.\<close>

definition demo_stash :: "u8 arr" where
  "demo_stash = (\<lambda>_. 0)(1 := 4, 2 := 9)"

lemma demo_stash_at: "demo_stash 0 = 0" "demo_stash 3 = 0"
  by (simp_all add: demo_stash_def)

lemma demo_stash_levels: "levels demo_stash 3 = [0, 4, 9]"
  by (simp add: levels_def demo_stash_def upt_rec)

text \<open>
  Whatever the order of the creations, adding a level keeps every level that is in the
  stash, adds the new one and nothing else, and stays inside the array.
\<close>

theorem level_add_as_set:
  assumes "ls 0 \<le> p" and "n \<le> 120" and "unat ptr < n" and "ls (unat ptr) \<noteq> p"
  shows "\<exists>ls' ptr'. level_add n p (ls, ptr) = Some (ls', ptr') \<and>
    set (levels ls' ptr') = insert p (set (levels ls ptr))"
  by (rule level_add_set [where ls = ls, OF assms])

theorem level_add_as_set_witness:
  "\<exists>ls' ptr'. level_add 8 6 (demo_stash, 3) = Some (ls', ptr') \<and> set (levels ls' ptr') = {0, 4, 6, 9}"
  using level_add_as_set [of demo_stash 6 8 3] by (simp add: demo_stash_levels demo_stash_at insert_commute)

text \<open>
  Creations in the order of their levels: a stash that is strictly increasing stays so, a
  level that is there is not added again, and one above all others goes to the end.
\<close>

theorem level_add_in_order:
  assumes "ls 0 \<le> p" and "n \<le> 120" and "unat ptr < n" and "sorted_wrt (<) (levels ls ptr)" and "ls (unat ptr) < p"
    and "p \<in> set (levels ls ptr) \<or> (\<forall>q \<in> set (levels ls ptr). q < p)"
  shows "\<exists>ls' ptr'. level_add n p (ls, ptr) = Some (ls', ptr') \<and> sorted_wrt (<) (levels ls' ptr') \<and>
    levels ls' ptr' = (if p \<in> set (levels ls ptr) then levels ls ptr else levels ls ptr @ [p])"
proof (cases "p \<in> set (levels ls ptr)")
  case True
  then show ?thesis using level_add_known [where ls = ls, OF assms(1-3)] assms(4) by (simp add: incr_upto_levels)
next
  case False
  have "ls i < p" if "i \<le> unat ptr" for i
    using False assms(5,6) that by (cases "i = unat ptr") (auto simp: levels_def)
  from level_add_above [OF assms(2,3) this] False assms(4,6) show ?thesis by (auto simp: sorted_wrt_append)
qed

theorem level_add_in_order_witness:
  "\<exists>ls' ptr'. level_add 8 12 (demo_stash, 3) = Some (ls', ptr') \<and> levels ls' ptr' = [0, 4, 9, 12]"
  using level_add_in_order [of demo_stash 12 8 3] by (simp add: demo_stash_levels demo_stash_at) blast

text \<open>
  Removing a level that is in the stash removes its first occurrence and closes the gap; the
  levels stay in order and what lies behind them does not change.
\<close>

theorem level_drop_as_remove1:
  assumes "p \<in> set (levels ls ptr)" and "unat ptr < n" and "sorted_wrt (<) (levels ls ptr)"
  shows "\<exists>ls'. level_drop n p (ls, ptr) = Some (ls', ptr - 1) \<and> levels ls' (ptr - 1) = remove1 p (levels ls ptr) \<and>
    p \<notin> set (levels ls' (ptr - 1)) \<and> sorted_wrt (<) (levels ls' (ptr - 1)) \<and> (\<forall>j \<ge> unat ptr. ls' j = ls j)"
proof -
  have "distinct (levels ls ptr)" using assms(3) by (simp add: strict_sorted_iff)
  then have "p \<notin> set (remove1 p (levels ls ptr))" by simp
  with level_drop_levels [OF assms(1,2)] sorted_wrt_remove1 [OF assms(3)] show ?thesis by auto
qed

theorem level_drop_as_remove1_witness:
  "\<exists>ls'. level_drop 8 4 (demo_stash, 3) = Some (ls', 2) \<and> levels ls' 2 = [0, 9]"
  using level_drop_as_remove1 [of 4 demo_stash 3 8] by (auto simp: demo_stash_levels)

text \<open>
  The search of the stash agrees with a search on natural numbers, ends inside the array, and
  finds a level that is there.
\<close>

theorem level_search_finds:
  assumes "ls 0 \<le> p" and "n \<le> 120" and "unat ptr < n" and "sorted_wrt (<) (levels ls ptr)"
  shows "\<exists>f m. level_search n ls p 0 (ucast ptr) 0 = Some (f, m) \<and> unat m < n \<and>
    ref_search ls p 0 (Suc (unat ptr)) 0 = (f, unat m) \<and>
    (p \<in> set (levels ls ptr) \<longrightarrow> f) \<and> (f \<longrightarrow> ls (unat m) = p)"
proof -
  have u: "unat (ucast ptr :: u32) = unat ptr" by (rule unat_ucast_u8_u32)
  obtain f m where s: "level_search n ls p 0 (ucast ptr) 0 = Some (f, m)" "unat m < n"
    and r: "ref_search ls p 0 (Suc (unat ptr)) 0 = (f, unat m)"
    using level_search_ref [where ls = ls, OF assms(1,2), of "ucast ptr" 0 0] assms(3) by (auto simp: u)
  have "f" if "p \<in> set (levels ls ptr)"
    using that ref_search_complete [of "unat ptr" ls "Suc (unat ptr)" 0 _ p 0] assms(4) r
    by (auto simp: levels_def incr_upto_levels)
  moreover have "ls (unat m) = p" if f using ref_search_found [of ls p 0 _ 0 "unat m"] r that by auto
  ultimately show ?thesis using s r by blast
qed

theorem level_search_finds_witness:
  "\<exists>f m. level_search 8 demo_stash 4 0 (ucast (3 :: u8)) 0 = Some (f, m) \<and> f"
  using level_search_finds [of demo_stash 4 8 3] by (simp add: demo_stash_levels demo_stash_at) blast

end
