(* ===== verification/BaseTask.thy ===== *)
theory BaseTask
  imports TaskApi SvcInv Demo
begin

text \<open>
  The default base task of \<^verbatim>\<open>src/baset.c\<close>, and the request of a task to the base task
  as a whole: \<open>base_run\<close> and \<open>INVOKE_BASE\<close> put the caller on hold and the base task to the
  highest level, the base task grants the permission and releases the caller.
\<close>

text \<open>
  One turn of the loop. The file's static variables \<open>args\<close> and \<open>task_id\<close> are the words at
  the addresses \<open>pargs\<close> and \<open>ptid\<close>; \<open>access_code\<close> is read nowhere else.
\<close>

definition BaseTask_turn :: "supervisor \<Rightarrow> svc_args \<Rightarrow> u32 \<Rightarrow> u32 \<Rightarrow> u32 \<Rightarrow> kstate \<Rightarrow> kstate option" where
  "BaseTask_turn call regs hi ptid pargs s =
     (if invocated_task s \<noteq> 0 then
        (let (error, s1) = get_invocation_args ptid pargs s;
             access_code = ucast (mem (mcu s1) (mem (mcu s1) pargs)) :: u16 in
         do {
           s2 \<leftarrow> (if access_code = 0 then map_option snd (device_reset call regs s1) else Some s1);
           (error, s3) \<leftarrow> grant_permission call regs (mem (mcu s2) ptid) access_code s2;
           (error, s4) \<leftarrow> base_release call regs hi (ucast error) s3;
           Some s4
         })
      else Some s)"

partial_function (option) BaseTask :: "supervisor \<Rightarrow> svc_args \<Rightarrow> u32 \<Rightarrow> u32 \<Rightarrow> u32 \<Rightarrow> kstate \<Rightarrow> kstate option" where
  "BaseTask call regs hi ptid pargs s = do {
     s' \<leftarrow> BaseTask_turn call regs hi ptid pargs s;
     BaseTask call regs hi ptid pargs s'
   }"

section \<open>Properties\<close>

lemma release_holder_only:
  assumes "i < n" "state s i = TASK_STATE_HOLD" "op1 s i = mutex"
    and "\<forall>j < n. state s j = TASK_STATE_HOLD \<and> op1 s j = mutex \<longrightarrow> j = i"
  shows "release_holder n mutex s = s\<lparr>state := (state s)(i := TASK_STATE_SLEEP)\<rparr>"
proof -
  have "first_idx (\<lambda>i. state s i = TASK_STATE_HOLD \<and> op1 s i = mutex) n = i"
  proof (rule first_idx_eqI)
    show "\<not> (state s j = TASK_STATE_HOLD \<and> op1 s j = mutex)" if "j < i" for j
      using assms(1,4) that less_trans less_irrefl by blast
  qed (use assms(1-3) in simp_all)
  with assms(1) show ?thesis by (simp add: release_holder_def)
qed

lemma ucast_back [simp]: "ucast (ucast (x :: u16) :: u32) = x"
  by transfer simp

text \<open>
  C24. The base task serves the task that waits for it: it grants the permission whose code
  the request points to, returns to its own level, and the waiting task is ready
  again, with the result of the request in its hibernate value. The result has the
  high bytes of the word around the 8-bit variable that held it.
\<close>

theorem base_task_serves:
  assumes port: "pending_port A trig" and k: "kinv (MAX_TASK_COUNT A) s" and cur: "current_task s = 0" "\<not> self_kill s"
    and i: "i < MAX_TASK_COUNT A" "live s i" "i \<noteq> 0" and inv: "invocated_task s = task_id s i"
    and code: "ucast (mem (mcu s) (invocated_args s)) = (code :: u16)" "code \<noteq> 0"
    and mem: "ptid \<noteq> pargs" "invocated_args s \<noteq> ptid" "invocated_args s \<noteq> pargs"
    and hold: "state s i = TASK_STATE_HOLD" "op1 s i = mutex_stash s 0"
      "\<forall>j < MAX_TASK_COUNT A. state s j = TASK_STATE_HOLD \<and> op1 s j = mutex_stash s 0 \<longrightarrow> j = i"
  shows "\<exists>s'. BaseTask_turn (svc_handler A slot) regs hi ptid pargs s = Some s' \<and>
    permissions s' = (permissions s)(i := code) \<and> invocated_task s' = 0 \<and>
    hib_value s' i = hi AND NOT 0xFF \<and> state s' = (state s)(i := TASK_STATE_SLEEP, 0 := TASK_STATE_SLEEP) \<and>
    priority_cur s' 0 = priority_stash s 0 \<and> mutex_stash s' 0 = 0"
proof -
  let ?n = "MAX_TASK_COUNT A"
  have n: "0 < ?n" using i(1) by simp
  have id: "task_id s i \<noteq> 0" using k i(1,2) table_okD by (auto simp: kinv_def)
  define s1 where "s1 = on_mcu (mem_store pargs (invocated_args s) \<circ> mem_store ptid (invocated_task s)) s"
  have g: "get_invocation_args ptid pargs s = (ERROR_NONE, s1)"
    using cur inv id by (simp add: get_invocation_args_def s1_def)
  have m1: "mem (mcu s1) pargs = invocated_args s" "mem (mcu s1) ptid = task_id s i"
    "mem (mcu s1) (invocated_args s) = mem (mcu s) (invocated_args s)"
    using mem inv by (simp_all add: s1_def mem_store_def)
  define s3 where "s3 = s1\<lparr>permissions := (permissions s1)(i := code)\<rparr>"
  have f: "first_idx (\<lambda>j. task_id s j = task_id s i) ?n = i" by (rule task_id_first [OF k i(1,2)])
  have "svc_service_grant_permission A GRANT_PERMISSION (regs(0 := task_id s i, 1 := ucast code)) s1 =
      Some (ERROR_NONE, GRANT_PERMISSION, regs(0 := task_id s i, 1 := ucast code), s3)"
    using f i(1) cur(1) by (simp add: svc_service_grant_permission_def s1_def s3_def)
  then have grant: "grant_permission (svc_handler A slot) regs (task_id s i) code s1 = Some (ERROR_NONE, s3)"
    using cur(1) unfolding grant_permission_def svc_macro_defs
    by (subst svc_handler.simps) (simp add: svc_dispatch_def s1_def)
  define v where "v = hi AND NOT 0xFF OR ucast (0 :: u8)"
  define r where "r = s3\<lparr>hib_value := (hib_value s3)(i := v), invocated_task := 0, invocated_args := 0\<rparr>"
  define d where "d = demote_level (r\<lparr>priority_cur := (priority_cur r)(0 := priority_stash r 0),
      priority_stash := (priority_stash r)(0 := 0)\<rparr>)"
  define h where "h = d\<lparr>state := (state d)(i := TASK_STATE_SLEEP), mutex_stash := (mutex_stash d)(0 := 0)\<rparr>"
  define s4 where "s4 = on_mcu trig (h\<lparr>state := (state h)(0 := TASK_STATE_SLEEP), normal_schedule := False\<rparr>)"
  have fd: "state d = state s" "op1 d = op1 s" "mutex_stash d = mutex_stash s" "permissions d = (permissions s)(i := code)"
    "invocated_task d = 0" "hib_value d i = v" "priority_cur d 0 = priority_stash s 0" "self_kill d = self_kill s"
    "current_task d = 0"
    by (simp_all add: d_def demote_level_def Let_def r_def s3_def s1_def cur(1) on_mcu_def)
  have rel: "svc_service_release_base A RELEASE_BASE (regs(0 := v)) s3 = Some (ERROR_NONE, PRIORITY_DEMOTE, regs(0 := v), r)"
    using f i(1) cur(1) inv by (simp add: svc_service_release_base_def r_def s3_def s1_def on_mcu_def)
  have hd: "release_holder ?n (mutex_stash s 0) d = d\<lparr>state := (state d)(i := TASK_STATE_SLEEP)\<rparr>"
    by (rule release_holder_only, unfold fd) (fact i(1) hold)+
  have cr: "current_task r = 0" by (simp add: r_def s3_def s1_def cur(1))
  have dem: "svc_service_priority_demote A PRIORITY_DEMOTE (regs(0 := v)) r = Some (ERROR_NONE, HAND_OVER, regs(0 := v), h)"
    using n by (simp add: svc_service_priority_demote_def cr Let_def d_def [symmetric] fd hd h_def)
  have over: "svc_service_hand_over A HAND_OVER (regs(0 := v)) h = Some (ERROR_NONE, HAND_OVER, regs(0 := v), s4)"
    using n cur(2) by (simp add: svc_service_hand_over_def pending_port.trigger_pending [OF port] s4_def h_def fd)
  have "svc_handler A slot RELEASE_BASE (regs(0 := v)) s3 = Some (ERROR_NONE, s4)"
    using rel dem over
    by (simp add: svc_handler_run [of RELEASE_BASE 3] svc_rank_def numeral_3_eq_3 svc_dispatch_def)
  then have "base_release (svc_handler A slot) regs hi 0 s3 = Some (ERROR_NONE, s4)"
    by (simp add: base_release_def svc_macro_defs v_def s3_def s1_def cur(1))
  then have "BaseTask_turn (svc_handler A slot) regs hi ptid pargs s = Some s4"
    using id inv code grant by (simp add: BaseTask_turn_def g m1)
  then show ?thesis by (intro exI [of _ s4]) (simp add: s4_def h_def fd v_def on_mcu_def)
qed

text \<open>A task in slot 1 that waits for the base task, with a request for register access.\<close>

definition demo_request :: kstate where
  "demo_request = demo_state\<lparr>state := (\<lambda>_. TASK_STATE_IDLE)(0 := TASK_STATE_ACTIVE, 1 := TASK_STATE_HOLD),
     invocated_task := 0x10002, invocated_args := 0x20004000, op1 := (\<lambda>_. 0)(1 := 0x2000),
     mutex_stash := (\<lambda>_. 0)(0 := 0x2000), mcu := mem_store 0x20004000 0x20 demo_mcu\<rparr>"

lemma demo_request_kinv: "kinv 4 demo_request"
proof -
  have lv: "live demo_request = live demo_state" by (auto simp: live_def demo_request_def demo_fields fun_eq_iff)
  have "kernel_ok 4 demo_request"
    by (rule kernel_ok_cong [OF demo_kernel_ok]) (simp_all add: lv, simp_all add: demo_request_def)
  then show ?thesis by (simp add: kernel_ok_def)
qed

theorem base_task_serves_witness:
  "\<exists>s'. BaseTask_turn (svc_handler demo_arm 0) (\<lambda>_. 0) 0xABCDEF00 0x20005000 0x20005004 demo_request = Some s' \<and>
    permissions s' 1 = 0x20 \<and> hib_value s' 1 = 0xABCDEF00"
proof -
  have p: "pending_port demo_arm arm_TRIGGER_SCHEDULER" unfolding demo_arm_def by (rule armp.pending_port_axioms)
  have f: "state demo_request = (\<lambda>_. TASK_STATE_IDLE)(0 := TASK_STATE_ACTIVE, 1 := TASK_STATE_HOLD)"
    "current_task demo_request = 0" "\<not> self_kill demo_request" "live demo_request 1"
    "invocated_task demo_request = task_id demo_request 1" "invocated_args demo_request = 0x20004000"
    "op1 demo_request 1 = mutex_stash demo_request 0" "mem (mcu demo_request) 0x20004000 = 0x20"
    by (simp_all add: demo_request_def demo_fields live_def mem_store_def)
  have k: "kinv (MAX_TASK_COUNT demo_arm) demo_request" using demo_request_kinv by simp
  have u: "\<forall>j < MAX_TASK_COUNT demo_arm. state demo_request j = TASK_STATE_HOLD \<and>
      op1 demo_request j = mutex_stash demo_request 0 \<longrightarrow> j = 1"
    by (simp add: f(1) All_less4)
  have i: "1 < MAX_TASK_COUNT demo_arm" "(1 :: nat) \<noteq> 0" "state demo_request 1 = TASK_STATE_HOLD" by (simp_all add: f(1))
  have c: "ucast (mem (mcu demo_request) (invocated_args demo_request)) = (0x20 :: u16)" "(0x20 :: u16) \<noteq> 0"
    by (simp_all add: f)
  have m: "(0x20005000 :: u32) \<noteq> 0x20005004" "invocated_args demo_request \<noteq> 0x20005000"
    "invocated_args demo_request \<noteq> 0x20005004" by (simp_all add: f)
  from base_task_serves [OF p k f(2,3) i(1) f(4) i(2) f(5) c m i(3) f(7) u, of 0 "\<lambda>_. 0" "0xABCDEF00"]
  obtain s' where "BaseTask_turn (svc_handler demo_arm 0) (\<lambda>_. 0) 0xABCDEF00 0x20005000 0x20005004 demo_request = Some s'"
    "permissions s' = (permissions demo_request)(1 := 0x20)" "hib_value s' 1 = 0xABCDEF00 AND NOT 0xFF"
    by blast
  then show ?thesis by simp
qed

end
