(* ===== verification/HeapList.thy ===== *)
theory HeapList
  imports Heap "HOL-Library.Signed_Division"
begin

text \<open>
  The list of markers of the heap: the three assembly routines of \<^verbatim>\<open>src/heap.c\<close> and the
  services of \<^verbatim>\<open>src/service/svr_heap.c\<close>.

  A marker is a word of the bookkeeping region: the low half is the size of a block in bytes,
  with bit 15 for a free block, the high half is the signed distance in words to the
  next marker. A word 0 is no marker.
\<close>

section \<open>Halfwords\<close>

definition ldrh :: "u32 \<Rightarrow> mcu \<Rightarrow> u32" where
  "ldrh a m = mem m a AND 0xFFFF"

definition ldrsh :: "u32 \<Rightarrow> mcu \<Rightarrow> u32" where
  "ldrsh a m = signed_drop_bit 16 (mem m a)"

definition strh_lo :: "u32 \<Rightarrow> u32 \<Rightarrow> mcu \<Rightarrow> mcu" where
  "strh_lo a v m = mem_store a (mem m a AND 0xFFFF0000 OR v AND 0xFFFF) m"

definition strh_hi :: "u32 \<Rightarrow> u32 \<Rightarrow> mcu \<Rightarrow> mcu" where
  "strh_hi a v m = mem_store a (mem m a AND 0xFFFF OR push_bit 16 v) m"

abbreviation (input) FREE_HEADER_MASK :: u32 where "FREE_HEADER_MASK \<equiv> 0x00008000"

text \<open>The distance between two markers, and the test that it fits into a halfword.\<close>

definition marker_dist :: "u32 \<Rightarrow> u32 \<Rightarrow> u32" where
  "marker_dist a b = word_of_int (sint (b - a) sdiv 4)"

definition dist_ok :: "u32 \<Rightarrow> bool" where
  "dist_ok d \<longleftrightarrow> \<not> sint d \<le> - 0x8000 \<and> \<not> 0x8000 \<le> sint d"

definition next_marker :: "u32 \<Rightarrow> mcu \<Rightarrow> u32" where
  "next_marker a m = a + push_bit 2 (ldrsh a m)"

definition block_size :: "u32 \<Rightarrow> mcu \<Rightarrow> u32" where
  "block_size a m = ldrh a m AND NOT FREE_HEADER_MASK"

section \<open>search\_free\_marker\<close>

text \<open>
  The walk along the list: \<open>k\<close> is the counter in \<open>R2\<close>, \<open>R5\<close> the address of the block. It stops
  at the first free block that is large enough.
\<close>

fun find_free :: "nat \<Rightarrow> u32 \<Rightarrow> mcu \<Rightarrow> u32 \<Rightarrow> u32 \<Rightarrow> (u32 \<times> u32) option" where
  "find_free 0 sz m R1 R5 = None"
| "find_free (Suc k) sz m R1 R5 =
     (let R3 = ldrh R1 m in
      if R3 AND FREE_HEADER_MASK \<noteq> 0 \<and> \<not> sint (R3 AND NOT FREE_HEADER_MASK) < sint sz
      then Some (R1, R5)
      else find_free k sz m (next_marker R1 m) (R5 + (R3 AND NOT FREE_HEADER_MASK)))"

text \<open>The search for an empty word below \<open>R2\<close>, from the largest distance on.\<close>

fun find_empty :: "nat \<Rightarrow> mcu \<Rightarrow> u32 \<Rightarrow> u32 option" where
  "find_empty 0 m R2 = None"
| "find_empty (Suc k) m R2 =
     (let a = R2 - push_bit 2 (of_nat (Suc k)) in
      if mem m a = 0 then Some a else find_empty k m R2)"

text \<open>
  The rest \<open>R3\<close> of a block goes to a new marker behind \<open>R1\<close> if there is an empty word and the
  distances fit; the result is what remains with \<open>R1\<close>'s block.
\<close>

definition split_marker :: "'z params_scheme \<Rightarrow> heap_env \<Rightarrow> u32 \<Rightarrow> u32 \<Rightarrow> mcu \<Rightarrow> u32 \<times> mcu" where
  "split_marker P H R1 R3 m =
     (if R3 = 0 then (R3, m)
      else
        (case find_empty (HEAP_BOOKEEPING_SIZE P) m (mem m (bstart_addr H)) of
           None \<Rightarrow> (R3, m)
         | Some R2 \<Rightarrow>
             (let R4 = marker_dist R2 R1 + ldrsh R1 m in
              if \<not> dist_ok R4 then (R3, m)
              else
                (let m1 = strh_hi R2 R4 (strh_lo R2 (R3 OR FREE_HEADER_MASK) m);
                     R4 = marker_dist R1 R2 in
                 if \<not> dist_ok R4 then (R3, mem_store R2 0 m1)
                 else
                   (let m2 = strh_hi R1 R4 m1
                    in (0, mem_store (blist_size H) (mem m2 (blist_size H) + 1) m2))))))"

definition search_free_marker :: "'z params_scheme \<Rightarrow> heap_env \<Rightarrow> u32 \<Rightarrow> mcu \<Rightarrow> u32 \<times> mcu" where
  "search_free_marker P H sz m =
     (case find_free (unat (mem m (blist_size H))) sz m (mem m (fsll_start H)) (mem m (hstart_addr H)) of
        None \<Rightarrow> (0, m)
      | Some (R1, R5) \<Rightarrow>
          (let (R3, m1) = split_marker P H R1 ((ldrh R1 m AND NOT FREE_HEADER_MASK) - sz) m
           in (R5, strh_lo R1 (R3 + sz) m1)))"

section \<open>add\_new\_allocated\_marker\<close>

text \<open>
  The search for an empty word from the start of the region downwards; \<open>R6\<close> grows by 4 per
  word and is compared with \<open>HEAP_BOOKEEPING_SIZE\<close>. An empty word that is too far
  away is tried again until the counter ends the loop.
\<close>

partial_function (option) find_new :: "u32 \<Rightarrow> mcu \<Rightarrow> u32 \<Rightarrow> u32 \<Rightarrow> u32 \<Rightarrow> (u32 \<times> u32) option option" where
  "find_new hbsz m R2 R1 R6 =
     (if R6 = hbsz then Some None
      else if mem m R1 = 0 then
        (let R4 = marker_dist R2 R1 in
         if dist_ok R4 then Some (Some (R1, R4)) else find_new hbsz m R2 R1 (R6 + 4))
      else find_new hbsz m R2 (R1 - 4) (R6 + 4))"

text \<open>The address of the block of marker \<open>R1\<close>: the sizes of the blocks before it are added up.\<close>

partial_function (option) block_addr :: "mcu \<Rightarrow> u32 \<Rightarrow> u32 \<Rightarrow> u32 \<Rightarrow> u32 option" where
  "block_addr m R1 R2 R5 =
     (if R1 = R2 then Some R5 else block_addr m R1 (next_marker R2 m) (R5 + block_size R2 m))"

definition add_new_allocated_marker :: "'z params_scheme \<Rightarrow> heap_env \<Rightarrow> u32 \<Rightarrow> mcu \<Rightarrow> (u32 \<times> mcu) option" where
  "add_new_allocated_marker P H sz m = do {
     r \<leftarrow> find_new (of_nat (HEAP_BOOKEEPING_SIZE P)) m (mem m (fsll_end H)) (mem m (bstart_addr H)) 0;
     (case r of
        None \<Rightarrow> Some (0, m)
      | Some (R1, R4) \<Rightarrow>
          (let m1 = strh_lo R1 sz m;
               m2 = strh_hi (mem m (fsll_end H)) R4 m1;
               m3 = mem_store (fsll_end H) R1 m2 in
           do {
             R5 \<leftarrow> block_addr m3 R1 (mem m3 (fsll_start H)) (mem m3 (hstart_addr H));
             Some (R5, mem_store (blist_size H) (mem m3 (blist_size H) + 1) m3)
           }))
   }"

section \<open>release\_allocated\_marker\<close>

text \<open>The marker of the block at an address; the counter \<open>R6\<close> starts with the number of markers.\<close>

partial_function (option) find_block :: "mcu \<Rightarrow> u32 \<Rightarrow> u32 \<Rightarrow> u32 \<Rightarrow> u32 \<Rightarrow> u32 option option" where
  "find_block m address R1 R5 R6 =
     (if R5 = address then Some (Some R1)
      else if R6 - 1 = 0 then Some None
      else find_block m address (next_marker R1 m) (R5 + block_size R1 m) (R6 - 1))"

partial_function (option) find_pred :: "mcu \<Rightarrow> u32 \<Rightarrow> u32 \<Rightarrow> u32 \<Rightarrow> u32 option" where
  "find_pred m R1 R2 R4 = (if R4 = R1 then Some R2 else find_pred m R1 R4 (next_marker R4 m))"

text \<open>
  Joining the block of \<open>R1\<close> with the next one: the new \<open>R3\<close> (size with the free bit) and \<open>R6\<close>
  (number of markers). \<open>R3\<close> keeps the sum also when the blocks are not joined.
\<close>

definition join_next :: "u32 \<Rightarrow> u32 \<Rightarrow> u32 \<Rightarrow> mcu \<Rightarrow> u32 \<times> u32 \<times> mcu" where
  "join_next R1 R3 R6 m =
     (if ldrsh R1 m = 0 then (R3, R6 - 1, mem_store R1 0 m)
      else
        (let R2 = next_marker R1 m; R4 = ldrh R2 m in
         if R4 AND FREE_HEADER_MASK = 0 then (R3, R6, m)
         else
           (let R3 = R3 + (R4 AND NOT FREE_HEADER_MASK) in
            if 0xFFFF \<le> sint R3 then (R3, R6, m)
            else
              (let R0 = marker_dist R1 R2 + ldrsh R2 m in
               if \<not> dist_ok R0 then (R3, R6, m)
               else (R3, R6 - 1, mem_store R2 0 (strh_lo R1 R3 (strh_hi R1 R0 m)))))))"

text \<open>Joining with the marker \<open>R2\<close> before \<open>R1\<close>.\<close>

definition join_prev :: "heap_env \<Rightarrow> u32 \<Rightarrow> u32 \<Rightarrow> u32 \<Rightarrow> u32 \<Rightarrow> mcu \<Rightarrow> u32 \<times> mcu" where
  "join_prev H R1 R2 R3 R6 m =
     (if mem m R1 = 0 then (R6, mem_store (fsll_end H) R2 (strh_hi R2 0 m))
      else if ldrh R2 m AND FREE_HEADER_MASK = 0 then (R6, m)
      else
        (let R3 = R3 + (ldrh R2 m AND NOT FREE_HEADER_MASK);
             R4 = marker_dist R2 R1 + ldrsh R1 m in
         if \<not> dist_ok R4 then (R6, m)
         else (R6 - 1, mem_store R1 0 (strh_lo R2 R3 (strh_hi R2 R4 m)))))"

definition release_allocated_marker :: "heap_env \<Rightarrow> u32 \<Rightarrow> mcu \<Rightarrow> (u32 \<times> mcu) option" where
  "release_allocated_marker H address m = do {
     r \<leftarrow> find_block m address (mem m (fsll_start H)) (mem m (hstart_addr H)) (mem m (blist_size H));
     (case r of
        None \<Rightarrow> Some (0, m)
      | Some R1 \<Rightarrow>
          (let m1 = mem_store (heap_remaining H) (mem m (heap_remaining H) + block_size R1 m) m;
               R3 = block_size R1 m1 OR FREE_HEADER_MASK;
               (R3, R6, m2) = join_next R1 R3 (mem m1 (blist_size H)) (strh_lo R1 R3 m1) in
           do {
             (R6, m3) \<leftarrow>
               (if mem m2 (fsll_start H) = R1 then Some (R6, m2)
                else do {
                  R2 \<leftarrow> find_pred m2 R1 R1 (mem m2 (fsll_start H));
                  Some (join_prev H R1 R2 R3 R6 m2)
                });
             Some (R6, mem_store (blist_size H) R6 m3)
           }))
   }"

section \<open>svr\_heap.c\<close>

definition svc_service_gheap_release :: "heap_env \<Rightarrow> svc_service" where
  "svc_service_gheap_release H A svc_num arguments s =
     (let address = arguments 1 in
      if mem (mcu s) (blist_size H) = 0 then Some (ERROR_EMPTY_HEAP, svc_num, arguments, s)
      else do {
        (status, m) \<leftarrow> release_allocated_marker H address (mcu s);
        Some (if status = 0 \<and> mem m (blist_size H) \<noteq> 0 then ERROR_WRONG_HEAP_POINTER else ERROR_NONE,
              svc_num, arguments, s\<lparr>mcu := m\<rparr>)
      })"

definition svc_service_gheap_allocate :: "heap_env \<Rightarrow> svc_service" where
  "svc_service_gheap_allocate H A svc_num arguments s =
     (let size_request = arguments 1 in
      do {
        (allocated_address, m) \<leftarrow>
          (if mem (mcu s) (blist_size H) = 0 then add_new_allocated_marker A H size_request (mcu s)
           else
             (let (a, m) = search_free_marker A H size_request (mcu s) in
              if a = 0 then add_new_allocated_marker A H size_request m else Some (a, m)));
        let m1 = (if allocated_address \<noteq> 0
                  then mem_store (heap_remaining H) (mem m (heap_remaining H) - size_request) m else m);
        Some (allocated_address, svc_num, arguments, s\<lparr>mcu := m1\<rparr>)
      })"

end
