(* ===== verification/HeapInv.thy ===== *)
theory HeapInv
  imports HeapList
begin

text \<open>
  The list of markers as a list of addresses, and the lemmas on halfwords and distances that its
  operations need.
\<close>

section \<open>Halfwords\<close>

lemma mem_strh: "mem (strh_lo a v m) = (mem m)(a := mem m a AND 0xFFFF0000 OR v AND 0xFFFF)"
  "mem (strh_hi a v m) = (mem m)(a := mem m a AND 0xFFFF OR push_bit 16 v)"
  by (simp_all add: strh_lo_def strh_hi_def mem_store_def)

lemma half_masks: "(0xFFFF :: u32) = mask 16" "(0xFFFF0000 :: u32) = NOT (mask 16)"
  by (simp_all add: mask_numeral)

lemma ldrh_strh_lo: "ldrh a (strh_lo a v m) = v AND 0xFFFF"
  unfolding ldrh_def mem_strh half_masks fun_upd_same by (rule bit_word_eqI) (auto simp: bit_simps)

lemma ldrh_strh_hi: "ldrh a (strh_hi a v m) = ldrh a m"
  unfolding ldrh_def mem_strh half_masks fun_upd_same by (rule bit_word_eqI) (auto simp: bit_simps)

lemma ldrsh_strh_lo: "ldrsh a (strh_lo a v m) = ldrsh a m"
  unfolding ldrsh_def mem_strh half_masks fun_upd_same by (rule bit_word_eqI) (auto simp: bit_simps)

lemma ldrsh_strh_hi:
  assumes "dist_ok v"
  shows "ldrsh a (strh_hi a v m) = v"
proof -
  have st: "signed_take_bit 15 (sint v) = sint v"
    using assms by (intro signed_take_bit_int_eq_self) (auto simp: dist_ok_def)
  have top: "bit v n = bit v 15" if "15 < n" "n < 32" for n
    using arg_cong [OF st, of "\<lambda>x. bit x n"] that by (simp add: bit_signed_take_bit_iff bit_sint_iff)
  show ?thesis
    unfolding ldrsh_def mem_strh half_masks fun_upd_same
    by (rule bit_word_eqI) (auto simp: bit_simps top)
qed

lemma dist_exact:
  assumes "4 dvd sint (b - a)"
  shows "a + push_bit 2 (marker_dist a b) = b"
proof -
  obtain k where k: "sint (b - a) = 4 * k" using assms by (auto elim: dvdE)
  have "4 * k sdiv 4 = k" by (simp add: signed_divide_int_def abs_mult sgn_mult sgn_mult_abs)
  then have d: "marker_dist a b = word_of_int k" by (simp add: marker_dist_def k)
  have "push_bit 2 (marker_dist a b) = word_of_int (4 * k)" by (simp add: d push_bit_eq_mult)
  also have "\<dots> = b - a" by (simp only: k [symmetric]) simp
  finally show ?thesis by simp
qed

lemma aligned_diff:
  assumes "4 dvd unat a" and "4 dvd unat (b :: u32)"
  shows "4 dvd sint (b - a)"
proof -
  have "int 4 dvd int (unat a)" "int 4 dvd int (unat b)" using assms by (simp_all only: int_dvd_int_iff)
  then have "4 dvd uint a" "4 dvd uint b" by simp_all
  then have "4 dvd uint (b - a)" by (simp add: uint_word_ariths dvd_mod)
  then have "take_bit 2 (uint (b - a)) = 0" by (simp add: take_bit_eq_mod)
  then have "take_bit 2 (sint (b - a)) = 0" by (simp add: sint_uint take_bit_signed_take_bit)
  then show ?thesis by (simp add: take_bit_eq_mod mod_eq_0_iff_dvd)
qed

text \<open>A link from one marker to another one.\<close>

lemma next_strh_hi:
  assumes "4 dvd unat a" "4 dvd unat b" and "dist_ok (marker_dist a b)"
  shows "next_marker a (strh_hi a (marker_dist a b) m) = b"
  using dist_exact [OF aligned_diff [OF assms(1,2)]] by (simp add: next_marker_def ldrsh_strh_hi [OF assms(3)])

section \<open>The list\<close>

fun chain :: "mcu \<Rightarrow> u32 list \<Rightarrow> bool" where
  "chain m (a # b # as) \<longleftrightarrow> next_marker a m = b \<and> chain m (b # as)"
| "chain m as \<longleftrightarrow> True"

text \<open>
  The list of the markers \<open>as\<close>: linked from \<open>fsll_start\<close> to \<open>fsll_end\<close>, as many as
  \<open>blist_size\<close> says, aligned, apart from the variables of the heap; the first one is always
  at the start of the bookkeeping region, which is an empty word in an empty heap.
\<close>

definition heap_vars :: "heap_env \<Rightarrow> u32 set" where
  "heap_vars H = {hstart_addr H, bstart_addr H, heap_remaining H, fsll_start H, fsll_end H, blist_size H}"

definition heap_env_ok :: "heap_env \<Rightarrow> bool" where
  "heap_env_ok H \<longleftrightarrow> distinct [hstart_addr H, bstart_addr H, heap_remaining H, fsll_start H, fsll_end H, blist_size H]"

definition heap_list :: "heap_env \<Rightarrow> mcu \<Rightarrow> u32 list \<Rightarrow> bool" where
  "heap_list H m as \<longleftrightarrow> chain m as \<and> distinct as \<and> unat (mem m (blist_size H)) = length as \<and>
     (\<forall>a \<in> set as. ldrh a m \<noteq> 0 \<and> 4 dvd unat a \<and> a \<notin> heap_vars H) \<and>
     mem m (fsll_start H) = mem m (bstart_addr H) \<and>
     (if as = [] then mem m (mem m (bstart_addr H)) = 0 \<and> mem m (fsll_end H) = mem m (bstart_addr H)
      else mem m (bstart_addr H) = hd as \<and> mem m (fsll_end H) = last as)"

lemma heap_listD:
  assumes "heap_list H m as" and "a \<in> set as"
  shows "ldrh a m \<noteq> 0" "mem m a \<noteq> 0" "4 dvd unat a" "a \<notin> heap_vars H"
  using assms by (auto simp: heap_list_def ldrh_def)

definition sizes :: "mcu \<Rightarrow> u32 list \<Rightarrow> u32" where
  "sizes m as = sum_list (map (\<lambda>a. block_size a m) as)"

lemma chain_append: "chain m (as @ [a, b]) \<longleftrightarrow> chain m (as @ [a]) \<and> next_marker a m = b"
  by (induction m as rule: chain.induct) auto

lemma chain_mid: "chain m (as @ a # bs) \<longleftrightarrow> chain m (as @ [a]) \<and> chain m (a # bs)"
  by (induction m as rule: chain.induct) auto

lemma chain_cong:
  assumes "\<And>a. a \<in> set (butlast as) \<Longrightarrow> next_marker a m' = next_marker a m"
  shows "chain m' as = chain m as"
  using assms by (induction m as rule: chain.induct) auto

text \<open>The address of the last block of a chain.\<close>

lemma block_addr_chain:
  assumes "chain m (as @ [b])" and "distinct (as @ [b])"
  shows "block_addr m b (hd (as @ [b])) R5 = Some (R5 + sizes m as)"
  using assms
proof (induction as arbitrary: R5)
  case Nil
  then show ?case by (subst block_addr.simps) (simp add: sizes_def)
next
  case (Cons a as)
  have n: "next_marker a m = hd (as @ [b])" "chain m (as @ [b])"
    using Cons.prems(1) by (cases as; simp)+
  have "b \<noteq> a" using Cons.prems(2) by auto
  then have "block_addr m b a R5 = block_addr m b (hd (as @ [b])) (R5 + block_size a m)"
    by (subst block_addr.simps) (simp add: n(1))
  with Cons.IH [OF n(2), of "R5 + block_size a m"] Cons.prems(2) show ?case by (simp add: sizes_def ac_simps)
qed

section \<open>A new marker\<close>

lemma find_new_ends: "\<exists>r. find_new hbsz m R2 R1 (hbsz - 4 * of_nat k) = Some r"
proof (induction k arbitrary: R1)
  case 0
  then show ?case by (subst find_new.simps) simp
next
  case (Suc k)
  have "hbsz - 4 * of_nat (Suc k) + 4 = hbsz - 4 * of_nat k" by (simp add: algebra_simps)
  then show ?case using Suc by (subst find_new.simps) (auto simp: Let_def)
qed

lemma find_new_result:
  assumes "find_new hbsz m R2 R1 (hbsz - 4 * of_nat k) = Some (Some (a, d))"
  shows "\<exists>j < k. a = R1 - 4 * of_nat j \<and> mem m a = 0 \<and> d = marker_dist R2 a \<and> dist_ok d"
  using assms
proof (induction k arbitrary: R1)
  case 0
  then show ?case by (subst (asm) find_new.simps) simp
next
  case (Suc k)
  define R6 where "R6 = hbsz - 4 * of_nat (Suc k)"
  have eq: "hbsz - 4 * of_nat k = R6 + 4" by (simp add: R6_def algebra_simps)
  have f: "find_new hbsz m R2 R1 R6 = Some (Some (a, d))" using Suc.prems by (simp only: R6_def)
  have "a = R1 \<and> mem m a = 0 \<and> d = marker_dist R2 a \<and> dist_ok d \<or>
      find_new hbsz m R2 R1 (R6 + 4) = Some (Some (a, d)) \<or> find_new hbsz m R2 (R1 - 4) (R6 + 4) = Some (Some (a, d))"
    using f by (subst (asm) find_new.simps) (simp add: Let_def split: if_splits, metis)
  then consider (here) "a = R1" "mem m a = 0" "d = marker_dist R2 a" "dist_ok d"
    | (same) "find_new hbsz m R2 R1 (hbsz - 4 * of_nat k) = Some (Some (a, d))"
    | (down) "find_new hbsz m R2 (R1 - 4) (hbsz - 4 * of_nat k) = Some (Some (a, d))"
    unfolding eq by blast
  then show ?case
  proof cases
    case here
    then show ?thesis by (intro exI [of _ 0]) simp
  next
    case same
    then show ?thesis using Suc.IH less_SucI by blast
  next
    case down
    then obtain j where "j < k" "a = R1 - 4 - 4 * of_nat j" "mem m a = 0 \<and> d = marker_dist R2 a \<and> dist_ok d"
      using Suc.IH by blast
    then show ?thesis by (intro exI [of _ "Suc j"]) (auto simp: algebra_simps)
  qed
qed

lemma find_new_first:
  assumes "mem m b = 0" and "0 < k" and "4 * of_nat k \<noteq> (0 :: u32)"
  shows "find_new (4 * of_nat k) m b b 0 = Some (Some (b, 0))"
  using assms by (subst find_new.simps) (simp add: marker_dist_def dist_ok_def)

lemma aligned_minus:
  assumes "4 dvd unat (b :: u32)"
  shows "4 dvd unat (b - 4 * of_nat j)"
proof -
  have "int 4 dvd int (unat b)" using assms by (simp only: int_dvd_int_iff)
  then have "4 dvd uint b" by simp
  moreover have "4 dvd uint (4 * of_nat j :: u32)" by (simp add: uint_word_ariths dvd_mod)
  ultimately have "4 dvd uint (b - 4 * of_nat j)" by (simp add: uint_word_ariths(2) dvd_mod)
  then have "int 4 dvd int (unat (b - 4 * of_nat j))" by simp
  then show ?thesis by (simp only: int_dvd_int_iff)
qed

text \<open>Stores away from a marker.\<close>

lemma marker_frame:
  assumes "mem m' a = mem m a"
  shows "ldrh a m' = ldrh a m" "next_marker a m' = next_marker a m" "block_size a m' = block_size a m"
  using assms by (simp_all add: ldrh_def next_marker_def ldrsh_def block_size_def)

lemma heap_vars_ne:
  assumes "a \<notin> heap_vars H"
  shows "a \<noteq> hstart_addr H" "a \<noteq> bstart_addr H" "a \<noteq> heap_remaining H" "a \<noteq> fsll_start H" "a \<noteq> fsll_end H"
    "a \<noteq> blist_size H" "hstart_addr H \<noteq> a" "bstart_addr H \<noteq> a" "heap_remaining H \<noteq> a" "fsll_start H \<noteq> a"
    "fsll_end H \<noteq> a" "blist_size H \<noteq> a"
  using assms by (auto simp: heap_vars_def)

lemma env_distinct:
  assumes "heap_env_ok H"
  shows "hstart_addr H \<noteq> bstart_addr H" "hstart_addr H \<noteq> heap_remaining H" "hstart_addr H \<noteq> fsll_start H"
    "hstart_addr H \<noteq> fsll_end H" "hstart_addr H \<noteq> blist_size H" "bstart_addr H \<noteq> heap_remaining H"
    "bstart_addr H \<noteq> fsll_start H" "bstart_addr H \<noteq> fsll_end H" "bstart_addr H \<noteq> blist_size H"
    "heap_remaining H \<noteq> fsll_start H" "heap_remaining H \<noteq> fsll_end H" "heap_remaining H \<noteq> blist_size H"
    "fsll_start H \<noteq> fsll_end H" "fsll_start H \<noteq> blist_size H" "fsll_end H \<noteq> blist_size H"
  using assms by (auto simp: heap_env_ok_def)

lemma free_bit: "bit FREE_HEADER_MASK n = (n = 15)"
proof -
  have f: "FREE_HEADER_MASK = push_bit 15 1" by simp
  show ?thesis by (simp only: f bit_push_bit_iff bit_1_iff) auto
qed

lemma size_half:
  assumes "unat sz < 0x8000"
  shows "sz AND 0xFFFF = sz" "sz AND NOT FREE_HEADER_MASK = sz" "sz AND FREE_HEADER_MASK = 0"
proof -
  have t: "take_bit 15 sz = sz"
    by (rule word_unat_eq_iff [THEN iffD2]) (use assms in \<open>simp add: take_bit_eq_mod unat_mod\<close>)
  have b: "\<not> bit sz n" if "15 \<le> n" for n using that arg_cong [OF t, of "\<lambda>x. bit x n"] by (simp add: bit_take_bit_iff)
  have b': "n < 16" if "bit sz n" for n using b [of n] that by (cases "n < 16") auto
  show "sz AND 0xFFFF = sz" unfolding half_masks by (rule bit_word_eqI) (auto simp: bit_simps dest: b')
  show "sz AND NOT FREE_HEADER_MASK = sz"
    using b [of 15] by (intro bit_word_eqI) (auto simp only: bit_and_iff bit_not_iff free_bit bit_0_eq possible_bit_word bot_apply bot_bool_def)
  show "sz AND FREE_HEADER_MASK = 0"
    using b [of 15] by (intro bit_word_eqI) (auto simp only: bit_and_iff bit_not_iff free_bit bit_0_eq possible_bit_word bot_apply bot_bool_def)
qed

lemma strh_zero_nonzero: "sz AND 0xFFFF \<noteq> 0 \<Longrightarrow> mem (strh_lo a sz m) a \<noteq> 0"
  using ldrh_strh_lo [of a sz m] by (auto simp: ldrh_def)

text \<open>
  What the routine does with the word it has found: the marker is linked behind the last one and the
  address of its block is the end of the blocks before it.
\<close>

definition linked :: "heap_env \<Rightarrow> u32 \<Rightarrow> u32 \<Rightarrow> u32 \<Rightarrow> mcu \<Rightarrow> mcu" where
  "linked H sz a d m = mem_store (fsll_end H) a (strh_hi (mem m (fsll_end H)) d (strh_lo a sz m))"

lemma linked_chain:
  assumes env: "heap_env_ok H" and l: "heap_list H m as" and a: "mem m a = 0" "4 dvd unat a" "a \<notin> heap_vars H"
    and d: "d = marker_dist (mem m (fsll_end H)) a" "dist_ok d" and first: "as = [] \<longrightarrow> a = mem m (bstart_addr H)"
    and sz: "0 < sz" "unat sz < 0x8000"
  shows "chain (linked H sz a d m) (as @ [a]) \<and> distinct (as @ [a]) \<and> ldrh a (linked H sz a d m) = sz \<and>
    (\<forall>x \<in> set as. ldrh x (linked H sz a d m) = ldrh x m)"
proof -
  let ?m = "linked H sz a d m" and ?e = "mem m (fsll_end H)"
  have nin: "a \<notin> set as" using l a(1) by (auto simp: heap_list_def ldrh_def)
  note v = heap_vars_ne [OF a(3)]
  show ?thesis
  proof (cases as rule: rev_cases)
    case Nil
    then have e: "?e = a" using l first by (simp add: heap_list_def)
    have "d = 0" by (simp add: d(1) e marker_dist_def)
    have "ldrh a ?m = ldrh a (strh_hi a d (strh_lo a sz m))"
      using v by (intro marker_frame) (simp add: linked_def e mem_store_def)
    also have "\<dots> = sz" using sz(2) by (simp only: ldrh_strh_hi ldrh_strh_lo size_half)
    finally have s: "ldrh a ?m = sz" .
    with Nil show ?thesis by simp
  next
    case (snoc xs z)
    have e: "?e = z" using l snoc by (simp add: heap_list_def)
    have z: "z \<notin> heap_vars H" "4 dvd unat z" "z \<noteq> a" "z \<notin> set xs" using l snoc nin by (auto simp: heap_list_def)
    note vz = heap_vars_ne [OF z(1)]
    have ma: "mem ?m a = mem (strh_lo a sz m) a" using v z(3) by (simp add: linked_def e mem_store_def mem_strh)
    have s: "ldrh a ?m = sz"
      using marker_frame(1) [OF ma] sz(2) by (simp only: ldrh_strh_lo size_half)
    have mz: "mem ?m z = mem (strh_hi z d m) z" using vz z(3) by (simp add: linked_def e mem_store_def mem_strh)
    have hz: "ldrh z ?m = ldrh z m" using marker_frame(1) [OF mz] by (simp add: ldrh_strh_hi)
    have nz: "next_marker z ?m = a"
      using marker_frame(2) [OF mz] next_strh_hi [OF z(2) a(2)] d by (simp add: e)
    have x: "mem ?m x = mem m x" if "x \<in> set xs" for x
    proof -
      have "x \<notin> heap_vars H" "x \<noteq> a" "x \<noteq> z" using that l snoc nin z(4) by (auto simp: heap_list_def)
      then show ?thesis using heap_vars_ne [of x H] by (simp add: linked_def e mem_store_def mem_strh)
    qed
    have "chain ?m (xs @ [z]) = chain m (xs @ [z])" by (intro chain_cong marker_frame(2) x) simp
    then have c: "chain ?m (as @ [a])" using l snoc nz by (simp add: heap_list_def chain_append)
    have "distinct (as @ [a])" using l nin by (simp add: heap_list_def)
    moreover have "ldrh y ?m = ldrh y m" if "y \<in> set as" for y
    proof (cases "y = z")
      case False
      then have "y \<in> set xs" using that snoc by simp
      then show ?thesis by (rule marker_frame(1) [OF x])
    qed (simp add: hz)
    ultimately show ?thesis using c s by blast
  qed
qed

text \<open>
  The bookkeeping region: the words the search for a new marker can reach. Its number of words is
  a quarter of \<open>HEAP_BOOKEEPING_SIZE\<close>.
\<close>

definition region_ok :: "'z params_scheme \<Rightarrow> heap_env \<Rightarrow> mcu \<Rightarrow> bool" where
  "region_ok P H m \<longleftrightarrow> 0 < HEAP_BOOKEEPING_SIZE P \<and> HEAP_BOOKEEPING_SIZE P < 65536 \<and> 4 dvd HEAP_BOOKEEPING_SIZE P \<and>
     4 dvd unat (mem m (bstart_addr H)) \<and>
     (\<forall>j \<le> HEAP_BOOKEEPING_SIZE P. mem m (bstart_addr H) - 4 * of_nat j \<notin> heap_vars H)"

definition region :: "'z params_scheme \<Rightarrow> heap_env \<Rightarrow> mcu \<Rightarrow> u32 set" where
  "region P H m = (\<lambda>j. mem m (bstart_addr H) - 4 * of_nat j) ` {..HEAP_BOOKEEPING_SIZE P}"

text \<open>A list of markers grows inside the region, and its last marker has no successor.\<close>

definition grows :: "'z params_scheme \<Rightarrow> heap_env \<Rightarrow> mcu \<Rightarrow> u32 list \<Rightarrow> mcu \<Rightarrow> u32 list \<Rightarrow> bool" where
  "grows P H m as m' as' \<longleftrightarrow> set as' \<subseteq> set as \<union> region P H m \<and>
     ((as \<noteq> [] \<longrightarrow> ldrsh (last as) m = 0) \<longrightarrow> (as' \<noteq> [] \<longrightarrow> ldrsh (last as') m' = 0))"

lemma add_new_cases:
  assumes env: "heap_env_ok H" and l: "heap_list H m as" and r: "region_ok P H m"
    and sz: "0 < sz" "unat sz < 0x8000" and len: "length as < 65536"
  obtains (full) "add_new_allocated_marker P H sz m = Some (0, m)" "as \<noteq> []"
  | (new) a m' where "add_new_allocated_marker P H sz m = Some (mem m (hstart_addr H) + sizes m as, m')"
      "heap_list H m' (as @ [a])" "ldrh a m' = sz" "\<And>x. x \<in> set as \<Longrightarrow> ldrh x m' = ldrh x m"
      "mem m' (hstart_addr H) = mem m (hstart_addr H)" "mem m' (bstart_addr H) = mem m (bstart_addr H)"
      "mem m' (heap_remaining H) = mem m (heap_remaining H)" "grows P H m as m' (as @ [a])"
proof -
  let ?b = "mem m (bstart_addr H)"
  obtain k where k: "HEAP_BOOKEEPING_SIZE P = 4 * k" using r by (auto simp: region_ok_def elim: dvdE)
  have hb: "of_nat (HEAP_BOOKEEPING_SIZE P) = (4 * of_nat k :: u32)" by (simp add: k)
  let ?f = "find_new (4 * of_nat k) m (mem m (fsll_end H)) ?b 0"
  have z: "4 * of_nat k - 4 * of_nat k = (0 :: u32)" by simp
  obtain q where q: "?f = Some q" using find_new_ends [of "4 * of_nat k" m "mem m (fsll_end H)" ?b k] unfolding z by blast
  have empty: "q = Some (?b, 0)" if "as = []"
  proof -
    have e: "mem m ?b = 0" "mem m (fsll_end H) = ?b" using l that by (simp_all add: heap_list_def)
    have "0 < k" "k < 65536" using r k by (simp_all add: region_ok_def)
    then have "4 * of_nat k \<noteq> (0 :: u32)" by (simp add: word_unat_eq_iff unat_word_ariths unat_of_nat take_bit_eq_mod)
    from find_new_first [OF e(1) \<open>0 < k\<close> this] q show ?thesis by (simp add: e(2))
  qed
  show thesis
  proof (cases q)
    case None
    with empty have "as \<noteq> []" by auto
    with None q show thesis by (intro full) (simp_all add: add_new_allocated_marker_def hb)
  next
    case (Some ad)
    then obtain a d where ad: "q = Some (a, d)" by (cases ad) simp
    obtain j where j: "j < k" "a = ?b - 4 * of_nat j" and a: "mem m a = 0" "d = marker_dist (mem m (fsll_end H)) a" "dist_ok d"
      using find_new_result [of "4 * of_nat k" m "mem m (fsll_end H)" ?b k a d] q ad unfolding z by blast
    have av: "a \<notin> heap_vars H" "4 dvd unat a"
      using r j k by (auto simp: region_ok_def j(2) intro: aligned_minus)
    have first: "as = [] \<longrightarrow> a = ?b" using empty ad by auto
    define m3 where "m3 = linked H sz a d m"
    note lc = linked_chain [OF env l a(1) av(2,1) a(2,3) first sz, folded m3_def]
    have ev: "mem m (fsll_end H) \<notin> heap_vars H"
      using l first av(1) last_in_set [of as] by (cases "as = []") (auto simp: heap_list_def)
    note d = env_distinct [OF env] heap_vars_ne [OF av(1)] heap_vars_ne [OF ev]
    have v3: "mem m3 (fsll_end H) = a" "mem m3 (fsll_start H) = ?b" "mem m3 (bstart_addr H) = ?b"
      "mem m3 (hstart_addr H) = mem m (hstart_addr H)" "mem m3 (blist_size H) = mem m (blist_size H)"
      "mem m3 (heap_remaining H) = mem m (heap_remaining H)"
      using l d d [symmetric] by (simp_all add: m3_def linked_def mem_store_def mem_strh heap_list_def)
    have hd: "hd (as @ [a]) = ?b" using l first by (cases as) (auto simp: heap_list_def)
    have sum: "sizes m3 as = sizes m as"
      using lc by (auto simp: sizes_def block_size_def intro!: arg_cong [of _ _ sum_list])
    define m' where "m' = mem_store (blist_size H) (mem m3 (blist_size H) + 1) m3"
    have add: "add_new_allocated_marker P H sz m = Some (mem m (hstart_addr H) + sizes m as, m')"
      using q ad block_addr_chain [of m3 as a "mem m (hstart_addr H)"] lc
      by (simp add: add_new_allocated_marker_def hb Let_def linked_def [symmetric] m3_def [symmetric] v3 hd sum m'_def)
    have x: "mem m' y = mem m3 y" if "y \<notin> heap_vars H" for y
      using heap_vars_ne [OF that] by (simp add: m'_def mem_store_def)
    have nv: "y \<notin> heap_vars H" "4 dvd unat y" if "y \<in> set (as @ [a])" for y using that l av by (auto simp: heap_list_def)
    have hx: "ldrh y m' = ldrh y m3" if "y \<in> set (as @ [a])" for y by (rule marker_frame(1) [OF x [OF nv(1) [OF that]]])
    have ch: "chain m' (as @ [a])"
      using lc chain_cong [of "as @ [a]" m' m3] marker_frame(2) [OF x [OF nv(1)]] by (auto dest: in_set_butlastD)
    have v': "mem m' (fsll_end H) = a" "mem m' (fsll_start H) = ?b" "mem m' (bstart_addr H) = ?b"
      "mem m' (hstart_addr H) = mem m (hstart_addr H)" "mem m' (heap_remaining H) = mem m (heap_remaining H)"
      "mem m' (blist_size H) = mem m (blist_size H) + 1"
      using d d [symmetric] by (simp_all add: m'_def mem_store_def v3)
    have "unat (mem m (blist_size H) + 1) = Suc (length as)"
      using l len by (simp add: heap_list_def unat_word_ariths)
    moreover have "ldrh y m' \<noteq> 0" if "y \<in> set (as @ [a])" for y
      using hx [OF that] lc l sz(1) that by (auto simp: heap_list_def)
    ultimately have hl: "heap_list H m' (as @ [a])"
      using ch lc nv hd by (simp add: heap_list_def v')
    have ma: "mem m a = 0 \<longrightarrow> ldrsh a (strh_lo a sz m) = 0" unfolding ldrsh_strh_lo by (simp add: ldrsh_def)
    have "ldrsh a m3 = 0"
    proof (cases "mem m (fsll_end H) = a")
      case True
      then have "ldrsh a m3 = ldrsh a (strh_hi a d (strh_lo a sz m))"
        using heap_vars_ne [OF av(1)] by (simp add: m3_def linked_def ldrsh_def mem_store_def)
      then show ?thesis using True a(3) unfolding ldrsh_strh_hi [OF a(3)] by (simp add: a(2) marker_dist_def)
    next
      case False
      then have "ldrsh a m3 = ldrsh a (strh_lo a sz m)"
        using heap_vars_ne [OF av(1)] by (simp add: m3_def linked_def ldrsh_def mem_store_def mem_strh)
      then show ?thesis using ma a(1) by simp
    qed
    then have la: "ldrsh a m' = 0" using x [OF av(1)] by (simp add: ldrsh_def)
    have gr: "grows P H m as m' (as @ [a])"
      using j k la by (auto simp: grows_def region_def)
    show thesis
    proof (rule new [OF add hl])
      show "ldrh a m' = sz" using hx [of a] lc by simp
      show "ldrh y m' = ldrh y m" if "y \<in> set as" for y using hx [of y] lc that by simp
    qed (simp_all add: v' gr)
  qed
qed

end
