(* ===== verification/HeapAlloc.thy ===== *)
theory HeapAlloc
  imports HeapInv
begin

text \<open>
  Allocation against an abstract specification: the heap as the list of its blocks, each with its
  size and whether it is free, one after the other from the start of the heap.
\<close>

section \<open>The specification\<close>

type_synonym block = "u32 \<times> bool"

definition total_size :: "block list \<Rightarrow> u32" where
  "total_size bs = sum_list (map fst bs)"

definition fits :: "u32 \<Rightarrow> block \<Rightarrow> bool" where
  "fits sz b \<longleftrightarrow> snd b \<and> sz \<le> fst b"

text \<open>
  First fit: the first free block that is large enough is used, split when a marker for the
  rest can be had; otherwise a block is added at the end, or the allocation fails.
\<close>

inductive alloc_spec :: "u32 \<Rightarrow> u32 \<Rightarrow> block list \<Rightarrow> u32 \<Rightarrow> block list \<Rightarrow> bool" for h sz where
  split: "\<forall>b \<in> set xs. \<not> fits sz b \<Longrightarrow> sz < n \<Longrightarrow>
    alloc_spec h sz (xs @ (n, True) # ys) (h + total_size xs) (xs @ (sz, False) # (n - sz, True) # ys)"
| whole: "\<forall>b \<in> set xs. \<not> fits sz b \<Longrightarrow> sz \<le> n \<Longrightarrow>
    alloc_spec h sz (xs @ (n, True) # ys) (h + total_size xs) (xs @ (n, False) # ys)"
| append: "\<forall>b \<in> set bs. \<not> fits sz b \<Longrightarrow> alloc_spec h sz bs (h + total_size bs) (bs @ [(sz, False)])"
| none: "\<forall>b \<in> set bs. \<not> fits sz b \<Longrightarrow> alloc_spec h sz bs 0 bs"

section \<open>Markers as blocks\<close>

definition blk :: "mcu \<Rightarrow> u32 \<Rightarrow> block" where
  "blk m a = (block_size a m, ldrh a m AND FREE_HEADER_MASK \<noteq> 0)"

lemma block_size_take: "block_size a m = take_bit 15 (mem m a)"
  unfolding block_size_def ldrh_def half_masks
  by (intro bit_word_eqI) (auto simp only: bit_and_iff bit_not_iff bit_mask_iff free_bit bit_take_bit_iff possible_bit_word)

lemma block_size_bound: "unat (block_size a m) < 0x8000"
  unfolding block_size_take by (simp add: take_bit_eq_mod unat_mod)

lemma sint_small:
  assumes "unat (x :: u32) < 0x8000"
  shows "sint x = int (unat x)"
proof -
  have "int (unat x) < 0x8000" using assms by linarith
  then have "signed_take_bit 31 (uint x) = uint x" by (intro signed_take_bit_int_eq_self) (simp_all add: order_trans [OF _ unsigned_greater_eq])
  then show ?thesis by (simp add: sint_uint)
qed

lemma blk_cong: "mem m' a = mem m a \<Longrightarrow> blk m' a = blk m a"
  by (simp add: blk_def ldrh_def block_size_def)

lemma blk_ldrh: "ldrh a m' = ldrh a m \<Longrightarrow> blk m' a = blk m a"
  by (simp add: blk_def block_size_def)

lemma blk_used: "ldrh a m = sz \<Longrightarrow> unat sz < 0x8000 \<Longrightarrow> blk m a = (sz, False)"
  unfolding blk_def block_size_def by (simp only: size_half) simp

lemma blk_free: "ldrh a m = sz OR FREE_HEADER_MASK \<Longrightarrow> unat sz < 0x8000 \<Longrightarrow> blk m a = (sz, True)"
proof -
  assume l: "ldrh a m = sz OR FREE_HEADER_MASK" and s: "unat sz < 0x8000"
  have "(sz OR FREE_HEADER_MASK) AND NOT FREE_HEADER_MASK = sz AND NOT FREE_HEADER_MASK"
    "(sz OR FREE_HEADER_MASK) AND FREE_HEADER_MASK = FREE_HEADER_MASK"
    by (intro bit_word_eqI; auto simp only: bit_and_iff bit_or_iff bit_not_iff)+
  then show ?thesis unfolding blk_def block_size_def l by (simp only: size_half [OF s]) simp
qed

lemma free_half: "unat sz < 0x8000 \<Longrightarrow> (sz OR FREE_HEADER_MASK) AND 0xFFFF = sz OR FREE_HEADER_MASK"
proof -
  assume s: "unat sz < 0x8000"
  have "(sz OR FREE_HEADER_MASK) AND 0xFFFF = sz AND 0xFFFF OR FREE_HEADER_MASK"
    unfolding half_masks by (intro bit_word_eqI) (auto simp only: bit_and_iff bit_or_iff free_bit bit_mask_iff possible_bit_word)
  then show ?thesis by (simp only: size_half [OF s])
qed

lemma sizes_total: "sizes m as = total_size (map (blk m) as)"
  by (simp add: sizes_def total_size_def blk_def comp_def)

text \<open>The walk finds the first marker whose block fits.\<close>

lemma find_free_chain:
  assumes "chain m as" and "unat sz < 0x8000"
  shows "case find_free (length as) sz m (hd as) R5 of
      None \<Rightarrow> \<forall>a \<in> set as. \<not> fits sz (blk m a)
    | Some (r, R) \<Rightarrow> \<exists>xs ys. as = xs @ r # ys \<and> R = R5 + sizes m xs \<and> fits sz (blk m r) \<and>
        (\<forall>x \<in> set xs. \<not> fits sz (blk m x))"
  using assms(1)
proof (induction as arbitrary: R5)
  case (Cons a as)
  have f: "(ldrh a m AND FREE_HEADER_MASK \<noteq> 0 \<and> \<not> sint (ldrh a m AND NOT FREE_HEADER_MASK) < sint sz) = fits sz (blk m a)"
    using block_size_bound [of a m] assms(2)
    by (simp add: fits_def blk_def block_size_def sint_small word_le_def not_less)
  show ?case
  proof (cases "fits sz (blk m a)")
    case True
    then have "find_free (length (a # as)) sz m (hd (a # as)) R5 = Some (a, R5)" using f by (simp add: Let_def)
    moreover have "a # as = [] @ a # as" "R5 = R5 + sizes m []" by (simp_all add: sizes_def)
    ultimately show ?thesis using True by fastforce
  next
    case False
    have n: "next_marker a m = hd as" if "as \<noteq> []" using Cons.prems that by (cases as) auto
    have c: "chain m as" using Cons.prems by (cases as) auto
    have eq: "find_free (length (a # as)) sz m (hd (a # as)) R5 = find_free (length as) sz m (hd as) (R5 + block_size a m)"
      using False f n by (cases "as = []") (auto simp: Let_def block_size_def)
    show ?thesis
    proof (cases "find_free (length as) sz m (hd as) (R5 + block_size a m)")
      case None
      with Cons.IH [OF c, of "R5 + block_size a m"] False show ?thesis by (simp only: eq) simp
    next
      case (Some rR)
      obtain r R where rR: "rR = (r, R)" by (cases rR)
      from Cons.IH [OF c, of "R5 + block_size a m"] Some rR obtain xs ys where
        x: "as = xs @ r # ys" "R = R5 + block_size a m + sizes m xs" "fits sz (blk m r)" "\<forall>x \<in> set xs. \<not> fits sz (blk m x)"
        by auto
      have "a # as = (a # xs) @ r # ys" "R = R5 + sizes m (a # xs)" using x by (simp_all add: sizes_def)
      with x(3,4) False show ?thesis unfolding eq Some rR by (simp, metis set_ConsD)
    qed
  qed
qed simp

text \<open>The search for an empty word.\<close>

lemma find_empty_result:
  assumes "find_empty k m b = Some a"
  shows "\<exists>j \<le> k. a = b - 4 * of_nat j \<and> mem m a = 0"
  using assms
proof (induction k)
  case (Suc k)
  have "push_bit 2 (of_nat (Suc k)) = (4 * of_nat (Suc k) :: u32)" by (simp add: push_bit_eq_mult)
  with Suc show ?case by (auto simp: Let_def simp del: of_nat_Suc split: if_splits intro: le_SucI)
qed simp

section \<open>A free block is used\<close>

lemma last_used_split: "as = xs @ r # ys \<Longrightarrow> snd (blk m r) \<Longrightarrow> \<not> snd (blk m (last as)) \<Longrightarrow> ys \<noteq> []"
  by (cases ys) auto

text \<open>Only the sizes of the blocks of a list of markers change.\<close>

lemma heap_list_cong:
  assumes l: "heap_list H m as" and x: "\<And>a. a \<in> set as \<Longrightarrow> ldrsh a m' = ldrsh a m \<and> ldrh a m' \<noteq> 0"
    and v: "\<And>a. a \<in> heap_vars H \<Longrightarrow> mem m' a = mem m a" and b: "as = [] \<Longrightarrow> mem m' = mem m"
  shows "heap_list H m' as"
proof -
  have "chain m' as = chain m as" using x by (intro chain_cong) (auto simp: next_marker_def dest: in_set_butlastD)
  moreover have "mem m' (fsll_start H) = mem m (fsll_start H)" "mem m' (fsll_end H) = mem m (fsll_end H)"
    "mem m' (bstart_addr H) = mem m (bstart_addr H)" "mem m' (blist_size H) = mem m (blist_size H)"
    using v by (simp_all add: heap_vars_def)
  ultimately show ?thesis using l x b by (cases "as = []") (auto simp: heap_list_def)
qed

lemma use_whole:
  assumes l: "heap_list H m as" and as: "as = xs @ r # ys" and v: "0 < v" "unat v < 0x8000"
  shows "heap_list H (strh_lo r v m) as \<and> map (blk (strh_lo r v m)) as = map (blk m) xs @ (v, False) # map (blk m) ys"
proof -
  let ?m = "strh_lo r v m"
  have d: "r \<notin> set xs" "r \<notin> set ys" "r \<notin> heap_vars H" using l as by (auto simp: heap_list_def)
  have r: "ldrh r ?m = v" using v(2) by (simp only: ldrh_strh_lo size_half)
  have o: "mem ?m a = mem m a" if "a \<noteq> r" for a using that by (simp add: mem_strh)
  have "heap_list H ?m as"
  proof (rule heap_list_cong [OF l])
    show "ldrsh a ?m = ldrsh a m \<and> ldrh a ?m \<noteq> 0" if "a \<in> set as" for a
    proof (cases "a = r")
      case True
      then show ?thesis using r v(1) by (simp add: ldrsh_strh_lo)
    next
      case False
      then show ?thesis using heap_listD(1) [OF l that] marker_frame(1) [OF o] by (simp add: ldrsh_def o)
    qed
    show "mem ?m a = mem m a" if "a \<in> heap_vars H" for a using that d(3) by (intro o) auto
  qed (use as in simp)
  moreover have "blk ?m a = blk m a" if "a \<in> set xs \<union> set ys" for a
    using that d by (intro blk_cong o) auto
  ultimately show ?thesis using blk_used [OF r v(2)] by (simp add: as)
qed

lemma insert_marker:
  assumes l: "heap_list H m (xs @ r # ys)" and ys: "ys \<noteq> []" and len: "Suc (length xs + length ys) < 65536"
    and e: "mem m e = 0" "4 dvd unat e" "e \<notin> heap_vars H"
    and new: "next_marker e m' = hd ys" "ldrh e m' \<noteq> 0" "next_marker r m' = e" "ldrh r m' \<noteq> 0"
    and x: "\<And>a. a \<in> set xs \<union> set ys \<Longrightarrow> mem m' a = mem m a"
    and v: "\<And>a. a \<in> heap_vars H - {blist_size H} \<Longrightarrow> mem m' a = mem m a"
      "mem m' (blist_size H) = mem m (blist_size H) + 1" and env: "heap_env_ok H"
  shows "heap_list H m' (xs @ r # e # ys)"
proof -
  note d = env_distinct [OF env]
  have nin: "e \<notin> set (xs @ r # ys)" using heap_listD(2) [OF l] e(1) by blast
  have l': "chain m (xs @ [r])" "chain m (r # ys)" "distinct (xs @ r # ys)"
    using l chain_mid [of m xs r ys] by (auto simp: heap_list_def)
  have "chain m ys" using l'(2) by (cases ys) auto
  then have "chain m' ys" using x by (subst chain_cong [of _ m' m]) (auto dest: in_set_butlastD intro: marker_frame)
  then have c2: "chain m' (r # e # ys)" using ys new by (cases ys) auto
  have c1: "chain m' (xs @ [r])" using l'(1) x by (subst chain_cong [of _ m' m]) (auto intro: marker_frame)
  have c: "chain m' (xs @ r # e # ys)" using c1 c2 by (subst chain_mid) simp
  have vars: "mem m' (fsll_start H) = mem m (fsll_start H)" "mem m' (fsll_end H) = mem m (fsll_end H)"
    "mem m' (bstart_addr H) = mem m (bstart_addr H)"
    using v(1) d by (auto simp: heap_vars_def)
  have "unat (mem m (blist_size H)) = Suc (length xs + length ys)" using l by (simp add: heap_list_def)
  then have "unat (mem m (blist_size H) + 1) = Suc (Suc (length xs + length ys))" using len by (simp add: unat_word_ariths)
  moreover have "ldrh a m' \<noteq> 0 \<and> 4 dvd unat a \<and> a \<notin> heap_vars H" if "a \<in> set (xs @ r # e # ys)" for a
    using that l new e(2,3) marker_frame(1) [OF x] by (auto simp: heap_list_def)
  moreover have "hd (xs @ r # e # ys) = hd (xs @ r # ys)" "last (xs @ r # e # ys) = last (xs @ r # ys)"
    using ys by (cases xs; simp)+
  ultimately show ?thesis using c l' nin l by (auto simp: heap_list_def vars v(2))
qed

lemma split_fail: "mem m e = 0 \<Longrightarrow> mem (mem_store e 0 (strh_hi e u (strh_lo e v m))) = mem m"
  by (simp add: mem_store_def mem_strh fun_eq_iff)

text \<open>The rest of a block, when it is not the last one.\<close>

lemma split_cases:
  assumes env: "heap_env_ok H" and l: "heap_list H m (xs @ r # ys)" and ys: "ys \<noteq> []" and reg: "region_ok P H m"
    and len: "Suc (length xs + length ys) < 65536"
    and b: "blk m r = (n, True)" and sz: "0 < sz" "sz \<le> n"
  obtains (whole) m1 where "split_marker P H r (n - sz) m = (n - sz, m1)" "mem m1 = mem m" 
  | (split) e m1 where "split_marker P H r (n - sz) m = (0, m1)" "sz < n"
      "heap_list H (strh_lo r sz m1) (xs @ r # e # ys)"
      "map (blk (strh_lo r sz m1)) (xs @ r # e # ys) = map (blk m) xs @ (sz, False) # (n - sz, True) # map (blk m) ys"
      "\<And>a. a \<in> heap_vars H - {blist_size H} \<Longrightarrow> mem (strh_lo r sz m1) a = mem m a"
      "grows P H m (xs @ r # ys) (strh_lo r sz m1) (xs @ r # e # ys)"
proof (cases "n - sz = 0 \<or> find_empty (HEAP_BOOKEEPING_SIZE P) m (mem m (bstart_addr H)) = None")
  case True
  then have "split_marker P H r (n - sz) m = (n - sz, m)" by (auto simp: split_marker_def)
  then show ?thesis by (rule whole) simp
next
  case False
  then obtain e where fe: "find_empty (HEAP_BOOKEEPING_SIZE P) m (mem m (bstart_addr H)) = Some e" by auto
  from find_empty_result [OF fe] reg have e: "mem m e = 0" "4 dvd unat e" "e \<notin> heap_vars H"
    by (auto simp: region_ok_def intro: aligned_minus)
  have er: "e \<in> region P H m" using find_empty_result [OF fe] by (auto simp: region_def)
  let ?d = "marker_dist e r + ldrsh r m" and ?u = "marker_dist r e"
  define m1 where "m1 = strh_hi e ?d (strh_lo e (n - sz OR FREE_HEADER_MASK) m)"
  have sm: "split_marker P H r (n - sz) m = (if \<not> dist_ok ?d then (n - sz, m) else if \<not> dist_ok ?u then (n - sz, mem_store e 0 m1)
      else (0, mem_store (blist_size H) (mem (strh_hi r ?u m1) (blist_size H) + 1) (strh_hi r ?u m1)))"
    using False fe by (simp add: split_marker_def Let_def m1_def)
  show ?thesis
  proof (cases "dist_ok ?d \<and> dist_ok ?u")
    case False
    show ?thesis
    proof (cases "dist_ok ?d")
      case True
      then have "split_marker P H r (n - sz) m = (n - sz, mem_store e 0 m1)" using sm False by simp
      then show ?thesis by (rule whole) (simp add: m1_def split_fail [OF e(1)])
    next
      case False
      then have "split_marker P H r (n - sz) m = (n - sz, m)" using sm by simp
      then show ?thesis by (rule whole) simp
    qed
  next
    case True
    define m2 where "m2 = mem_store (blist_size H) (mem (strh_hi r ?u m1) (blist_size H) + 1) (strh_hi r ?u m1)"
    define m3 where "m3 = strh_lo r sz m2"
    have rl: "r \<in> set (xs @ r # ys)" by simp
    note r = heap_listD [OF l rl]
    have ner: "e \<noteq> r" using r(2) e(1) by auto
    note v = heap_vars_ne [OF e(3)] heap_vars_ne [OF r(4)]
    have nb: "unat n < 0x8000" using block_size_bound [of r m] b by (simp add: blk_def)
    have le: "unat sz \<le> unat n" using sz(2) by (simp add: word_le_nat_alt)
    then have sb: "unat sz < 0x8000" "unat (n - sz) < 0x8000" using nb by (simp_all add: unat_sub_if')
    have me: "mem m3 e = mem m1 e" using ner v by (simp add: m3_def m2_def mem_store_def mem_strh)
    have he: "ldrh e m3 = n - sz OR FREE_HEADER_MASK"
      using marker_frame(1) [OF me] by (simp only: m1_def ldrh_strh_hi ldrh_strh_lo free_half [OF sb(2)])
    have "ldrsh e m3 = ?d" using me True by (simp only: ldrsh_def) (simp only: m1_def ldrsh_strh_hi ldrsh_def [symmetric])
    then have "next_marker e m3 = e + (push_bit 2 (marker_dist e r) + push_bit 2 (ldrsh r m))"
      by (simp add: next_marker_def push_bit_add)
    also have "\<dots> = next_marker r m"
      using dist_exact [OF aligned_diff [OF e(2) r(3)]] by (simp add: next_marker_def add.assoc [symmetric])
    also have "\<dots> = hd ys" using l ys chain_mid [of m xs r ys] by (cases ys) (auto simp: heap_list_def)
    finally have ne: "next_marker e m3 = hd ys" .
    have mr: "mem m3 r = mem (strh_lo r sz (strh_hi r ?u m)) r"
      using ner v by (simp add: m3_def m2_def m1_def mem_store_def mem_strh)
    have hr: "ldrh r m3 = sz" using marker_frame(1) [OF mr] by (simp only: ldrh_strh_lo size_half [OF sb(1)])
    have "ldrsh r m3 = ?u" using mr True by (simp only: ldrsh_def) (simp only: ldrsh_def [symmetric] ldrsh_strh_lo ldrsh_strh_hi)
    then have nr: "next_marker r m3 = e" using dist_exact [OF aligned_diff [OF r(3) e(2)]] by (simp add: next_marker_def)
    have x: "mem m3 a = mem m a" if "a \<in> set xs \<union> set ys" for a
    proof -
      have "a \<in> set (xs @ r # ys)" using that by auto
      from heap_listD [OF l this] heap_vars_ne [of a H] have "a \<noteq> e" "a \<noteq> blist_size H" using e(1) by auto
      moreover have "a \<noteq> r" using l that by (auto simp: heap_list_def)
      ultimately show ?thesis by (simp add: m3_def m2_def m1_def mem_store_def mem_strh)
    qed
    have vars: "mem m3 a = mem m a" if "a \<in> heap_vars H - {blist_size H}" for a
      using that e(3) r(4) by (auto simp: m3_def m2_def m1_def mem_store_def mem_strh)
    have bl: "mem m3 (blist_size H) = mem m (blist_size H) + 1"
      using v by (simp add: m3_def m2_def m1_def mem_store_def mem_strh)
    have "ldrh e m3 \<noteq> 0" "ldrh r m3 \<noteq> 0" using sz(1) by (simp_all add: he hr or_eq_0_iff)
    then have "heap_list H m3 (xs @ r # e # ys)"
      by (intro insert_marker [OF l ys len e ne _ nr _ x vars bl env])
    moreover have "map (blk m3) (xs @ r # e # ys) = map (blk m) xs @ (sz, False) # (n - sz, True) # map (blk m) ys"
      using blk_used [OF hr sb(1)] blk_free [OF he sb(2)] blk_cong [OF x] by simp
    moreover have "split_marker P H r (n - sz) m = (0, m2)" using sm True by (simp add: m2_def)
    moreover have "sz < n" using \<open>\<not> (n - sz = 0 \<or> _)\<close> sz(2) by auto
    moreover have "grows P H m (xs @ r # ys) m3 (xs @ r # e # ys)"
      using er ys x [of "last ys"] by (auto simp: grows_def ldrsh_def)
    ultimately show ?thesis using vars unfolding m3_def by (intro split)
  qed
qed

section \<open>The search\<close>

text \<open>The heap between two calls: the list of markers, whose last one is in use.\<close>

definition heap_ok :: "'z params_scheme \<Rightarrow> heap_env \<Rightarrow> mcu \<Rightarrow> u32 list \<Rightarrow> bool" where
  "heap_ok P H m as \<longleftrightarrow> heap_env_ok H \<and> region_ok P H m \<and> heap_list H m as \<and> length as < 65535 \<and>
     (as \<noteq> [] \<longrightarrow> \<not> snd (blk m (last as)))"

lemma heap_list_mem: "mem m' = mem m \<Longrightarrow> heap_list H m' as = heap_list H m as"
proof -
  assume m: "mem m' = mem m"
  have "chain m' as = chain m as" by (intro chain_cong marker_frame(2)) (simp add: m)
  then show ?thesis by (simp add: heap_list_def ldrh_def m)
qed

lemma search_cases:
  assumes ok: "heap_ok P H m as" and ne: "as \<noteq> []" and sz: "0 < sz" "unat sz < 0x8000"
  obtains (none) "search_free_marker P H sz m = (0, m)" "\<forall>b \<in> set (map (blk m) as). \<not> fits sz b"
  | (used) xs r ys as' m' where "search_free_marker P H sz m = (mem m (hstart_addr H) + sizes m xs, m')"
      "as = xs @ r # ys" "heap_list H m' as'"
      "alloc_spec (mem m (hstart_addr H)) sz (map (blk m) as) (mem m (hstart_addr H) + sizes m xs) (map (blk m') as')"
      "last as' = last as" "as' \<noteq> []" "blk m' (last as) = blk m (last as)" "length as' \<le> Suc (length as)"
      "\<And>a. a \<in> heap_vars H - {blist_size H} \<Longrightarrow> mem m' a = mem m a" "grows P H m as m' as'"
proof -
  let ?h = "mem m (hstart_addr H)"
  have l: "heap_list H m as" and env: "heap_env_ok H" and reg: "region_ok P H m" and len: "length as < 65535"
    and lst: "\<not> snd (blk m (last as))"
    using ok ne by (auto simp: heap_ok_def)
  have start: "mem m (fsll_start H) = hd as" "unat (mem m (blist_size H)) = length as" "chain m as"
    using l ne by (auto simp: heap_list_def)
  note ff = find_free_chain [OF start(3) sz(2), of ?h]
  show thesis
  proof (cases "find_free (length as) sz m (hd as) ?h")
    case None
    with ff show thesis by (intro none) (simp_all add: search_free_marker_def start)
  next
    case (Some rR)
    obtain r R where rR: "rR = (r, R)" by (cases rR)
    obtain xs ys where as: "as = xs @ r # ys" "R = ?h + sizes m xs" and fit: "fits sz (blk m r)"
      and nf: "\<forall>x \<in> set xs. \<not> fits sz (blk m x)"
      using ff Some rR by auto
    obtain n where n: "blk m r = (n, True)" "sz \<le> n" using fit by (cases "blk m r") (auto simp: fits_def)
    have nb: "unat n < 0x8000" using block_size_bound [of r m] n(1) by (simp add: blk_def)
    have ys: "ys \<noteq> []" using last_used_split [OF as(1), of m] n(1) lst by simp
    have nf': "\<forall>b \<in> set (map (blk m) xs). \<not> fits sz b" using nf by simp
    have ne': "ldrh r m AND NOT FREE_HEADER_MASK = n" using n(1) by (simp add: blk_def block_size_def)
    have sr: "search_free_marker P H sz m = (R, strh_lo r (fst (split_marker P H r (n - sz) m) + sz) (snd (split_marker P H r (n - sz) m)))"
      unfolding search_free_marker_def start Some rR ne' [symmetric] by (simp add: split_beta)
    have l': "heap_list H m (xs @ r # ys)" and len': "Suc (length xs + length ys) < 65536" using l len as(1) by simp_all
    have tot: "total_size (map (blk m) xs) = sizes m xs" by (simp add: sizes_total)
    have rv: "r \<notin> heap_vars H" using heap_listD(4) [OF l', of r] by simp
    show thesis
    proof (rule split_cases [OF env l' ys reg len' n(1) sz(1) n(2)])
      fix m1
      assume s: "split_marker P H r (n - sz) m = (n - sz, m1)" and m1: "mem m1 = mem m"
      have b1: "blk m1 = blk m" using m1 by (intro ext blk_cong) simp
      have l1: "heap_list H m1 as" using l by (simp add: heap_list_mem [OF m1])
      have n0: "0 < n" using sz(1) n(2) by (rule order_less_le_trans)
      note u = use_whole [OF l1 as(1) n0 nb]
      have r1: "search_free_marker P H sz m = (?h + sizes m xs, strh_lo r n m1)" using sr s as(2) by simp
      have r2: "alloc_spec ?h sz (map (blk m) as) (?h + sizes m xs) (map (blk (strh_lo r n m1)) as)"
        using alloc_spec.whole [OF nf' n(2), of ?h "map (blk m) ys"]
        unfolding u [THEN conjunct2] b1 by (simp add: as(1) n(1) tot)
      have r3: "blk (strh_lo r n m1) (last as) = blk m (last as)"
        using u ys as(1) b1 by (auto simp: last_map dest: arg_cong [of _ _ last])
      have r4: "mem (strh_lo r n m1) a = mem m a" if "a \<in> heap_vars H - {blist_size H}" for a
        using that rv by (auto simp: mem_strh m1)
      have "ldrsh a (strh_lo r n m1) = ldrsh a m" for a
        using ldrsh_strh_lo [of r n m1] m1 by (cases "a = r") (auto simp: ldrsh_def mem_strh)
      then have r5: "grows P H m as (strh_lo r n m1) as" by (simp add: grows_def)
      show thesis by (rule used [OF r1 as(1) u [THEN conjunct1] r2 refl ne r3 _ r4 r5]) simp_all
    next
      fix e m1
      assume s: "split_marker P H r (n - sz) m = (0, m1)" and lt: "sz < n"
        and l2: "heap_list H (strh_lo r sz m1) (xs @ r # e # ys)"
        and b2: "map (blk (strh_lo r sz m1)) (xs @ r # e # ys) = map (blk m) xs @ (sz, False) # (n - sz, True) # map (blk m) ys"
        and v: "\<And>a. a \<in> heap_vars H - {blist_size H} \<Longrightarrow> mem (strh_lo r sz m1) a = mem m a"
        and gr: "grows P H m (xs @ r # ys) (strh_lo r sz m1) (xs @ r # e # ys)"
      have r1: "search_free_marker P H sz m = (?h + sizes m xs, strh_lo r sz m1)" using sr s as(2) by simp
      have r2: "alloc_spec ?h sz (map (blk m) as) (?h + sizes m xs) (map (blk (strh_lo r sz m1)) (xs @ r # e # ys))"
        unfolding b2 using alloc_spec.split [OF nf' lt, of ?h "map (blk m) ys"] by (simp add: as(1) n(1) tot)
      have r3: "blk (strh_lo r sz m1) (last as) = blk m (last as)"
        using b2 ys as(1) by (auto simp: last_map dest: arg_cong [of _ _ last])
      show thesis by (rule used [OF r1 as(1) l2 r2 _ _ r3 _ v gr [folded as(1)]]) (use ys as(1) in simp_all)
    qed
  qed
qed

end
