(* ===== verification/HeapProps.thy ===== *)
theory HeapProps
  imports HeapAlloc Demo
begin

text \<open>
  The allocation service refines first fit on the list of blocks, and what it hands out does not
  overlap any block in use.
\<close>

section \<open>The service\<close>

text \<open>No block lies beyond the end of the address space.\<close>

definition span :: "block list \<Rightarrow> nat" where
  "span bs = sum_list (map (unat \<circ> fst) bs)"

definition heap_fits :: "heap_env \<Rightarrow> mcu \<Rightarrow> u32 list \<Rightarrow> bool" where
  "heap_fits H m as \<longleftrightarrow> 0 < unat (mem m (hstart_addr H)) \<and>
     unat (mem m (hstart_addr H)) + span (map (blk m) as) < 2 ^ 32"

lemma unat_total: "unat h + span bs < 2 ^ 32 \<Longrightarrow> unat (h + total_size bs) = unat h + span bs"
proof (induction bs arbitrary: h)
  case (Cons b bs)
  have "unat (h + fst b) = unat h + unat (fst b)" using Cons.prems by (simp add: span_def unat_word_ariths)
  with Cons.IH [of "h + fst b"] Cons.prems show ?case by (simp add: span_def total_size_def add.assoc)
qed (simp add: span_def total_size_def)

lemma span_append [simp]: "span (xs @ ys) = span xs + span ys"
  by (simp add: span_def)

text \<open>The variable of the free bytes is no marker.\<close>

lemma remaining_frame:
  assumes "heap_list H m as" and "heap_env_ok H" and "region_ok P H m"
  shows "heap_list H (mem_store (heap_remaining H) v m) as"
    and "map (blk (mem_store (heap_remaining H) v m)) as = map (blk m) as"
proof -
  let ?m = "mem_store (heap_remaining H) v m"
  have x: "mem ?m a = mem m a" if "a \<in> set as" for a
    using heap_vars_ne [OF heap_listD(4) [OF assms(1) that]] by (simp add: mem_store_def)
  have "chain ?m as = chain m as" by (intro chain_cong marker_frame(2) x) (rule in_set_butlastD)
  moreover have "mem ?m (mem m (bstart_addr H)) = 0" if "as = []"
  proof -
    have "mem m (bstart_addr H) - 4 * of_nat 0 \<notin> heap_vars H" using assms(3) unfolding region_ok_def by blast
    then have "mem m (bstart_addr H) \<noteq> heap_remaining H" by (auto simp: heap_vars_def)
    then show ?thesis using assms(1) that by (simp add: heap_list_def mem_store_def)
  qed
  ultimately show "heap_list H ?m as"
    using assms(1) env_distinct [OF assms(2)] marker_frame(1) [OF x]
    by (auto simp: heap_list_def mem_store_def)
  show "map (blk ?m) as = map (blk m) as" using x by (auto intro: blk_cong)
qed

lemma heap_ok_D:
  assumes "heap_ok P H m as"
  shows "heap_env_ok H" "region_ok P H m" "heap_list H m as" "length as < 65535" "as \<noteq> [] \<Longrightarrow> \<not> snd (blk m (last as))"
  using assms by (simp_all add: heap_ok_def)

lemma region_cong: "mem m' (bstart_addr H) = mem m (bstart_addr H) \<Longrightarrow> region_ok P H m' = region_ok P H m"
  by (simp add: region_ok_def)

text \<open>Both routines together, as the service calls them.\<close>

definition allocate :: "'z params_scheme \<Rightarrow> heap_env \<Rightarrow> u32 \<Rightarrow> mcu \<Rightarrow> (u32 \<times> mcu) option" where
  "allocate P H sz m =
     (if mem m (blist_size H) = 0 then add_new_allocated_marker P H sz m
      else (let (a, m) = search_free_marker P H sz m in
        if a = 0 then add_new_allocated_marker P H sz m else Some (a, m)))"

lemma alloc_append:
  assumes ok: "heap_ok P H m as" and sz: "0 < sz" "unat sz < 0x8000"
    and nf: "\<forall>b \<in> set (map (blk m) as). \<not> fits sz b"
    and al: "allocate P H sz m = add_new_allocated_marker P H sz m"
  obtains a as' m' where "allocate P H sz m = Some (a, m')"
    "alloc_spec (mem m (hstart_addr H)) sz (map (blk m) as) a (map (blk m') as')" "heap_list H m' as'"
    "as' \<noteq> [] \<longrightarrow> \<not> snd (blk m' (last as'))" "mem m' (bstart_addr H) = mem m (bstart_addr H)"
    "mem m' (hstart_addr H) = mem m (hstart_addr H)" "mem m' (heap_remaining H) = mem m (heap_remaining H)"
    "grows P H m as m' as'"
proof -
  note k = heap_ok_D [OF ok]
  have len: "length as < 65536" using k(4) by simp
  show thesis
  proof (rule add_new_cases [OF k(1,3,2) sz len])
    assume "add_new_allocated_marker P H sz m = Some (0, m)"
    then have "allocate P H sz m = Some (0, m)" by (simp add: al)
    then show thesis
      by (rule that [of 0 m as]) (use k(3,5) alloc_spec.none [OF nf] in \<open>auto simp: grows_def\<close>)
  next
    fix a m'
    assume r: "add_new_allocated_marker P H sz m = Some (mem m (hstart_addr H) + sizes m as, m')"
      and l: "heap_list H m' (as @ [a])" and h: "ldrh a m' = sz" "\<And>x. x \<in> set as \<Longrightarrow> ldrh x m' = ldrh x m"
      and v: "mem m' (hstart_addr H) = mem m (hstart_addr H)" "mem m' (bstart_addr H) = mem m (bstart_addr H)"
        "mem m' (heap_remaining H) = mem m (heap_remaining H)" "grows P H m as m' (as @ [a])"
    have b: "blk m' a = (sz, False)" by (rule blk_used [OF h(1) sz(2)])
    have eqm: "map (blk m') (as @ [a]) = map (blk m) as @ [(sz, False)]" using b blk_ldrh [OF h(2)] by simp
    have s: "alloc_spec (mem m (hstart_addr H)) sz (map (blk m) as) (mem m (hstart_addr H) + sizes m as)
        (map (blk m') (as @ [a]))"
      unfolding eqm sizes_total by (rule alloc_spec.append [OF nf])
    have r': "allocate P H sz m = Some (mem m (hstart_addr H) + sizes m as, m')" by (simp add: al r)
    show thesis by (rule that [OF r' s l _ v(2,1,3,4)]) (simp add: b)
  qed
qed

lemma allocate_refines:
  assumes ok: "heap_ok P H m as" and fit: "heap_fits H m as" and sz: "0 < sz" "unat sz < 0x8000"
  obtains a as' m' where "allocate P H sz m = Some (a, m')"
    "alloc_spec (mem m (hstart_addr H)) sz (map (blk m) as) a (map (blk m') as')" "heap_list H m' as'"
    "as' \<noteq> [] \<longrightarrow> \<not> snd (blk m' (last as'))" "mem m' (bstart_addr H) = mem m (bstart_addr H)"
    "mem m' (hstart_addr H) = mem m (hstart_addr H)" "mem m' (heap_remaining H) = mem m (heap_remaining H)"
    "grows P H m as m' as'"
proof (cases "as = []")
  case True
  then have "unat (mem m (blist_size H)) = 0" using heap_ok_D(3) [OF ok] by (simp add: heap_list_def)
  then have al: "allocate P H sz m = add_new_allocated_marker P H sz m" by (simp add: allocate_def unat_eq_0)
  have nf: "\<forall>b \<in> set (map (blk m) as). \<not> fits sz b" using True by simp
  show thesis by (rule alloc_append [OF ok sz nf al]) (rule that)
next
  case False
  note k = heap_ok_D [OF ok]
  have "unat (mem m (blist_size H)) \<noteq> 0" using k(3) False by (simp add: heap_list_def)
  then have al: "allocate P H sz m = (let (a, m) = search_free_marker P H sz m in
      if a = 0 then add_new_allocated_marker P H sz m else Some (a, m))"
    by (auto simp: allocate_def)
  show thesis
  proof (rule search_cases [OF ok False sz])
    assume s: "search_free_marker P H sz m = (0, m)" and nf: "\<forall>b \<in> set (map (blk m) as). \<not> fits sz b"
    have "allocate P H sz m = add_new_allocated_marker P H sz m" by (simp add: al s)
    then show thesis by (rule alloc_append [OF ok sz nf]) (rule that)
  next
    fix xs r ys as' m'
    let ?h = "mem m (hstart_addr H)"
    assume s: "search_free_marker P H sz m = (?h + sizes m xs, m')" and as: "as = xs @ r # ys" and l: "heap_list H m' as'"
      and sp: "alloc_spec ?h sz (map (blk m) as) (?h + sizes m xs) (map (blk m') as')"
      and lst: "last as' = last as" "blk m' (last as) = blk m (last as)"
      and v: "\<And>a. a \<in> heap_vars H - {blist_size H} \<Longrightarrow> mem m' a = mem m a" and gr: "grows P H m as m' as'"
    have "unat (?h + total_size (map (blk m) xs)) = unat ?h + span (map (blk m) xs)"
      using fit as by (intro unat_total) (simp add: heap_fits_def)
    then have "?h + sizes m xs \<noteq> 0" using fit by (auto simp: heap_fits_def sizes_total unat_eq_0 [symmetric])
    then have r: "allocate P H sz m = Some (?h + sizes m xs, m')" by (simp add: al s)
    show thesis
      by (rule that [OF r sp l _ _ _ _ gr]) (use lst k(5) False v env_distinct [OF k(1)] in \<open>auto simp: heap_vars_def\<close>)
  qed
qed

lemma allocate_service:
  assumes "heap_ok A H (mcu s) as" and "heap_fits H (mcu s) as"
    and "arguments 1 = sz" and "0 < sz" and "unat sz < 0x8000"
  shows "\<exists>a as' s'. svc_service_gheap_allocate H A svc_num arguments s = Some (a, svc_num, arguments, s') \<and>
    alloc_spec (mem (mcu s) (hstart_addr H)) sz (map (blk (mcu s)) as) a (map (blk (mcu s')) as') \<and>
    heap_list H (mcu s') as' \<and> region_ok A H (mcu s') \<and> (as' \<noteq> [] \<longrightarrow> \<not> snd (blk (mcu s') (last as'))) \<and>
    mem (mcu s') (heap_remaining H) = mem (mcu s) (heap_remaining H) - (if a = 0 then 0 else sz) \<and>
    grows A H (mcu s) as (mcu s') as' \<and> mem (mcu s') (hstart_addr H) = mem (mcu s) (hstart_addr H) \<and>
    mem (mcu s') (bstart_addr H) = mem (mcu s) (bstart_addr H)"
proof (rule allocate_refines [OF assms(1,2,4,5)])
  fix a as' m'
  assume r: "allocate A H sz (mcu s) = Some (a, m')"
    and sp: "alloc_spec (mem (mcu s) (hstart_addr H)) sz (map (blk (mcu s)) as) a (map (blk m') as')"
    and l: "heap_list H m' as'" and lst: "as' \<noteq> [] \<longrightarrow> \<not> snd (blk m' (last as'))"
    and v: "mem m' (bstart_addr H) = mem (mcu s) (bstart_addr H)" "mem m' (hstart_addr H) = mem (mcu s) (hstart_addr H)"
      "mem m' (heap_remaining H) = mem (mcu s) (heap_remaining H)"
    and gr: "grows A H (mcu s) as m' as'"
  note k = heap_ok_D [OF assms(1)]
  have reg: "region_ok A H m'" using k(2) region_cong [OF v(1)] by blast
  define m1 where "m1 = (if a \<noteq> 0 then mem_store (heap_remaining H) (mem m' (heap_remaining H) - sz) m' else m')"
  have svc: "svc_service_gheap_allocate H A svc_num arguments s = Some (a, svc_num, arguments, s\<lparr>mcu := m1\<rparr>)"
    using r assms(3) by (simp add: svc_service_gheap_allocate_def allocate_def Let_def m1_def cong: if_cong)
  have eqm: "map (blk m1) as' = map (blk m') as'" and l1: "heap_list H m1 as'"
    using remaining_frame [OF l k(1) reg] l by (simp_all add: m1_def)
  have r1: "region_ok A H m1" using reg env_distinct [OF k(1)] by (simp add: m1_def mem_store_def region_ok_def)
  have rem: "mem m1 (heap_remaining H) = mem (mcu s) (heap_remaining H) - (if a = 0 then 0 else sz)"
    by (simp add: m1_def mem_store_def v(3))
  note d = env_distinct [OF k(1)]
  have "as' \<noteq> [] \<longrightarrow> ldrsh (last as') m1 = ldrsh (last as') m'"
  proof
    assume "as' \<noteq> []"
    then have "last as' \<notin> heap_vars H" using heap_listD(4) [OF l] by simp
    then show "ldrsh (last as') m1 = ldrsh (last as') m'"
      by (auto simp: m1_def ldrsh_def mem_store_def heap_vars_def)
  qed
  then have gr1: "grows A H (mcu s) as m1 as'" using gr by (auto simp: grows_def)
  have v1: "mem m1 (hstart_addr H) = mem (mcu s) (hstart_addr H)" "mem m1 (bstart_addr H) = mem (mcu s) (bstart_addr H)"
    using v d by (simp_all add: m1_def mem_store_def)
  have b1: "as' \<noteq> [] \<longrightarrow> \<not> snd (blk m1 (last as'))" using lst eqm by (auto simp: map_eq_conv)
  show ?thesis
  proof (intro exI conjI)
    show "svc_service_gheap_allocate H A svc_num arguments s = Some (a, svc_num, arguments, s\<lparr>mcu := m1\<rparr>)" by (rule svc)
    show "alloc_spec (mem (mcu s) (hstart_addr H)) sz (map (blk (mcu s)) as) a (map (blk (mcu (s\<lparr>mcu := m1\<rparr>))) as')"
      using sp by (simp add: eqm cong del: map_cong)
  qed (use l1 r1 b1 rem gr1 v1 in simp_all)
qed

text \<open>
  C33. The allocation service refines the specification, for a request of 1 to 32767 bytes from a
  consistent heap whose last block is in use (part of \<open>heap_ok\<close>, together with a list of fewer than 65535 markers and
  blocks that end below the top of the address space): it returns, the address and the new list of blocks are those of
  first fit, the list of markers is consistent again with its last block in use, and the count of free bytes goes down
  by the size. The condition on the last block is needed: with a free last block the marker of the rest of a split block links
  back to the block it was split from, and blocks in use overlap (\<open>heap_blocks_overlap\<close> in \<open>Deviations\<close>).
\<close>

theorem heap_allocate_refines:
  assumes "heap_ok A H (mcu s) as" and "heap_fits H (mcu s) as"
    and "arguments 1 = sz" and "0 < sz" and "unat sz < 0x8000"
  shows "\<exists>a as' s'. svc_service_gheap_allocate H A svc_num arguments s = Some (a, svc_num, arguments, s') \<and>
    alloc_spec (mem (mcu s) (hstart_addr H)) sz (map (blk (mcu s)) as) a (map (blk (mcu s')) as') \<and>
    heap_list H (mcu s') as' \<and> region_ok A H (mcu s') \<and> (as' \<noteq> [] \<longrightarrow> \<not> snd (blk (mcu s') (last as'))) \<and>
    mem (mcu s') (heap_remaining H) = mem (mcu s) (heap_remaining H) - (if a = 0 then 0 else sz)"
  using allocate_service [where arguments = arguments, OF assms] by blast

text \<open>The variables of the heap in the concrete build.\<close>

definition heap_demo :: heap_env where
  "heap_demo = \<lparr>hstart_addr = 0x20000100, bstart_addr = 0x20000104, heap_remaining = 0x20000108, fsll_start = 0x2000010C,
     fsll_end = 0x20000110, blist_size = 0x20000114, heap_start_sym = 0x20008000, ghmb_addr_sym = 0x20006000\<rparr>"

section \<open>The start\<close>

lemma mem_heap_clear: "mem (heap_clear n base m) a = (if \<exists>r \<in> {1..n}. a = base + 4 * of_nat r then 0 else mem m a)"
proof -
  have "mem (fold (\<lambda>r1. mem_store (base + 4 * of_nat r1) 0) rs m) a =
      (if \<exists>r \<in> set rs. a = base + 4 * of_nat r then 0 else mem m a)" for rs :: "nat list"
    by (induction rs arbitrary: m) (auto simp: mem_store_def)
  from this [of "rev [1..<Suc n]"] show ?thesis unfolding heap_clear_def by (simp only: set_rev set_upt atLeastLessThanSuc_atLeastAtMost)
qed

definition heap_build :: "'z params_scheme \<Rightarrow> heap_env \<Rightarrow> bool" where
  "heap_build P H \<longleftrightarrow> heap_env_ok H \<and> 0 < HEAP_BOOKEEPING_SIZE P \<and> HEAP_BOOKEEPING_SIZE P < 65536 \<and>
     4 dvd HEAP_BOOKEEPING_SIZE P \<and> 4 dvd unat (ghmb_addr_sym H) \<and>
     (\<forall>j \<le> Suc (HEAP_BOOKEEPING_SIZE P). ghmb_addr_sym H - 4 + 4 * of_nat j \<notin> heap_vars H)"

lemma heap_init_mem:
  assumes b: "heap_build P H"
  defines "e \<equiv> ghmb_addr_sym H + (of_nat (HEAP_BOOKEEPING_SIZE P) * 4 - 4)"
  shows "mem (heap_init P H m) (bstart_addr H) = e" "mem (heap_init P H m) (fsll_start H) = e"
    "mem (heap_init P H m) (fsll_end H) = e" "mem (heap_init P H m) (blist_size H) = 0"
    "mem (heap_init P H m) e = 0"
    "mem (heap_init P H m) (hstart_addr H) = heap_start_sym H + heap_start_sym H mod 4"
    "mem (heap_init P H m) (heap_remaining H) = 0x20040000 - (heap_start_sym H + heap_start_sym H mod 4)"
proof -
  let ?n = "HEAP_BOOKEEPING_SIZE P" and ?g = "ghmb_addr_sym H"
  note d = env_distinct [of H]
  have env: "heap_env_ok H" and out: "\<And>j. j \<le> Suc ?n \<Longrightarrow> ?g - 4 + 4 * of_nat j \<notin> heap_vars H"
    using b by (auto simp: heap_build_def)
  have n: "2 \<le> ?n" using b by (auto simp: heap_build_def elim: dvdE)
  have c: "\<not> (\<exists>r \<in> {1..?n}. v = ?g + 4 * of_nat r)" if "v \<in> heap_vars H" for v
    using out [of "Suc _"] that by (auto simp: algebra_simps)
  have vars: "mem (heap_clear ?n ?g x) v = mem x v" if "v \<in> heap_vars H" for v x
    using c [OF that] by (simp add: mem_heap_clear)
  have e: "e = ?g + 4 * of_nat (?n - 1)" using n by (simp add: e_def algebra_simps)
  have ez: "mem (heap_clear ?n ?g x) e = 0" for x
    unfolding mem_heap_clear e using n by (simp del: of_nat_diff) (use n in \<open>force simp del: of_nat_diff\<close>)
  have ev: "e \<notin> heap_vars H" using out [of ?n] by (simp add: e_def algebra_simps)
  have m4: "ucast (ucast (x mod 4) :: u8) = (x mod 4 :: u32)" for x
  proof -
    have "x mod 4 = take_bit 2 x" by (simp add: take_bit_eq_mod)
    then show ?thesis by (simp only:) (rule bit_word_eqI, auto simp: bit_simps)
  qed
  note v = vars [simplified heap_vars_def, simplified] heap_vars_ne [OF ev] d [OF env] d [OF env, symmetric]
  show "mem (heap_init P H m) (bstart_addr H) = e" "mem (heap_init P H m) (fsll_start H) = e"
    "mem (heap_init P H m) (fsll_end H) = e" "mem (heap_init P H m) (blist_size H) = 0"
    "mem (heap_init P H m) e = 0"
    "mem (heap_init P H m) (hstart_addr H) = heap_start_sym H + heap_start_sym H mod 4"
    "mem (heap_init P H m) (heap_remaining H) = 0x20040000 - (heap_start_sym H + heap_start_sym H mod 4)"
    by (simp_all add: heap_init_def Let_def mem_store_def v ez m4 e_def [symmetric])
qed

text \<open>
  The initialisation gives the empty heap: the invariant of the allocator holds for no markers,
  and the free bytes are those from the start of the heap to the end of the RAM.
\<close>

theorem heap_init_empty:
  assumes "heap_build P H" and "0 < heap_start_sym H" and "heap_start_sym H \<le> 0x20040000"
  shows "heap_ok P H (heap_init P H m) [] \<and> heap_fits H (heap_init P H m) [] \<and>
    mem (heap_init P H m) (heap_remaining H) = 0x20040000 - mem (heap_init P H m) (hstart_addr H)"
proof -
  let ?n = "HEAP_BOOKEEPING_SIZE P" and ?g = "ghmb_addr_sym H"
  note i = heap_init_mem [OF assms(1), of m]
  have b: "heap_env_ok H" "0 < ?n" "?n < 65536" "4 dvd ?n" "4 dvd unat ?g"
    and out: "\<And>j. j \<le> Suc ?n \<Longrightarrow> ?g - 4 + 4 * of_nat j \<notin> heap_vars H"
    using assms(1) by (auto simp: heap_build_def)
  have e: "?g + (of_nat ?n * 4 - 4) - 4 * of_nat j = ?g - 4 + 4 * of_nat (?n - j)" if "j \<le> ?n" for j
    using that by (simp add: algebra_simps)
  have "4 dvd unat (?g + (of_nat ?n * 4 - 4))"
  proof -
    have "?g + (of_nat ?n * 4 - 4) = ?g - 4 * of_nat 1 - 4 * (- of_nat ?n)" by (simp add: algebra_simps)
    also have "\<dots> = ?g - 4 * of_nat (unat (1 - of_nat ?n :: u32))" by (simp add: algebra_simps)
    finally have g: "?g + (of_nat ?n * 4 - 4) = ?g - 4 * of_nat (unat (1 - of_nat ?n :: u32))" .
    show ?thesis unfolding g by (rule aligned_minus [OF b(5)])
  qed
  moreover have "?g + (of_nat ?n * 4 - 4) - 4 * of_nat j \<notin> heap_vars H" if "j \<le> ?n" for j
    unfolding e [OF that] by (rule out) simp
  ultimately have r: "region_ok P H (heap_init P H m)" using b unfolding region_ok_def i by blast
  have "unat (heap_start_sym H) \<le> 0x20040000" "0 < unat (heap_start_sym H)"
    using assms(2,3) by (simp_all add: word_le_nat_alt word_less_nat_alt)
  moreover have "unat (heap_start_sym H mod 4) < 4" by (simp add: unat_mod)
  ultimately have "0 < unat (heap_start_sym H + heap_start_sym H mod 4)" "unat (heap_start_sym H + heap_start_sym H mod 4) < 2 ^ 32"
    by (simp_all add: unat_word_ariths)
  then have f: "heap_fits H (heap_init P H m) []" by (simp add: heap_fits_def span_def i)
  show ?thesis using r f b(1) by (simp add: heap_ok_def heap_list_def i)
qed

lemma demo_heap_build: "heap_build demo_params heap_demo"
proof -
  have "0x20006000 - 4 + 4 * of_nat j \<notin> heap_vars heap_demo" if "j \<le> 257" for j
  proof -
    have "unat (4 * of_nat j :: u32) = 4 * j" using that by (simp add: unat_word_ariths unat_of_nat)
    then have "0x20005FFC \<le> unat (0x20006000 - 4 + 4 * of_nat j :: u32)" using that by (simp add: unat_word_ariths)
    moreover have "unat v < 0x20005FFC" if "v \<in> heap_vars heap_demo" for v
      using that by (auto simp: heap_vars_def heap_demo_def)
    ultimately show ?thesis by fastforce
  qed
  then show ?thesis by (simp add: heap_build_def heap_env_ok_def demo_params_def heap_demo_def)
qed

theorem heap_init_empty_witness: "heap_ok demo_params heap_demo (heap_init demo_params heap_demo demo_mcu) []"
  using heap_init_empty [OF demo_heap_build, of demo_mcu] by (simp add: heap_demo_def)

section \<open>Allocation from the start\<close>

definition demo_heap_state :: kstate where
  "demo_heap_state = demo_state\<lparr>mcu := heap_init demo_params heap_demo demo_mcu\<rparr>"

definition alloc_args :: svc_args where
  "alloc_args = (\<lambda>_. 0)(1 := 24)"

lemma demo_params_port: "HEAP_BOOKEEPING_SIZE demo_arm = HEAP_BOOKEEPING_SIZE demo_params"
  by (simp add: demo_arm_def arm_port_def)

lemma demo_region:
  assumes "j \<le> 256"
  shows "0x200063FC - 4 * of_nat j \<notin> heap_vars heap_demo"
proof -
  have "unat (4 * of_nat j :: u32) = 4 * j" using assms by (simp add: unat_word_ariths unat_of_nat)
  then have "0x20005FFC \<le> unat (0x200063FC - 4 * of_nat j :: u32)" using assms by (simp add: unat_sub_if')
  moreover have "unat v < 0x20005FFC" if "v \<in> heap_vars heap_demo" for v
    using that by (auto simp: heap_vars_def heap_demo_def)
  ultimately show ?thesis by fastforce
qed

lemma demo_heap_start:
  "heap_ok demo_arm heap_demo (mcu demo_heap_state) [] \<and> heap_fits heap_demo (mcu demo_heap_state) [] \<and>
    mem (mcu demo_heap_state) (hstart_addr heap_demo) = 0x20008000"
proof -
  note i = heap_init_mem [OF demo_heap_build, of demo_mcu]
  have h: "mem (mcu demo_heap_state) (hstart_addr heap_demo) = 0x20008000"
    using i(6) by (simp add: demo_heap_state_def heap_demo_def)
  have "region_ok demo_arm heap_demo (mcu demo_heap_state)"
  proof -
    have "mem (mcu demo_heap_state) (bstart_addr heap_demo) = 0x200063FC"
      using i(1) by (simp add: demo_heap_state_def heap_demo_def demo_params_def)
    then show ?thesis using demo_region by (simp add: region_ok_def demo_params_port) (simp add: demo_params_def)
  qed
  moreover have "heap_env_ok heap_demo" by (simp add: heap_env_ok_def heap_demo_def)
  moreover have "heap_list heap_demo (mcu demo_heap_state) []"
    using i by (simp add: heap_list_def demo_heap_state_def)
  ultimately show ?thesis using h by (simp add: heap_ok_def heap_fits_def span_def)
qed

theorem heap_allocate_refines_witness:
  "\<exists>a as' s'. svc_service_gheap_allocate heap_demo demo_arm GHEAP_ALLOCATE alloc_args demo_heap_state =
      Some (a, GHEAP_ALLOCATE, alloc_args, s') \<and>
    alloc_spec 0x20008000 24 [] a (map (blk (mcu s')) as') \<and> heap_list heap_demo (mcu s') as'"
proof -
  have "alloc_args 1 = 24" by (simp add: alloc_args_def)
  with heap_allocate_refines [of demo_arm heap_demo demo_heap_state "[]" alloc_args 24 GHEAP_ALLOCATE] demo_heap_start
  show ?thesis by auto
qed

section \<open>Blocks in use\<close>

text \<open>The bytes of the blocks in use, from address \<open>h\<close> on.\<close>

fun used :: "nat \<Rightarrow> block list \<Rightarrow> nat set" where
  "used h [] = {}"
| "used h ((n, free) # bs) = (if free then {} else {h..<h + unat n}) \<union> used (h + unat n) bs"

lemma used_append: "used h (xs @ ys) = used h xs \<union> used (h + span xs) ys"
  by (induction h xs rule: used.induct) (auto simp: span_def add.assoc)

lemma used_bounds: "used h bs \<subseteq> {h..<h + span bs}"
proof (induction h bs rule: used.induct)
  case (2 h n free bs)
  have "span ((n, free) # bs) = unat n + span bs" by (simp add: span_def)
  with 2 show ?case by (auto dest!: subsetD)
qed simp

lemma gap_disjoint:
  fixes a b c k l :: nat
  assumes "X \<subseteq> {l..<a}" "Y \<subseteq> {b..<c}" "a + k \<le> b"
  shows "{a..<a + k} \<inter> (X \<union> Y) = {}"
proof -
  have "\<not> (a \<le> x \<and> x < a + k)" if "x \<in> X \<union> Y" for x
    using that subsetD [OF assms(1), of x] subsetD [OF assms(2), of x] assms(3) by auto
  then show ?thesis by auto
qed

lemma alloc_used:
  assumes "alloc_spec h sz bs a bs'" and "unat h + span bs < 2 ^ 32" and "a \<noteq> 0"
  shows "\<exists>n \<ge> unat sz. {unat a..<unat a + n} \<inter> used (unat h) bs = {} \<and>
    used (unat h) bs' = used (unat h) bs \<union> {unat a..<unat a + n}"
  using assms
proof cases
  case (split xs n ys)
  have a: "unat a = unat h + span (xs)" using split assms(2) by (simp add: unat_total)
  have n: "unat sz \<le> unat n" "unat (n - sz) = unat n - unat sz"
    using split by (simp_all add: word_less_nat_alt unat_sub_if')
  have u: "used (unat h) bs = used (unat h) xs \<union> used (unat h + span xs + unat n) ys"
    "used (unat h) bs' = used (unat h) xs \<union> {unat a..<unat a + unat sz} \<union> used (unat h + span xs + unat n) ys"
    using n a by (simp_all add: split used_append Un_assoc add.assoc)
  have "{unat a..<unat a + unat sz} \<inter> used (unat h) bs = {}"
    unfolding u a by (rule gap_disjoint [OF used_bounds used_bounds]) (simp add: n(1))
  then show ?thesis by (intro exI [of _ "unat sz"]) (auto simp: u)
next
  case (whole xs n ys)
  have a: "unat a = unat h + span (xs)" using whole assms(2) by (simp add: unat_total)
  have n: "unat sz \<le> unat n" using whole by (simp add: word_le_nat_alt)
  have u: "used (unat h) bs = used (unat h) xs \<union> used (unat h + span xs + unat n) ys"
    "used (unat h) bs' = used (unat h) xs \<union> {unat a..<unat a + unat n} \<union> used (unat h + span xs + unat n) ys"
    using a by (simp_all add: whole used_append Un_assoc add.assoc)
  have "{unat a..<unat a + unat n} \<inter> used (unat h) bs = {}"
    unfolding u a by (rule gap_disjoint [OF used_bounds used_bounds]) simp
  then show ?thesis using n by (intro exI [of _ "unat n"]) (auto simp: u)
next
  case append
  have a: "unat a = unat h + span bs" using append assms(2) by (simp add: unat_total)
  have "{unat a..<unat a + unat sz} \<inter> used (unat h) bs = {}"
    using gap_disjoint [OF used_bounds [of "unat h" bs] empty_subsetI order_refl, of "unat sz"] by (simp add: a)
  then show ?thesis using append a by (intro exI [of _ "unat sz"]) (auto simp: used_append)
qed simp

text \<open>
  A block that the service hands out has at least the requested size and shares no byte with a
  block in use; all blocks in use stay in use.
\<close>

theorem heap_blocks_disjoint:
  assumes "heap_ok A H (mcu s) as" and "heap_fits H (mcu s) as"
    and "arguments 1 = sz" and "0 < sz" and "unat sz < 0x8000"
    and "svc_service_gheap_allocate H A svc_num arguments s = Some (a, svc_num', arguments', s')" and "a \<noteq> 0"
  defines "h \<equiv> unat (mem (mcu s) (hstart_addr H))"
  shows "\<exists>as' n. heap_list H (mcu s') as' \<and> unat sz \<le> n \<and>
    {unat a..<unat a + n} \<inter> used h (map (blk (mcu s)) as) = {} \<and>
    used h (map (blk (mcu s')) as') = used h (map (blk (mcu s)) as) \<union> {unat a..<unat a + n}"
proof -
  obtain as' where l: "heap_list H (mcu s') as'"
    and sp: "alloc_spec (mem (mcu s) (hstart_addr H)) sz (map (blk (mcu s)) as) a (map (blk (mcu s')) as')"
    using allocate_service [where arguments = arguments, OF assms(1-5), of svc_num] assms(6) by auto
  have "unat (mem (mcu s) (hstart_addr H)) + span (map (blk (mcu s)) as) < 2 ^ 32" using assms(2) by (simp add: heap_fits_def)
  from alloc_used [OF sp this assms(7)] l show ?thesis unfolding h_def by blast
qed

theorem heap_blocks_disjoint_witness:
  "\<exists>s' as' n. svc_service_gheap_allocate heap_demo demo_arm GHEAP_ALLOCATE alloc_args demo_heap_state =
      Some (0x20008000, GHEAP_ALLOCATE, alloc_args, s') \<and> 24 \<le> n \<and>
    used 0x20008000 (map (blk (mcu s')) as') = {0x20008000..<0x20008000 + n}"
proof -
  have i: "alloc_args 1 = 24" "0 < (24 :: u32)" "unat (24 :: u32) < 0x8000" by (simp_all add: alloc_args_def)
  have h: "heap_ok demo_arm heap_demo (mcu demo_heap_state) []" "heap_fits heap_demo (mcu demo_heap_state) []"
    "mem (mcu demo_heap_state) (hstart_addr heap_demo) = 0x20008000"
    using demo_heap_start by auto
  obtain s' where s: "svc_service_gheap_allocate heap_demo demo_arm GHEAP_ALLOCATE alloc_args demo_heap_state =
      Some (0x20008000, GHEAP_ALLOCATE, alloc_args, s')"
  proof (rule add_new_cases [OF heap_ok_D(1,3,2) [OF h(1)] i(2,3)])
    fix a m'
    assume "add_new_allocated_marker demo_arm heap_demo 24 (mcu demo_heap_state) =
        Some (mem (mcu demo_heap_state) (hstart_addr heap_demo) + sizes (mcu demo_heap_state) [], m')"
    moreover have "mem (mcu demo_heap_state) (blist_size heap_demo) = 0"
      using heap_init_mem(4) [OF demo_heap_build, of demo_mcu] by (simp add: demo_heap_state_def)
    ultimately show thesis
      using i(1) by (intro that) (simp add: svc_service_gheap_allocate_def sizes_def h(3) Let_def)
  qed simp_all
  from heap_blocks_disjoint [where arguments = alloc_args, OF h(1,2) i s] show ?thesis
    using s by (auto simp: h(3))
qed

end
