(* ===== verification/HeapRelease.thy ===== *)
theory HeapRelease
  imports HeapProps
begin

text \<open>
  The release of a block: the marker becomes free and is joined with its free neighbours, or is removed when it is
  the last one.
\<close>

section \<open>Markers of a region\<close>

text \<open>A marker among the first 16384 words below \<open>base\<close>; distances between such markers fit into a halfword.\<close>

definition marker_at :: "u32 \<Rightarrow> nat \<Rightarrow> u32 \<Rightarrow> bool" where
  "marker_at base j a \<longleftrightarrow> j < 0x4000 \<and> a = base - 4 * of_nat j"

definition in_region :: "u32 \<Rightarrow> u32 list \<Rightarrow> bool" where
  "in_region base as \<longleftrightarrow> (\<forall>a \<in> set as. \<exists>j. marker_at base j a)"

lemma sint_small_int: "- 0x80000000 \<le> z \<Longrightarrow> z < 0x80000000 \<Longrightarrow> sint (word_of_int z :: u32) = z"
  by (simp add: sint_sbintrunc' signed_take_bit_int_eq_self)

lemma marker_diff:
  assumes "marker_at base i a" and "marker_at base j b"
  shows "b - a = word_of_int (4 * (int i - int j))" "marker_dist a b = word_of_int (int i - int j)"
    "dist_ok (marker_dist a b)"
proof -
  show d: "b - a = word_of_int (4 * (int i - int j))" using assms by (simp add: marker_at_def algebra_simps)
  have ij: "0 \<le> int i" "0 \<le> int j" "int i < 0x4000" "int j < 0x4000" using assms by (simp_all add: marker_at_def)
  have "sint (b - a) = 4 * (int i - int j)" unfolding d using ij by (intro sint_small_int; simp)
  moreover have "4 * k sdiv 4 = k" for k :: int by (simp add: signed_divide_int_def abs_mult sgn_mult sgn_mult_abs)
  ultimately have "sint (b - a) sdiv 4 = int i - int j" by (simp only:)
  then show m: "marker_dist a b = word_of_int (int i - int j)" by (simp only: marker_dist_def)
  have "sint (marker_dist a b) = int i - int j" unfolding m using ij by (intro sint_small_int; simp)
  then show "dist_ok (marker_dist a b)" using ij by (simp add: dist_ok_def)
qed

lemma sint_ldrsh: "- 0x8000 \<le> sint (ldrsh a m) \<and> sint (ldrsh a m) < 0x8000"
proof -
  have "sint (ldrsh a m) = sint (mem m a) div 0x10000" by (simp add: ldrsh_def sint_signed_drop_bit_eq drop_bit_eq_div)
  moreover have "- 0x80000000 \<le> sint (mem m a)" "sint (mem m a) < 0x80000000"
    using sint_greater_eq [of "mem m a"] sint_less [of "mem m a"] by simp_all
  ultimately show ?thesis
    using div_mult_mod_eq [of "sint (mem m a)" "0x10000"] pos_mod_bound [of "0x10000" "sint (mem m a)"]
      pos_mod_sign [of "0x10000" "sint (mem m a)"] by linarith
qed

lemma ldrsh_link:
  assumes "marker_at base i a" and "marker_at base j b" and "next_marker a m = b"
  shows "ldrsh a m = marker_dist a b"
proof -
  let ?x = "sint (ldrsh a m)"
  have ij: "0 \<le> int i" "0 \<le> int j" "int i < 0x4000" "int j < 0x4000" using assms by (simp_all add: marker_at_def)
  have "push_bit 2 (ldrsh a m) = b - a" using assms(3) by (auto simp: next_marker_def)
  moreover have "push_bit 2 (ldrsh a m) = word_of_int (4 * ?x)" by (simp add: push_bit_eq_mult)
  ultimately have "word_of_int (4 * ?x) = (word_of_int (4 * (int i - int j)) :: u32)" by (simp add: marker_diff(1) [OF assms(1,2)])
  then have "sint (word_of_int (4 * ?x) :: u32) = sint (word_of_int (4 * (int i - int j)) :: u32)" by simp
  moreover have "sint (word_of_int (4 * ?x) :: u32) = 4 * ?x" using sint_ldrsh [of a m] by (intro sint_small_int; simp)
  moreover have "sint (word_of_int (4 * (int i - int j)) :: u32) = 4 * (int i - int j)" using ij by (intro sint_small_int; simp)
  ultimately have x: "?x = int i - int j" by simp
  show ?thesis unfolding marker_diff(2) [OF assms(1,2)] x [symmetric] by simp
qed

text \<open>The link over a marker that is taken out.\<close>

lemma skip_link:
  assumes "in_region base [a, b, c]" and "next_marker b m = c"
  shows "dist_ok (marker_dist a b + ldrsh b m)"
    "a + push_bit 2 (marker_dist a b + ldrsh b m) = c"
proof -
  obtain i j k where r: "marker_at base i a" "marker_at base j b" "marker_at base k c"
    using assms(1) by (auto simp: in_region_def)
  have "ldrsh b m = marker_dist b c" by (rule ldrsh_link [OF r(2,3) assms(2)])
  then have d: "marker_dist a b + ldrsh b m = marker_dist a c"
    by (simp add: marker_diff(2) [OF r(1,2)] marker_diff(2) [OF r(2,3)] marker_diff(2) [OF r(1,3)])
  show "dist_ok (marker_dist a b + ldrsh b m)" unfolding d by (rule marker_diff(3) [OF r(1,3)])
  have "push_bit 2 (marker_dist a c) = c - a"
    by (simp add: marker_diff(2) [OF r(1,3)] marker_diff(1) [OF r(1,3)] push_bit_eq_mult)
  then show "a + push_bit 2 (marker_dist a b + ldrsh b m) = c" unfolding d by simp
qed

section \<open>The list without its length\<close>

definition links :: "heap_env \<Rightarrow> mcu \<Rightarrow> u32 list \<Rightarrow> bool" where
  "links H m as \<longleftrightarrow> chain m as \<and> distinct as \<and> as \<noteq> [] \<and>
     (\<forall>a \<in> set as. ldrh a m \<noteq> 0 \<and> 4 dvd unat a \<and> a \<notin> heap_vars H) \<and>
     mem m (fsll_start H) = mem m (bstart_addr H) \<and> mem m (bstart_addr H) = hd as \<and> mem m (fsll_end H) = last as \<and>
     ldrsh (last as) m = 0"

text \<open>A list of markers that got shorter still ends with a marker without a successor.\<close>

definition shrinks :: "u32 list \<Rightarrow> mcu \<Rightarrow> u32 list \<Rightarrow> bool" where
  "shrinks as m' as' \<longleftrightarrow> set as' \<subseteq> set as \<and> (as' \<noteq> [] \<longrightarrow> ldrsh (last as') m' = 0)"

lemma links_shrinks: "links H m' as' \<Longrightarrow> set as' \<subseteq> set as \<Longrightarrow> shrinks as m' as'"
  by (simp add: links_def shrinks_def)

text \<open>Taking out \<open>b\<close>, which has a marker before and one after it.\<close>

lemma links_merge:
  assumes l: "links H m (xs @ a # b # c # ys)" and r: "in_region base (xs @ a # b # c # ys)"
    and v: "v AND 0xFFFF \<noteq> 0"
  defines "m' \<equiv> mem_store b 0 (strh_lo a v (strh_hi a (marker_dist a b + ldrsh b m) m))"
  shows "dist_ok (marker_dist a b + ldrsh b m)" "links H m' (xs @ a # c # ys)" "ldrh a m' = v AND 0xFFFF"
    "\<And>x. x \<noteq> a \<Longrightarrow> x \<noteq> b \<Longrightarrow> mem m' x = mem m x"
proof -
  have dist: "distinct (xs @ a # b # c # ys)" and ch: "chain m (xs @ a # b # c # ys)"
    and mk: "\<forall>x \<in> set (xs @ a # b # c # ys). ldrh x m \<noteq> 0 \<and> 4 dvd unat x \<and> x \<notin> heap_vars H"
    using l by (auto simp: links_def)
  have bc: "next_marker b m = c" and cys: "chain m (c # ys)" and xa: "chain m (xs @ [a])"
    using ch chain_mid [of m xs a "b # c # ys"] by auto
  have "in_region base [a, b, c]" using r by (auto simp: in_region_def)
  note s = skip_link [OF this bc]
  show "dist_ok (marker_dist a b + ldrsh b m)" by (rule s(1))
  show o: "mem m' x = mem m x" if "x \<noteq> a" "x \<noteq> b" for x
    using that by (simp add: m'_def mem_store_def mem_strh)
  have ab: "a \<noteq> b" using dist by auto
  have ma: "mem m' a = mem (strh_lo a v (strh_hi a (marker_dist a b + ldrsh b m) m)) a"
    using ab by (simp add: m'_def mem_store_def)
  show ha: "ldrh a m' = v AND 0xFFFF" using marker_frame(1) [OF ma] by (simp add: ldrh_strh_lo)
  have "ldrsh a m' = marker_dist a b + ldrsh b m"
    using ma by (simp only: ldrsh_def) (simp only: ldrsh_def [symmetric] ldrsh_strh_lo ldrsh_strh_hi [OF s(1)])
  then have na: "next_marker a m' = c" using s(2) by (simp add: next_marker_def)
  have x: "mem m' x = mem m x" if "x \<in> set xs \<union> set (c # ys)" for x using that dist by (intro o) auto
  have "chain m' (c # ys) = chain m (c # ys)"
    using x in_set_butlastD [of _ "c # ys"] by (intro chain_cong marker_frame(2)) blast
  moreover have "chain m' (xs @ [a]) = chain m (xs @ [a])" using x by (intro chain_cong marker_frame(2)) auto
  ultimately have "chain m' (xs @ a # c # ys)" using cys xa na by (subst chain_mid) simp
  moreover have "ldrh y m' \<noteq> 0 \<and> 4 dvd unat y \<and> y \<notin> heap_vars H" if "y \<in> set (xs @ a # c # ys)" for y
    using that mk ha v marker_frame(1) [OF x] by (cases "y = a") auto
  moreover have "mem m' z = mem m z" if "z \<in> heap_vars H" for z using that mk by (intro o) auto
  moreover have "ldrsh (last (xs @ a # c # ys)) m' = ldrsh (last (xs @ a # b # c # ys)) m"
    using x [of "last (c # ys)"] by (simp add: ldrsh_def)
  moreover have "distinct (xs @ a # c # ys)" using dist by auto
  moreover have "hd (xs @ a # c # ys) = hd (xs @ a # b # c # ys)" by (cases xs) simp_all
  ultimately show "links H m' (xs @ a # c # ys)" using l by (auto simp: links_def heap_vars_def)
qed

lemma links_low:
  assumes l: "links H m as" and r: "r \<in> set as" and v: "v AND 0xFFFF \<noteq> 0"
  shows "links H (strh_lo r v m) as" "ldrh r (strh_lo r v m) = v AND 0xFFFF"
    "\<And>x. x \<noteq> r \<Longrightarrow> mem (strh_lo r v m) x = mem m x"
proof -
  let ?m = "strh_lo r v m"
  show o: "mem ?m x = mem m x" if "x \<noteq> r" for x using that by (simp add: mem_strh)
  show h: "ldrh r ?m = v AND 0xFFFF" by (rule ldrh_strh_lo)
  have s: "ldrsh x ?m = ldrsh x m" for x
    by (cases "x = r") (simp add: ldrsh_strh_lo, simp add: ldrsh_def o)
  have "chain ?m as = chain m as" by (intro chain_cong) (simp add: next_marker_def s)
  moreover have "ldrh x ?m \<noteq> 0" if "x \<in> set as" for x
    using that l v h marker_frame(1) [OF o [of x]] by (cases "x = r") (auto simp: links_def)
  moreover have "mem ?m z = mem m z" if "z \<in> heap_vars H" for z using that l r by (intro o) (auto simp: links_def)
  ultimately show "links H ?m as" using l by (auto simp: links_def heap_vars_def s)
qed

section \<open>The searches\<close>

lemma find_block_chain:
  assumes "chain m (xs @ r # ys)" and "length (xs @ r # ys) < 65536" and "\<forall>a \<in> set xs. 0 < fst (blk m a)"
    and "unat h + span (map (blk m) xs) < 2 ^ 32"
  shows "find_block m (h + sizes m xs) (hd (xs @ r # ys)) h (of_nat (length (xs @ r # ys))) = Some (Some r)"
  using assms
proof (induction xs arbitrary: h)
  case Nil
  then show ?case by (subst find_block.simps) (simp add: sizes_def)
next
  case (Cons a xs)
  let ?rest = "xs @ r # ys"
  have n: "next_marker a m = hd ?rest" "chain m ?rest" using Cons.prems(1) by (cases xs; simp)+
  have sz: "unat (h + sizes m (a # xs)) = unat h + span (map (blk m) (a # xs))"
    unfolding sizes_total by (rule unat_total [OF Cons.prems(4)])
  have "0 < fst (blk m a)" using Cons.prems(3) by simp
  then have "0 < unat (fst (blk m a))" by (simp add: word_less_nat_alt)
  then have ne: "h \<noteq> h + sizes m (a # xs)" using sz by (auto simp: span_def)
  have len: "unat (of_nat (length ?rest) :: u32) = length ?rest" using Cons.prems(2) by (intro unat_of_nat_u32) simp
  then have cnt: "of_nat (length (a # ?rest)) - 1 = (of_nat (length ?rest) :: u32)" "(of_nat (length ?rest) :: u32) \<noteq> 0"
    by (simp, metis length_0_conv append_is_Nil_conv list.distinct(1) unat_0)
  have h1: "unat (h + fst (blk m a)) = unat h + unat (fst (blk m a))"
    using unat_total [of h "[blk m a]"] Cons.prems(4) by (simp add: total_size_def span_def)
  have step: "find_block m (h + sizes m (a # xs)) a h (of_nat (length (a # ?rest))) =
      find_block m (h + sizes m (a # xs)) (hd ?rest) (h + block_size a m) (of_nat (length ?rest))"
    by (subst find_block.simps) (simp only: cnt(1) n(1), use ne cnt(2) in simp)
  have e: "h + sizes m (a # xs) = (h + block_size a m) + sizes m xs" by (simp add: sizes_def)
  have "find_block m (h + sizes m (a # xs)) (hd ?rest) (h + block_size a m) (of_nat (length ?rest)) = Some (Some r)"
    unfolding e using Cons.prems h1 by (intro Cons.IH n(2)) (simp_all add: span_def blk_def)
  with step show ?case by (simp only: append_Cons list.sel)
qed

lemma find_pred_chain:
  assumes "chain m (xs @ [p, r])" and "distinct (xs @ [p, r])"
  shows "find_pred m r R2 (hd (xs @ [p, r])) = Some p"
  using assms
proof (induction xs arbitrary: R2)
  case Nil
  then show ?case by (subst find_pred.simps, subst find_pred.simps) simp
next
  case (Cons a xs)
  have n: "next_marker a m = hd (xs @ [p, r])" "chain m (xs @ [p, r])" using Cons.prems(1) by (cases xs; simp)+
  have "find_pred m r R2 a = find_pred m r a (hd (xs @ [p, r]))"
    using Cons.prems(2) by (subst find_pred.simps) (simp add: n(1))
  with Cons.IH [OF n(2), of a] Cons.prems(2) show ?case by simp
qed

section \<open>Joining\<close>

text \<open>Sizes with the bit of a free block.\<close>

lemma free_word:
  assumes "unat n < 0x8000"
  shows "n OR FREE_HEADER_MASK = n + FREE_HEADER_MASK" "unat (n OR FREE_HEADER_MASK) = unat n + 0x8000"
    "(n OR FREE_HEADER_MASK) AND 0xFFFF \<noteq> 0"
proof -
  have "bit n i \<Longrightarrow> \<not> bit FREE_HEADER_MASK i" for i
    using arg_cong [OF size_half(3) [OF assms], of "\<lambda>w. bit w i"] by (auto simp only: bit_and_iff bit_0_eq bot_apply bot_bool_def)
  then show e: "n OR FREE_HEADER_MASK = n + FREE_HEADER_MASK" by (subst disjunctive_add) auto
  then show u: "unat (n OR FREE_HEADER_MASK) = unat n + 0x8000" using assms by (simp add: unat_word_ariths)
  show "(n OR FREE_HEADER_MASK) AND 0xFFFF \<noteq> 0" unfolding free_half [OF assms] using u by auto
qed

lemma free_word_add:
  assumes "unat n + unat k < 0x8000"
  shows "(n OR FREE_HEADER_MASK) + k = (n + k) OR FREE_HEADER_MASK" "unat (n + k) = unat n + unat k"
proof -
  show u: "unat (n + k) = unat n + unat k" using assms by (simp add: unat_word_ariths)
  then show "(n OR FREE_HEADER_MASK) + k = (n + k) OR FREE_HEADER_MASK"
    using assms by (simp add: free_word(1) ac_simps)
qed

lemma sint_free_word: "unat n < 0x7FFF \<Longrightarrow> \<not> 0xFFFF \<le> sint (n OR FREE_HEADER_MASK)"
proof -
  assume n: "unat n < 0x7FFF"
  let ?w = "n OR FREE_HEADER_MASK"
  have "unat ?w = unat n + 0x8000" using n by (intro free_word(2)) simp
  then have w: "int (unat ?w) < 0xFFFF" using n by linarith
  then have s: "sint (word_of_int (int (unat ?w)) :: u32) = int (unat ?w)" by (intro sint_small_int) linarith+
  have e: "(word_of_int (int (unat ?w)) :: u32) = ?w" by simp
  have "sint ?w = int (unat ?w)" using s unfolding e .
  with w show ?thesis by linarith
qed

fun join_right :: "u32 \<Rightarrow> block list \<Rightarrow> u32 \<times> block list" where
  "join_right n ((k, True) # bs) = (n + k, bs)"
| "join_right n bs = (n, bs)"

lemma links_linked:
  assumes "links H m (xs @ a # b # ys)"
  shows "next_marker a m = b" "a \<noteq> b" "ldrsh a m \<noteq> 0"
proof -
  show n: "next_marker a m = b" using assms chain_mid [of m xs a "b # ys"] by (auto simp: links_def)
  show ne: "a \<noteq> b" using assms by (auto simp: links_def)
  show "ldrsh a m \<noteq> 0" using n ne by (auto simp: next_marker_def)
qed

lemma join_next_spec:
  assumes l: "links H m (xs @ r # ys)" and reg: "in_region base (xs @ r # ys)" and ys: "ys \<noteq> []" "\<not> snd (blk m (last ys))"
    and h: "ldrh r m = n OR FREE_HEADER_MASK"
    and sz: "unat n + (if snd (blk m (hd ys)) then unat (fst (blk m (hd ys))) else 0) < 0x7FFF"
  obtains n' ys' m' where "join_next r (n OR FREE_HEADER_MASK) R6 m = (n' OR FREE_HEADER_MASK, R6 - of_nat (length ys - length ys'), m')"
    "join_right n (map (blk m) ys) = (n', map (blk m) ys')" "ys' \<noteq> []" "set ys' \<subseteq> set ys"
    "unat n' = unat n + (if snd (blk m (hd ys)) then unat (fst (blk m (hd ys))) else 0)" "last ys' = last ys"
    "links H m' (xs @ r # ys')" "ldrh r m' = n' OR FREE_HEADER_MASK" "length ys' \<le> length ys"
    "\<And>x. x \<in> set xs \<union> set ys' \<union> heap_vars H \<Longrightarrow> mem m' x = mem m x"
proof -
  obtain y zs where y: "ys = y # zs" using ys(1) by (cases ys) auto
  note lk = links_linked [OF l [unfolded y]]
  have b: "blk m y = (ldrh y m AND NOT FREE_HEADER_MASK, ldrh y m AND FREE_HEADER_MASK \<noteq> 0)"
    by (simp add: blk_def block_size_def)
  show thesis
  proof (cases "snd (blk m y)")
    case False
    then have "join_next r (n OR FREE_HEADER_MASK) R6 m = (n OR FREE_HEADER_MASK, R6, m)"
      using lk by (simp add: join_next_def blk_def Let_def)
    moreover obtain k where "blk m y = (k, False)" using False by (cases "blk m y") auto
    ultimately show thesis using False l h ys by (intro that [of n ys m]) (simp_all add: y)
  next
    case True
    then obtain k where k: "blk m y = (k, True)" by (cases "blk m y") auto
    have "zs \<noteq> []" using ys(2) True by (auto simp: y)
    then obtain c ws where zs: "zs = c # ws" by (cases zs) auto
    have nk: "unat n + unat k < 0x7FFF" using sz k by (simp add: y)
    then have u: "(n OR FREE_HEADER_MASK) + k = (n + k) OR FREE_HEADER_MASK" "unat (n + k) = unat n + unat k"
      using free_word_add [of n k] by simp_all
    have v: "((n + k) OR FREE_HEADER_MASK) AND 0xFFFF \<noteq> 0" "((n + k) OR FREE_HEADER_MASK) AND 0xFFFF = (n + k) OR FREE_HEADER_MASK"
      using u(2) nk by (intro free_word(3) free_half; simp)+
    note g = links_merge [OF l [unfolded y zs] reg [unfolded y zs] v(1)]
    let ?m = "mem_store y 0 (strh_lo r ((n + k) OR FREE_HEADER_MASK) (strh_hi r (marker_dist r y + ldrsh y m) m))"
    have "\<not> 0xFFFF \<le> sint ((n + k) OR FREE_HEADER_MASK)" using u(2) nk by (intro sint_free_word) simp
    then have j: "join_next r (n OR FREE_HEADER_MASK) R6 m = ((n + k) OR FREE_HEADER_MASK, R6 - 1, ?m)"
      unfolding join_next_def using lk(1,3) k b g(1) u(1) by (simp add: Let_def)
    have "distinct (xs @ r # ys)" and vr: "\<forall>a \<in> set (xs @ r # ys). a \<notin> heap_vars H" using l by (auto simp: links_def)
    then have "mem ?m x = mem m x" if "x \<in> set xs \<union> set zs \<union> heap_vars H" for x
      using that by (intro g(4)) (auto simp: y)
    then show thesis using j g(2,3) k True u(2) v(2) by (intro that [of "n + k" zs ?m]) (simp_all add: y zs subset_iff)
  qed
qed

lemma join_prev_spec:
  assumes l: "links H m (ws @ p # r # ys)" and reg: "in_region base (ws @ p # r # ys)" and ys: "ys \<noteq> []"
    and h: "ldrh r m = n OR FREE_HEADER_MASK" and sz: "unat n + (if snd (blk m p) then unat (fst (blk m p)) else 0) < 0x8000"
  shows "if snd (blk m p)
    then \<exists>m'. join_prev H r p (n OR FREE_HEADER_MASK) R6 m = (R6 - 1, m') \<and> links H m' (ws @ p # ys) \<and>
      blk m' p = (fst (blk m p) + n, True) \<and> (\<forall>x \<in> set ws \<union> set ys \<union> heap_vars H. mem m' x = mem m x)
    else join_prev H r p (n OR FREE_HEADER_MASK) R6 m = (R6, m)"
proof -
  have "ldrh r m \<noteq> 0" using l by (auto simp: links_def)
  then have mr: "mem m r \<noteq> 0" by (auto simp: ldrh_def)
  have b: "blk m p = (ldrh p m AND NOT FREE_HEADER_MASK, ldrh p m AND FREE_HEADER_MASK \<noteq> 0)"
    by (simp add: blk_def block_size_def)
  show ?thesis
  proof (cases "snd (blk m p)")
    case False
    then show ?thesis using b mr by (simp add: join_prev_def)
  next
    case True
    then obtain q where q: "blk m p = (q, True)" by (cases "blk m p") auto
    obtain c zs where y: "ys = c # zs" using ys by (cases ys) auto
    have nq: "unat n + unat q < 0x8000" using sz q by simp
    note u = free_word_add [OF nq]
    have w: "unat (n + q) < 0x8000" using u(2) nq by simp
    note g = links_merge [OF l [unfolded y] reg [unfolded y] free_word(3) [OF w]]
    let ?m = "mem_store r 0 (strh_lo p ((n + q) OR FREE_HEADER_MASK) (strh_hi p (marker_dist p r + ldrsh r m) m))"
    have j: "join_prev H r p (n OR FREE_HEADER_MASK) R6 m = (R6 - 1, ?m)"
      unfolding join_prev_def using q b mr g(1) u(1) by (simp add: Let_def)
    have "distinct (ws @ p # r # ys)" and vr: "\<forall>a \<in> set (ws @ p # r # ys). a \<notin> heap_vars H" using l by (auto simp: links_def)
    then have "\<forall>x \<in> set ws \<union> set ys \<union> heap_vars H. mem ?m x = mem m x" by (intro ballI g(4)) auto
    moreover have "blk ?m p = (n + q, True)" using g(3) free_half [OF w] by (intro blk_free w) simp
    ultimately show ?thesis using True j g(2) q by (simp add: y add.commute)
  qed
qed

section \<open>The routine\<close>

text \<open>The list of blocks after the release of the block of size \<open>n\<close> between \<open>xs\<close> and \<open>ys\<close>.\<close>

definition release_blocks :: "block list \<Rightarrow> u32 \<Rightarrow> block list \<Rightarrow> block list" where
  "release_blocks xs n ys =
     (if ys = [] then xs
      else (let (n1, ys1) = join_right n ys in
        if xs \<noteq> [] \<and> snd (last xs) then butlast xs @ (fst (last xs) + n1, True) # ys1 else xs @ (n1, True) # ys1))"

lemma links_var:
  assumes "heap_env_ok H" and "v = heap_remaining H \<or> v = blist_size H" and "links H m as"
  shows "links H (mem_store v x m) as" "\<And>a. a \<in> set as \<Longrightarrow> mem (mem_store v x m) a = mem m a"
proof -
  have nv: "a \<noteq> v" if "a \<in> set as" for a using that assms(2,3) by (auto simp: links_def heap_vars_def)
  then show o: "mem (mem_store v x m) a = mem m a" if "a \<in> set as" for a using that by (simp add: mem_store_def)
  have "chain (mem_store v x m) as = chain m as" by (intro chain_cong marker_frame(2) o) (rule in_set_butlastD)
  moreover have "ldrsh (last as) (mem_store v x m) = ldrsh (last as) m"
    using assms(3) o [of "last as"] by (simp add: ldrsh_def links_def)
  ultimately show "links H (mem_store v x m) as"
    using assms env_distinct [OF assms(1)] marker_frame(1) [OF o] by (auto simp: links_def mem_store_def)
qed

lemma links_heap_list:
  assumes "heap_env_ok H" and "links H m as" and "length as < 65536"
  shows "heap_list H (mem_store (blist_size H) (of_nat (length as)) m) as"
proof -
  let ?m = "mem_store (blist_size H) (of_nat (length as)) m"
  have "links H ?m as" using links_var(1) [OF assms(1) _ assms(2)] by blast
  moreover have "unat (mem ?m (blist_size H)) = length as"
    using assms(3) by (simp add: mem_store_def unat_of_nat_u32)
  ultimately show ?thesis by (auto simp: heap_list_def links_def)
qed

lemma heap_list_links:
  "heap_list H m as \<Longrightarrow> as \<noteq> [] \<Longrightarrow> ldrsh (last as) m = 0 \<Longrightarrow> links H m as"
  by (auto simp: heap_list_def links_def)

text \<open>The part after the search: the free bit is set, and the block is joined.\<close>

definition release_found :: "heap_env \<Rightarrow> u32 \<Rightarrow> u32 \<Rightarrow> u32 \<Rightarrow> mcu \<Rightarrow> (u32 \<times> mcu) option" where
  "release_found H r n R6 m =
     (let (R3, R6, m2) = join_next r (n OR FREE_HEADER_MASK) R6 m in
      do {
        (R6, m3) \<leftarrow>
          (if mem m2 (fsll_start H) = r then Some (R6, m2)
           else do {
             R2 \<leftarrow> find_pred m2 r r (mem m2 (fsll_start H));
             Some (join_prev H r R2 R3 R6 m2)
           });
        Some (R6, mem_store (blist_size H) R6 m3)
      })"

lemma release_search:
  assumes ok: "heap_ok P H m (xs @ r # ys)" and fit: "heap_fits H m (xs @ r # ys)"
    and pos: "\<forall>a \<in> set xs. 0 < fst (blk m a)" and b: "blk m r = (n, False)"
    and z: "ldrsh (last (xs @ r # ys)) m = 0"
  obtains m1 where "release_allocated_marker H (mem m (hstart_addr H) + sizes m xs) m =
      release_found H r n (of_nat (length (xs @ r # ys))) m1"
    "links H m1 (xs @ r # ys)" "ldrh r m1 = n OR FREE_HEADER_MASK"
    "\<And>x. x \<in> set xs \<union> set ys \<union> (heap_vars H - {heap_remaining H}) \<Longrightarrow> mem m1 x = mem m x"
    "mem m1 (heap_remaining H) = mem m (heap_remaining H) + n"
proof -
  let ?as = "xs @ r # ys"
  note k = heap_ok_D [OF ok]
  have l: "links H m ?as" using k(3) z by (intro heap_list_links) simp_all
  have n: "block_size r m = n" "unat n < 0x8000" using b block_size_bound [of r m] by (auto simp: blk_def)
  define m0 where "m0 = mem_store (heap_remaining H) (mem m (heap_remaining H) + n) m"
  define m1 where "m1 = strh_lo r (n OR FREE_HEADER_MASK) m0"
  have c: "unat (mem m (blist_size H)) = length ?as" "mem m (fsll_start H) = hd ?as" "chain m ?as"
    using k(3) by (simp_all add: heap_list_def)
  have bl: "mem m (blist_size H) = of_nat (length ?as)" using c(1) by (metis of_nat_unat ucast_id)
  have fits: "unat (mem m (hstart_addr H)) + span (map (blk m) xs) < 2 ^ 32" using fit by (simp add: heap_fits_def)
  have f: "find_block m (mem m (hstart_addr H) + sizes m xs) (mem m (fsll_start H)) (mem m (hstart_addr H)) (mem m (blist_size H)) =
      Some (Some r)"
    unfolding bl c(2) using k(4) by (intro find_block_chain c(3) pos fits) simp
  have l0: "links H m0 ?as" "\<And>a. a \<in> set ?as \<Longrightarrow> mem m0 a = mem m a"
    using links_var [OF k(1) _ l] by (simp_all add: m0_def)
  have n0: "block_size r m0 = n" using marker_frame(3) [OF l0(2)] n(1) by simp
  have rin: "r \<in> set ?as" by simp
  note lw = links_low [OF l0(1) rin free_word(3) [OF n(2)]]
  have rv: "r \<notin> heap_vars H" "distinct ?as" using l by (auto simp: links_def)
  have b1: "mem m1 (blist_size H) = mem m (blist_size H)"
    using heap_vars_ne [OF rv(1)] env_distinct [OF k(1)] by (simp add: m1_def m0_def mem_strh mem_store_def)
  have "mem m0 (blist_size H) = mem m (blist_size H)" using env_distinct [OF k(1)] by (simp add: m0_def mem_store_def)
  then have eq: "release_allocated_marker H (mem m (hstart_addr H) + sizes m xs) m = release_found H r n (of_nat (length ?as)) m1"
    by (simp only: release_allocated_marker_def f bl [symmetric])
       (simp add: n(1) m0_def [symmetric] n0 m1_def [symmetric] Let_def release_found_def)
  have o: "mem m1 x = mem m x" if "x \<in> set xs \<union> set ys \<union> (heap_vars H - {heap_remaining H})" for x
  proof -
    have "x \<noteq> r" using that rv by auto
    then have "mem m1 x = mem m0 x" unfolding m1_def by (rule lw(3))
    moreover have "x \<noteq> heap_remaining H" using that l by (auto simp: links_def heap_vars_def)
    ultimately show ?thesis by (simp add: m0_def mem_store_def)
  qed
  have "mem m1 (heap_remaining H) = mem m (heap_remaining H) + n"
    using heap_vars_ne [OF rv(1)] by (simp add: m1_def m0_def mem_strh mem_store_def)
  with eq lw(1,2) o show thesis by (intro that [of m1]) (simp_all add: m1_def free_half [OF n(2)])
qed

text \<open>The last block: its marker is taken out.\<close>

lemma release_last:
  assumes env: "heap_env_ok H" and l: "links H m (xs @ [r])" and h: "ldrh r m = n OR FREE_HEADER_MASK"
    and len: "length (xs @ [r]) < 65536"
  obtains m' where "release_found H r n (of_nat (length (xs @ [r]))) m = Some (of_nat (length xs), m')"
    "heap_list H m' xs" "map (blk m') xs = map (blk m) xs"
    "\<And>a. a \<in> heap_vars H - {blist_size H, fsll_end H} \<Longrightarrow> mem m' a = mem m a" "mem m' (blist_size H) = of_nat (length xs)"
    "shrinks (xs @ [r]) m' xs"
proof -
  let ?m2 = "mem_store r 0 m"
  have z: "ldrsh r m = 0" and rv: "r \<notin> heap_vars H" and dist: "distinct (xs @ [r])"
    and start: "mem m (fsll_start H) = hd (xs @ [r])" "mem m (bstart_addr H) = hd (xs @ [r])" "mem m (fsll_end H) = r"
    using l by (simp_all add: links_def)
  note v = heap_vars_ne [OF rv]
  have j: "join_next r (n OR FREE_HEADER_MASK) (of_nat (length (xs @ [r]))) m = (n OR FREE_HEADER_MASK, of_nat (length xs), ?m2)"
    using z by (simp add: join_next_def)
  have st: "mem ?m2 (fsll_start H) = hd (xs @ [r])" using v start by (simp add: mem_store_def)
  show thesis
  proof (cases xs rule: rev_cases)
    case Nil
    let ?m = "mem_store (blist_size H) 0 ?m2"
    have "release_found H r n (of_nat (length (xs @ [r]))) m = Some (of_nat (length xs), ?m)"
      unfolding release_found_def j using st Nil by simp
    moreover have "heap_list H ?m xs"
      using Nil start v env_distinct [OF env] by (simp add: heap_list_def mem_store_def)
    ultimately show thesis using Nil rv by (intro that [of ?m]) (auto simp: mem_store_def shrinks_def)
  next
    case (snoc ws p)
    have c2: "chain ?m2 (ws @ [p, r])"
    proof -
      have "chain ?m2 (xs @ [r]) = chain m (xs @ [r])"
        using dist by (intro chain_cong marker_frame(2)) (auto simp: mem_store_def)
      then show ?thesis using l snoc by (simp add: links_def)
    qed
    have d2: "distinct (ws @ [p, r])" using dist snoc by simp
    have ne: "hd (xs @ [r]) \<noteq> r" using dist snoc by (cases ws) auto
    have "find_pred ?m2 r r (mem ?m2 (fsll_start H)) = Some p"
      unfolding st using find_pred_chain [OF c2 d2, of r] by (simp add: snoc)
    then have rf: "release_found H r n (of_nat (length (xs @ [r]))) m =
        Some (of_nat (length xs), mem_store (blist_size H) (of_nat (length xs)) (mem_store (fsll_end H) p (strh_hi p 0 ?m2)))"
      unfolding release_found_def j using st ne by (simp add: join_prev_def mem_store_def)
    let ?m3 = "mem_store (fsll_end H) p (strh_hi p 0 ?m2)"
    have pv: "p \<notin> heap_vars H" "p \<noteq> r" "p \<notin> set ws" using l snoc by (auto simp: links_def)
    note vp = heap_vars_ne [OF pv(1)]
    have mp: "mem ?m3 p = mem (strh_hi p 0 m) p" using vp pv(2) by (simp add: mem_store_def mem_strh)
    have x: "mem ?m3 a = mem m a" if "a \<in> set ws" for a
      using that l pv snoc heap_vars_ne [of a H] by (auto simp: links_def mem_store_def mem_strh)
    have hs: "ldrh a ?m3 = ldrh a m" if "a \<in> set xs" for a
      using that snoc marker_frame(1) [OF mp] marker_frame(1) [OF x] by (auto simp: ldrh_strh_hi)
    have "dist_ok 0" by (simp add: dist_ok_def)
    then have "ldrsh p ?m3 = 0" using mp by (simp only: ldrsh_def) (simp only: ldrsh_def [symmetric] ldrsh_strh_hi)
    moreover have "chain ?m3 xs"
    proof -
      have "chain ?m3 xs = chain m xs" using x snoc by (intro chain_cong marker_frame(2)) simp
      then show ?thesis using l chain_mid [of m ws p "[r]"] snoc by (simp add: links_def)
    qed
    moreover have "mem ?m3 (fsll_start H) = mem m (fsll_start H)" "mem ?m3 (bstart_addr H) = mem m (bstart_addr H)"
      "mem ?m3 (fsll_end H) = p"
      using v vp env_distinct [OF env] by (simp_all add: mem_store_def mem_strh)
    moreover have "hd (xs @ [r]) = hd xs" using snoc by (cases ws) simp_all
    ultimately have "links H ?m3 xs" using l hs snoc dist start by (auto simp: links_def)
    note lh = links_heap_list [OF env this]
    have sh: "shrinks (xs @ [r]) (mem_store (blist_size H) (of_nat (length xs)) ?m3) xs"
      by (rule links_shrinks [OF links_var(1) [OF env _ \<open>links H ?m3 xs\<close>]]) auto
    have "\<And>a. a \<in> heap_vars H - {blist_size H, fsll_end H} \<Longrightarrow> mem ?m3 a = mem m a"
      using rv pv(1) by (auto simp: mem_store_def mem_strh)
    moreover have "map (blk (mem_store (blist_size H) (of_nat (length xs)) ?m3)) xs = map (blk m) xs"
      using hs links_var(2) [OF env _ \<open>links H ?m3 xs\<close>] by (auto intro!: blk_ldrh simp: ldrh_def)
    ultimately show thesis using rf lh len sh
      by (intro that [of "mem_store (blist_size H) (of_nat (length xs)) ?m3"]) (auto simp: mem_store_def)
  qed
qed

text \<open>A block before others: it is joined with a free block after it, then with a free one before it.\<close>

definition free_size :: "block list \<Rightarrow> nat" where
  "free_size bs = sum_list (map (\<lambda>b. if snd b then unat (fst b) else 0) bs)"

lemma release_store:
  assumes env: "heap_env_ok H" and l: "links H m as" and len: "length as < 65536"
  shows "heap_list H (mem_store (blist_size H) (of_nat (length as)) m) as \<and>
    map (blk (mem_store (blist_size H) (of_nat (length as)) m)) as = map (blk m) as \<and>
    links H (mem_store (blist_size H) (of_nat (length as)) m) as"
  using links_heap_list [OF env l len] links_var [OF env _ l] by (auto intro: blk_cong)

lemma find_pred_links:
  assumes "links H m (ws @ p # r # ys)"
  shows "find_pred m r r (mem m (fsll_start H)) = Some p" "mem m (fsll_start H) \<noteq> r"
proof -
  have "chain m (ws @ [p, r])" "distinct (ws @ [p, r])"
    using assms chain_mid [of m "ws @ [p]" r ys] by (auto simp: links_def)
  moreover have "mem m (fsll_start H) = hd (ws @ [p, r])" using assms by (cases ws) (auto simp: links_def)
  ultimately show "find_pred m r r (mem m (fsll_start H)) = Some p" by (simp only: find_pred_chain)
  show "mem m (fsll_start H) \<noteq> r" using assms by (cases ws) (auto simp: links_def)
qed

lemma release_mid:
  assumes env: "heap_env_ok H" and l: "links H m (xs @ r # ys)" and reg: "in_region base (xs @ r # ys)"
    and ys: "ys \<noteq> []" "\<not> snd (blk m (last ys))" and h: "ldrh r m = n OR FREE_HEADER_MASK" and len: "length (xs @ r # ys) < 65536"
    and sz: "unat n + free_size (map (blk m) (drop (length xs - 1) xs @ take 1 ys)) < 0x7FFF"
  obtains m' as' where "release_found H r n (of_nat (length (xs @ r # ys))) m = Some (of_nat (length as'), m')"
    "heap_list H m' as'" "map (blk m') as' = release_blocks (map (blk m) xs) n (map (blk m) ys)"
    "\<And>a. a \<in> heap_vars H - {blist_size H} \<Longrightarrow> mem m' a = mem m a" "mem m' (blist_size H) = of_nat (length as')" "length as' < 65536"
    "shrinks (xs @ r # ys) m' as'"
proof -
  note ret = that
  have sy: "unat n + (if snd (blk m (hd ys)) then unat (fst (blk m (hd ys))) else 0) < 0x7FFF"
    using sz ys(1) by (cases ys) (auto simp: free_size_def)
  show thesis
  proof (rule join_next_spec [OF l reg ys h sy, of "of_nat (length (xs @ r # ys))"])
    fix n' ys' m2
    assume j: "join_next r (n OR FREE_HEADER_MASK) (of_nat (length (xs @ r # ys))) m =
        (n' OR FREE_HEADER_MASK, of_nat (length (xs @ r # ys)) - of_nat (length ys - length ys'), m2)"
      and jr: "join_right n (map (blk m) ys) = (n', map (blk m) ys')" and ys': "ys' \<noteq> []" "set ys' \<subseteq> set ys"
      and n': "unat n' = unat n + (if snd (blk m (hd ys)) then unat (fst (blk m (hd ys))) else 0)"
      and l2: "links H m2 (xs @ r # ys')" and h2: "ldrh r m2 = n' OR FREE_HEADER_MASK" and le: "length ys' \<le> length ys"
      and o2: "\<And>x. x \<in> set xs \<union> set ys' \<union> heap_vars H \<Longrightarrow> mem m2 x = mem m x"
    have R6: "of_nat (length (xs @ r # ys)) - of_nat (length ys - length ys') = (of_nat (length (xs @ r # ys')) :: u32)"
      using le by (simp add: of_nat_diff)
    have b2: "map (blk m2) xs = map (blk m) xs" "map (blk m2) ys' = map (blk m) ys'" using o2 by (auto intro: blk_cong)
    have "unat n' < 0x8000" using n' sy by simp
    then have br: "blk m2 r = (n', True)" by (rule blk_free [OF h2])
    have reg2: "in_region base (xs @ r # ys')" using reg ys'(2) by (auto simp: in_region_def)
    have stay: thesis if "release_found H r n (of_nat (length (xs @ r # ys))) m =
        Some (of_nat (length (xs @ r # ys')), mem_store (blist_size H) (of_nat (length (xs @ r # ys'))) m2)"
      "\<not> (xs \<noteq> [] \<and> snd (blk m (last xs)))"
    proof -
      have "length (xs @ r # ys') < 65536" using le len by simp
      note st = release_store [OF env l2 this]
      have "release_blocks (map (blk m) xs) n (map (blk m) ys) = map (blk m2) (xs @ r # ys')"
        using that(2) ys(1) jr b2 br by (auto simp: release_blocks_def last_map)
      moreover have "shrinks (xs @ r # ys) (mem_store (blist_size H) (of_nat (length (xs @ r # ys'))) m2) (xs @ r # ys')"
        by (rule links_shrinks [OF st [THEN conjunct2, THEN conjunct2]]) (use ys'(2) in auto)
      ultimately show thesis using that(1) st o2 le len
        by (intro ret [of "xs @ r # ys'" "mem_store (blist_size H) (of_nat (length (xs @ r # ys'))) m2"]) (auto simp: mem_store_def)
    qed
    show thesis
    proof (cases xs rule: rev_cases)
      case Nil
      have "mem m2 (fsll_start H) = r" using l2 Nil by (simp add: links_def)
      then have "release_found H r n (of_nat (length (xs @ r # ys))) m =
          Some (of_nat (length (xs @ r # ys')), mem_store (blist_size H) (of_nat (length (xs @ r # ys'))) m2)"
        unfolding release_found_def j R6 by simp
      then show thesis by (rule stay) (simp add: Nil)
    next
      case (snoc ws p)
      have l3: "links H m2 (ws @ p # r # ys')" and reg3: "in_region base (ws @ p # r # ys')" using l2 reg2 snoc by simp_all
      note fp = find_pred_links [OF l3]
      have bp: "blk m2 p = blk m p" using o2 [of p] snoc by (intro blk_cong) simp
      have sp: "unat n' + (if snd (blk m2 p) then unat (fst (blk m2 p)) else 0) < 0x8000"
        using sz n' ys(1) snoc by (cases ys) (auto simp: free_size_def bp split: if_splits)
      have rf: "release_found H r n (of_nat (length (xs @ r # ys))) m =
          (let (R6, m3) = join_prev H r p (n' OR FREE_HEADER_MASK) (of_nat (length (xs @ r # ys'))) m2 in
           Some (R6, mem_store (blist_size H) R6 m3))"
        unfolding release_found_def j R6 using fp by (simp add: split_beta)
      note jp = join_prev_spec [OF l3 reg3 ys'(1) h2 sp, of "of_nat (length (xs @ r # ys'))"]
      show thesis
      proof (cases "snd (blk m2 p)")
        case False
        then show thesis using jp rf snoc bp by (intro stay) simp_all
      next
        case True
        then obtain m3 where m3: "join_prev H r p (n' OR FREE_HEADER_MASK) (of_nat (length (xs @ r # ys'))) m2 =
            (of_nat (length (xs @ r # ys')) - 1, m3)" "links H m3 (ws @ p # ys')" "blk m3 p = (fst (blk m2 p) + n', True)"
          "\<forall>x \<in> set ws \<union> set ys' \<union> heap_vars H. mem m3 x = mem m2 x"
          using jp by auto
        have len3: "length (ws @ p # ys') < 65536" "of_nat (length (xs @ r # ys')) - 1 = (of_nat (length (ws @ p # ys')) :: u32)"
          using le len snoc by simp_all
        note st = release_store [OF env m3(2) len3(1)]
        have b3: "map (blk m3) ws = map (blk m) ws" "map (blk m3) ys' = map (blk m) ys'"
          using m3(4) o2 snoc by (auto intro!: blk_cong)
        let ?mm = "mem_store (blist_size H) (of_nat (length (ws @ p # ys'))) m3"
        have rb: "release_blocks (map (blk m) xs) n (map (blk m) ys) = map (blk m3) (ws @ p # ys')"
          using True ys(1) jr b3 m3(3) snoc by (simp add: release_blocks_def bp butlast_append)
        have rel: "release_found H r n (of_nat (length (xs @ r # ys))) m = Some (of_nat (length (ws @ p # ys')), ?mm)"
          unfolding rf m3(1) len3(2) by simp
        have v: "mem ?mm a = mem m a" if "a \<in> heap_vars H - {blist_size H}" for a
          using that m3(4) o2 by (simp add: mem_store_def)
        have bl: "mem ?mm (blist_size H) = of_nat (length (ws @ p # ys'))" by (simp add: mem_store_def)
        have stm: "map (blk ?mm) (ws @ p # ys') = release_blocks (map (blk m) xs) n (map (blk m) ys)"
          unfolding rb by (rule st [THEN conjunct2, THEN conjunct1])
        have "set (ws @ p # ys') \<subseteq> set (xs @ r # ys)" using ys'(2) snoc by auto
        note sh = links_shrinks [OF st [THEN conjunct2, THEN conjunct2] this]
        show thesis by (rule ret [OF rel st [THEN conjunct1] stm v bl len3(1) sh])
      qed
    qed
  qed
qed

section \<open>The service\<close>

lemma release_service:
  assumes "heap_ok A H (mcu s) (xs @ r # ys)" and "heap_fits H (mcu s) (xs @ r # ys)" and "in_region base (xs @ r # ys)"
    and "ldrsh (last (xs @ r # ys)) (mcu s) = 0" and "blk (mcu s) r = (n, False)" and "\<forall>a \<in> set xs. 0 < fst (blk (mcu s) a)"
    and "arguments 1 = mem (mcu s) (hstart_addr H) + sizes (mcu s) xs"
    and "unat n + free_size (map (blk (mcu s)) (drop (length xs - 1) xs @ take 1 ys)) < 0x7FFF"
  shows "\<exists>as' s'. svc_service_gheap_release H A svc_num arguments s = Some (ERROR_NONE, svc_num, arguments, s') \<and>
    heap_list H (mcu s') as' \<and> map (blk (mcu s')) as' = release_blocks (map (blk (mcu s)) xs) n (map (blk (mcu s)) ys) \<and>
    mem (mcu s') (heap_remaining H) = mem (mcu s) (heap_remaining H) + n \<and>
    shrinks (xs @ r # ys) (mcu s') as' \<and> mem (mcu s') (hstart_addr H) = mem (mcu s) (hstart_addr H) \<and>
    mem (mcu s') (bstart_addr H) = mem (mcu s) (bstart_addr H)"
proof (rule release_search [OF assms(1,2,6,5,4)])
  let ?m = "mcu s"
  note k = heap_ok_D [OF assms(1)]
  note d = env_distinct [OF k(1)]
  fix m1
  assume f: "release_allocated_marker H (mem ?m (hstart_addr H) + sizes ?m xs) ?m =
      release_found H r n (of_nat (length (xs @ r # ys))) m1"
    and l: "links H m1 (xs @ r # ys)" and h: "ldrh r m1 = n OR FREE_HEADER_MASK"
    and o: "\<And>x. x \<in> set xs \<union> set ys \<union> (heap_vars H - {heap_remaining H}) \<Longrightarrow> mem m1 x = mem ?m x"
    and rem: "mem m1 (heap_remaining H) = mem ?m (heap_remaining H) + n"
  have b: "blk m1 x = blk ?m x" if "x \<in> set xs \<union> set ys" for x using that o by (intro blk_cong) blast
  then have bm: "map (blk m1) xs = map (blk ?m) xs" "map (blk m1) ys = map (blk ?m) ys" by auto
  have len: "length (xs @ r # ys) < 65536" using k(4) by simp
  have "unat (mem ?m (blist_size H)) \<noteq> 0" using k(3) by (simp add: heap_list_def)
  then have nz: "mem ?m (blist_size H) \<noteq> 0" by auto
  have *: ?thesis if "release_found H r n (of_nat (length (xs @ r # ys))) m1 = Some (of_nat (length as'), m')"
    "heap_list H m' as'" "map (blk m') as' = release_blocks (map (blk m1) xs) n (map (blk m1) ys)"
    "\<And>a. a \<in> heap_vars H - {blist_size H, fsll_end H} \<Longrightarrow> mem m' a = mem m1 a" "mem m' (blist_size H) = of_nat (length as')"
    "shrinks (xs @ r # ys) m' as'" for m' as'
  proof -
    have "svc_service_gheap_release H A svc_num arguments s = Some (ERROR_NONE, svc_num, arguments, s\<lparr>mcu := m'\<rparr>)"
      using nz f that(1,5) assms(7) by (simp add: svc_service_gheap_release_def Let_def)
    moreover have "mem m' (heap_remaining H) = mem m1 (heap_remaining H)" "mem m' (hstart_addr H) = mem ?m (hstart_addr H)"
      "mem m' (bstart_addr H) = mem ?m (bstart_addr H)"
      using that(4) o d by (simp_all add: heap_vars_def)
    ultimately show ?thesis using that(2,3,6) bm rem by (intro exI [of _ as'] exI [of _ "s\<lparr>mcu := m'\<rparr>"]) simp
  qed
  show ?thesis
  proof (cases "ys = []")
    case True
    show ?thesis
    proof (rule release_last [OF k(1) l [unfolded True] h])
      fix m'
      assume "release_found H r n (of_nat (length (xs @ [r]))) m1 = Some (of_nat (length xs), m')" "heap_list H m' xs"
        "map (blk m') xs = map (blk m1) xs" "mem m' (blist_size H) = of_nat (length xs)"
        "\<And>a. a \<in> heap_vars H - {blist_size H, fsll_end H} \<Longrightarrow> mem m' a = mem m1 a" "shrinks (xs @ [r]) m' xs"
      then show ?thesis by (intro * [of xs m']) (simp_all add: True release_blocks_def)
    qed (use len True in simp)
  next
    case False
    have used: "\<not> snd (blk m1 (last ys))" using k(5) False b [of "last ys"] by simp
    have sz: "unat n + free_size (map (blk m1) (drop (length xs - 1) xs @ take 1 ys)) < 0x7FFF"
      using assms(8) by (simp add: bm drop_map [symmetric] take_map [symmetric])
    show ?thesis
    proof (rule release_mid [OF k(1) l assms(3) False used h len sz])
      fix m' as'
      assume "release_found H r n (of_nat (length (xs @ r # ys))) m1 = Some (of_nat (length as'), m')" "heap_list H m' as'"
        "map (blk m') as' = release_blocks (map (blk m1) xs) n (map (blk m1) ys)"
        "\<And>a. a \<in> heap_vars H - {blist_size H} \<Longrightarrow> mem m' a = mem m1 a" "mem m' (blist_size H) = of_nat (length as')"
        "shrinks (xs @ r # ys) m' as'"
      then show ?thesis by (intro * [of as' m']) simp_all
    qed
  qed
qed

text \<open>Where the last block is in use after a release.\<close>

lemma release_blocks_last:
  assumes "ys \<noteq> []" and "\<not> snd (last ys)"
  shows "release_blocks xs n ys \<noteq> [] \<and> \<not> snd (last (release_blocks xs n ys))"
proof -
  obtain n1 ys1 where j: "join_right n ys = (n1, ys1)" by (cases "join_right n ys")
  have "ys1 \<noteq> [] \<and> last ys1 = last ys"
    using j assms by (cases "(n, ys)" rule: join_right.cases) (auto split: if_splits)
  then show ?thesis using assms by (simp add: release_blocks_def j)
qed

lemma release_last_used:
  assumes m: "map (blk m') as' = release_blocks (map (blk m) xs) n (map (blk m) ys)" and ne: "as' \<noteq> []"
    and lst: "\<not> snd (blk m (last (xs @ r # ys)))" and l: "ys \<noteq> [] \<or> xs = [] \<or> \<not> snd (blk m (last xs))"
  shows "\<not> snd (blk m' (last as'))"
proof -
  have e: "snd (blk m' (last as')) = snd (last (map (blk m') as'))" using ne by (simp add: last_map)
  show ?thesis
  proof (cases "ys = []")
    case True
    have "map (blk m') as' = map (blk m) xs" using m True by (simp add: release_blocks_def)
    moreover from this have "xs \<noteq> []" using ne by auto
    ultimately show ?thesis using e l True by (simp add: last_map)
  next
    case False
    then show ?thesis
      unfolding e m using lst by (intro release_blocks_last [THEN conjunct2]) (simp_all add: last_map)
  qed
qed

lemma shrinks_length: "distinct as' \<Longrightarrow> shrinks as m' as' \<Longrightarrow> length as' \<le> length as"
  unfolding shrinks_def by (metis card_length card_mono distinct_card finite_set order_trans)

text \<open>
  C40. Releasing a block in use of a consistent heap, given by its address: the service returns without an error, the block
  is free afterwards and one with its free neighbours, or is dropped when it was the last one; the other blocks
  stay, and the count of free bytes grows by the size of the block. The markers are again a list from start to
  end, and the whole condition \<open>heap_ok\<close> of the services holds again, unless the last block was released and the one
  before it is free: then the heap ends with a free block, which the allocation cannot cope with
  (\<open>heap_blocks_overlap\<close> in \<open>Deviations\<close>). The sizes that are joined must stay below 0x7FFF, which the code does not
  test for the block before.
\<close>

theorem heap_release_refines:
  assumes "heap_ok A H (mcu s) (xs @ r # ys)" and "heap_fits H (mcu s) (xs @ r # ys)" and "in_region base (xs @ r # ys)"
    and "ldrsh (last (xs @ r # ys)) (mcu s) = 0" and "blk (mcu s) r = (n, False)" and "\<forall>a \<in> set xs. 0 < fst (blk (mcu s) a)"
    and "arguments 1 = mem (mcu s) (hstart_addr H) + sizes (mcu s) xs"
    and "unat n + free_size (map (blk (mcu s)) (drop (length xs - 1) xs @ take 1 ys)) < 0x7FFF"
  shows "\<exists>as' s'. svc_service_gheap_release H A svc_num arguments s = Some (ERROR_NONE, svc_num, arguments, s') \<and>
    heap_list H (mcu s') as' \<and> map (blk (mcu s')) as' = release_blocks (map (blk (mcu s)) xs) n (map (blk (mcu s)) ys) \<and>
    mem (mcu s') (heap_remaining H) = mem (mcu s) (heap_remaining H) + n \<and>
    (ys \<noteq> [] \<or> xs = [] \<or> \<not> snd (blk (mcu s) (last xs)) \<longrightarrow> heap_ok A H (mcu s') as')"
proof -
  obtain as' s' where r: "svc_service_gheap_release H A svc_num arguments s = Some (ERROR_NONE, svc_num, arguments, s')"
    "heap_list H (mcu s') as'" "map (blk (mcu s')) as' = release_blocks (map (blk (mcu s)) xs) n (map (blk (mcu s)) ys)"
    "mem (mcu s') (heap_remaining H) = mem (mcu s) (heap_remaining H) + n"
    "shrinks (xs @ r # ys) (mcu s') as'" "mem (mcu s') (bstart_addr H) = mem (mcu s) (bstart_addr H)"
    using release_service [where arguments = arguments, OF assms] by blast
  have ok: "heap_env_ok H" "region_ok A H (mcu s')" "length (xs @ r # ys) < 65535" "\<not> snd (blk (mcu s) (last (xs @ r # ys)))"
    using assms(1) region_cong [OF r(6), of A] by (simp_all add: heap_ok_def)
  have "length as' < 65535" using shrinks_length [OF _ r(5)] r(2) ok(3) by (simp add: heap_list_def)
  moreover have "\<not> snd (blk (mcu s') (last as'))"
    if "as' \<noteq> []" "ys \<noteq> [] \<or> xs = [] \<or> \<not> snd (blk (mcu s) (last xs))"
    by (rule release_last_used [OF r(3) that(1) ok(4) that(2)])
  ultimately show ?thesis using r(1-4) ok by (auto simp: heap_ok_def)
qed

text \<open>A heap of two blocks in use, of 24 and 16 bytes; the first one is released.\<close>

definition two_blocks :: mcu where
  "two_blocks = demo_mcu\<lparr>mem := (\<lambda>_. 0)(0x20000100 := 0x20008000, 0x20000104 := 0x200063FC, 0x20000108 := 0x8000,
     0x2000010C := 0x200063FC, 0x20000110 := 0x200063F8, 0x20000114 := 2, 0x200063FC := 0xFFFF0018, 0x200063F8 := 16)\<rparr>"

lemma two_markers:
  "ldrh 0x200063FC two_blocks = 24" "ldrh 0x200063F8 two_blocks = 16" "ldrsh 0x200063F8 two_blocks = 0"
  "next_marker 0x200063FC two_blocks = 0x200063F8"
  "blk two_blocks 0x200063FC = (24, False)" "blk two_blocks 0x200063F8 = (16, False)"
  by (simp_all add: two_blocks_def ldrh_def ldrsh_def next_marker_def blk_def block_size_def mask_eq_exp_minus_1)

lemma two_blocks_ok:
  "heap_ok demo_arm heap_demo two_blocks [0x200063FC, 0x200063F8]" "heap_fits heap_demo two_blocks [0x200063FC, 0x200063F8]"
proof -
  have v: "mem two_blocks (bstart_addr heap_demo) = 0x200063FC" "mem two_blocks (fsll_start heap_demo) = 0x200063FC"
    "mem two_blocks (fsll_end heap_demo) = 0x200063F8" "mem two_blocks (blist_size heap_demo) = 2"
    "mem two_blocks (hstart_addr heap_demo) = 0x20008000"
    by (simp_all add: two_blocks_def heap_demo_def)
  have "region_ok demo_arm heap_demo two_blocks"
    using demo_region by (simp add: region_ok_def demo_params_port v) (simp add: demo_params_def)
  moreover have "heap_list heap_demo two_blocks [0x200063FC, 0x200063F8]"
    by (simp add: heap_list_def v two_markers) (simp add: heap_vars_def heap_demo_def)
  moreover have "heap_env_ok heap_demo" by (simp add: heap_env_ok_def heap_demo_def)
  ultimately show "heap_ok demo_arm heap_demo two_blocks [0x200063FC, 0x200063F8]"
    by (simp add: heap_ok_def two_markers)
  show "heap_fits heap_demo two_blocks [0x200063FC, 0x200063F8]"
    by (simp add: heap_fits_def span_def v two_markers)
qed

theorem heap_release_refines_witness:
  "\<exists>as' s'. svc_service_gheap_release heap_demo demo_arm GHEAP_RELEASE ((\<lambda>_. 0)(1 := 0x20008000)) (demo_state\<lparr>mcu := two_blocks\<rparr>) =
      Some (ERROR_NONE, GHEAP_RELEASE, (\<lambda>_. 0)(1 := 0x20008000), s') \<and> map (blk (mcu s')) as' = [(24, True), (16, False)] \<and>
    heap_ok demo_arm heap_demo (mcu s') as'"
proof -
  have "marker_at 0x200063FC 0 0x200063FC" "marker_at 0x200063FC 1 0x200063F8" by (simp_all add: marker_at_def)
  then have r: "in_region 0x200063FC [0x200063FC, 0x200063F8]" by (auto simp: in_region_def)
  have h: "mem two_blocks (hstart_addr heap_demo) = 0x20008000" by (simp add: two_blocks_def heap_demo_def)
  have m: "mcu (demo_state\<lparr>mcu := two_blocks\<rparr>) = two_blocks" by simp
  have e: "release_blocks (map (blk two_blocks) []) 24 (map (blk two_blocks) [0x200063F8]) = [(24, True), (16, False)]"
    by (simp add: release_blocks_def two_markers)
  note rel = heap_release_refines [of demo_arm heap_demo "demo_state\<lparr>mcu := two_blocks\<rparr>" "[]" "0x200063FC" "[0x200063F8]"
      "0x200063FC" 24 "(\<lambda>_. 0)(1 := 0x20008000)" GHEAP_RELEASE, unfolded m e append_Nil]
  have z: "ldrsh (last [0x200063FC, 0x200063F8]) two_blocks = 0" "\<forall>a \<in> set []. 0 < fst (blk two_blocks a)"
    by (simp_all add: two_markers)
  have a: "((\<lambda>_. 0)(1 := 0x20008000)) 1 = mem two_blocks (hstart_addr heap_demo) + sizes two_blocks []"
    by (simp add: h sizes_def)
  have f: "unat (24 :: u32) + free_size (map (blk two_blocks) (drop (length ([] :: u32 list) - 1) [] @ take 1 [0x200063F8])) < 0x7FFF"
    by (simp add: free_size_def two_markers)
  from rel [OF two_blocks_ok r z(1) two_markers(5) z(2) a f] show ?thesis by (elim exE conjE) (intro exI conjI, assumption+, erule mp, simp)
qed

end
