(* ===== verification/MpcPort.thy ===== *)
theory MpcPort
  imports Startup Share HeapList SvcInv
begin

text \<open>
  The port to MPC57x8 (\<^verbatim>\<open>src/arch/mpc57x8\<close>): the registers of \<^verbatim>\<open>regmap.h\<close>, the macros of
  \<^verbatim>\<open>os_support.h\<close>, the tick timer, the interrupt controller, the first frame of a task, the start of
  the kernel and the mutex routines.
\<close>

section \<open>Registers (regmap.h)\<close>

text \<open>The system timer module and the arrays of the interrupt controller.\<close>

abbreviation (input) NUMBER_OF_CORES :: nat where "NUMBER_OF_CORES \<equiv> 3"
abbreviation (input) STM_0_CHANNEL_0_INT :: nat where "STM_0_CHANNEL_0_INT \<equiv> 36"
abbreviation (input) INTERRUPT_PRIORITY_DEFAULT :: u32 where "INTERRUPT_PRIORITY_DEFAULT \<equiv> 6"
abbreviation (input) CONTEXT_SWITCH_SW_INT :: nat where "CONTEXT_SWITCH_SW_INT \<equiv> 0"
abbreviation (input) INTC_PSR_COUNT :: nat where "INTC_PSR_COUNT \<equiv> 1024"
abbreviation (input) STM_0_BASE :: u32 where "STM_0_BASE \<equiv> 0xFC068000"
abbreviation (input) INTC_BASE :: u32 where "INTC_BASE \<equiv> 0xFC040000"
abbreviation (input) STM_CR :: u32 where "STM_CR \<equiv> 0xFC068000"
abbreviation (input) STM_CNT :: u32 where "STM_CNT \<equiv> 0xFC068004"

definition STM_CHANNEL :: "nat \<Rightarrow> u32" where
  "STM_CHANNEL i = STM_0_BASE + 0x10 + 0x10 * of_nat i"

definition INTC_IACKR :: "nat \<Rightarrow> u32" where
  "INTC_IACKR i = INTC_BASE + 0x20 + 4 * of_nat i"

definition INTC_SSCIR :: "nat \<Rightarrow> u32" where
  "INTC_SSCIR i = INTC_BASE + 0x40 + of_nat i"

definition INTC_PSR :: "nat \<Rightarrow> u32" where
  "INTC_PSR i = INTC_BASE + 0x60 + 2 * of_nat i"

text \<open>
  An assignment to a bit field reads the register and writes it back. The fields are numbered from the
  lowest bit; the first member of a structure has the highest bits.
\<close>

definition set_field :: "u32 \<Rightarrow> nat \<Rightarrow> nat \<Rightarrow> u32 \<Rightarrow> mcu \<Rightarrow> mcu" where
  "set_field a pos width v m =
     hwreg_store a (HWREG a m AND NOT (push_bit pos (mask width)) OR push_bit pos (take_bit width v)) m"

definition PRC_SELN :: "nat \<Rightarrow> u32 \<Rightarrow> mcu \<Rightarrow> mcu" where
  "PRC_SELN i = set_field (INTC_PSR i) 12 4"

definition PRIN :: "nat \<Rightarrow> u32 \<Rightarrow> mcu \<Rightarrow> mcu" where
  "PRIN i = set_field (INTC_PSR i) 0 4"

definition SSCIR_SET :: "nat \<Rightarrow> u32 \<Rightarrow> mcu \<Rightarrow> mcu" where
  "SSCIR_SET i = set_field (INTC_SSCIR i) 1 1"

definition CHANNEL_CEN :: "nat \<Rightarrow> u32 \<Rightarrow> mcu \<Rightarrow> mcu" where
  "CHANNEL_CEN i = set_field (STM_CHANNEL i) 0 1"

definition CHANNEL_CIF :: "nat \<Rightarrow> u32 \<Rightarrow> mcu \<Rightarrow> mcu" where
  "CHANNEL_CIF i = set_field (STM_CHANNEL i + 4) 0 1"

definition CHANNEL_CMP :: "nat \<Rightarrow> u32 \<Rightarrow> mcu \<Rightarrow> mcu" where
  "CHANNEL_CMP i = hwreg_store (STM_CHANNEL i + 8)"

section \<open>Macros (os_support.h)\<close>

definition mpc_ENABLE_SCHEDULER :: "mcu \<Rightarrow> mcu" where
  "mpc_ENABLE_SCHEDULER = hwreg_store STM_CR 0x903"

definition mpc_DISABLE_SCHEDULER :: "mcu \<Rightarrow> mcu" where
  "mpc_DISABLE_SCHEDULER = hwreg_store STM_CR 0x902"

definition mpc_SCHEDULER_TIMER_RESET :: "mcu \<Rightarrow> mcu" where
  "mpc_SCHEDULER_TIMER_RESET = hwreg_store STM_CNT 0"

text \<open>\<open>CONTEXT_SWITCH_SW_INT\<close> is interrupt 0.\<close>

definition mpc_TRIGGER_CONTEXT_SWITCH :: "mcu \<Rightarrow> mcu" where
  "mpc_TRIGGER_CONTEXT_SWITCH m = SSCIR_SET CONTEXT_SWITCH_SW_INT 1 (CHANNEL_CIF 0 1 m)"

definition mpc_TRIGGER_DEVICE_RESET :: "mcu \<Rightarrow> mcu" where
  "mpc_TRIGGER_DEVICE_RESET m = m"

text \<open>What the build and the device fix: addresses of symbols and the number of the core.\<close>

record mpc_env =
  VECTOR_TABLE :: u32
  VECTOR_RAM :: u32
  pre_context_switch_addr :: u32
  mpc_scheduler_addr :: u32
  GET_CORE_ID :: u32

section \<open>Tick timer (os_timer.c)\<close>

text \<open>The quotient has 32 bits, so the test of the 64-bit variable never holds.\<close>

definition mpc_os_timer_config :: "'z params_scheme \<Rightarrow> u32 \<Rightarrow> kstate \<Rightarrow> u32 \<times> kstate" where
  "mpc_os_timer_config P new_cpu_freq s =
     (let os_timer_load = ucast (new_cpu_freq div (TASK_PER_SEC P * 10)) :: 64 word in
      if 0xFFFFFFFF < os_timer_load then (ERROR_SYSTICK_TICK_VALUE_OVERFLOW, s)
      else (ERROR_NONE, on_mcu (hwreg_store STM_CNT 0 \<circ> CHANNEL_CMP 0 (ucast os_timer_load) \<circ>
              CHANNEL_CEN 0 1 \<circ> CHANNEL_CIF 0 1) s))"

definition mpc_os_timer_init :: "'z params_scheme \<Rightarrow> mpc_env \<Rightarrow> u32 \<Rightarrow> kstate \<Rightarrow> u32 \<times> kstate" where
  "mpc_os_timer_init P M new_cpu_freq s =
     (let (error, s1) = mpc_os_timer_config P new_cpu_freq s in
      if error \<noteq> 0 then (error, s1)
      else (error, on_mcu (PRIN STM_0_CHANNEL_0_INT 2 \<circ> mem_store (VECTOR_RAM M + 4 * of_nat STM_0_CHANNEL_0_INT) (mpc_scheduler_addr M) \<circ>
              PRC_SELN STM_0_CHANNEL_0_INT (drop_bit 0 8)) s1))"

section \<open>Interrupt controller (arch_interrupt.c)\<close>

text \<open>\<open>INTC->PSR\<close> has 1024 elements; the number of the interrupt is not tested.\<close>

definition mpc_interrupt_enable :: "u32 \<Rightarrow> mcu \<Rightarrow> (u32 \<times> mcu) option" where
  "mpc_interrupt_enable interrupt m =
     do { chk (unat interrupt < INTC_PSR_COUNT); Some (ERROR_NONE, PRIN (unat interrupt) INTERRUPT_PRIORITY_DEFAULT m) }"

definition mpc_interrupt_disable :: "u32 \<Rightarrow> mcu \<Rightarrow> (u32 \<times> mcu) option" where
  "mpc_interrupt_disable interrupt m =
     do { chk (unat interrupt < INTC_PSR_COUNT); Some (ERROR_NONE, PRIN (unat interrupt) 0 m) }"

definition mpc_interrupt_register :: "mpc_env \<Rightarrow> u32 \<Rightarrow> u32 \<Rightarrow> mcu \<Rightarrow> (u32 \<times> mcu) option" where
  "mpc_interrupt_register M interrupt handler m =
     (let core_id = ucast (GET_CORE_ID M) :: u8 in
      do {
        chk (unat interrupt < INTC_PSR_COUNT);
        Some (ERROR_NONE, mem_store (VECTOR_RAM M + 4 * interrupt) handler
                (PRC_SELN (unat interrupt) (drop_bit (unat core_id) 8) m))
      })"

definition mpc_interrupt_priority :: "u8 \<Rightarrow> u8 \<Rightarrow> mcu \<Rightarrow> (u32 \<times> mcu) option" where
  "mpc_interrupt_priority interrupt priority m = Some (ERROR_NONE, m)"

text \<open>\<open>FEATURE_INTERRUPT_INT_VECTORS\<close>, with index 3 for the third core.\<close>

definition int_vectors :: "u32 list" where
  "int_vectors = [INTC_IACKR 0, INTC_IACKR 1, INTC_IACKR 3]"

definition mpc_vector_table_relocate :: "'z params_scheme \<Rightarrow> mpc_env \<Rightarrow> mcu \<Rightarrow> mcu option" where
  "mpc_vector_table_relocate P M m =
     (let core_id = ucast (GET_CORE_ID M) :: u8;
          m1 = fold (\<lambda>n m. mem_store (VECTOR_RAM M + 4 * of_nat n) (mem m (VECTOR_TABLE M + 4 * of_nat n)) m)
                 [0..<NUM_OF_INTERRUPTS P] m
      in do {
        chk (unat core_id < length int_vectors);
        Some (hwreg_store (int_vectors ! unat core_id) (VECTOR_RAM M) m1)
      })"

section \<open>Kernel start and first frame (os_util.c)\<close>

partial_function (option) clear_words :: "u32 \<Rightarrow> u32 \<Rightarrow> mcu \<Rightarrow> mcu option" where
  "clear_words destination stop m =
     (if destination < stop then clear_words (destination + 4) stop (mem_store destination 0 m) else Some m)"

text \<open>
  The kernel's sections are initialised here, after \<open>kernel_init\<close> has written \<open>first_start\<close>: the kernel
  variables get their initial values.
\<close>

definition mpc_kernel_init :: "sections \<Rightarrow> mpc_env \<Rightarrow> kstate \<Rightarrow> (u32 \<times> kstate) option" where
  "mpc_kernel_init L M s = do {
     m1 \<leftarrow> copy_words (kdat_load L) (kdat_start L) (kdat_end L) (mcu s);
     m2 \<leftarrow> clear_words (kbss_start L) (kbss_end L) m1;
     let m3 = PRC_SELN CONTEXT_SWITCH_SW_INT (drop_bit 0 8) m2;
     let m4 = mem_store (VECTOR_RAM M) (pre_context_switch_addr M) m3;
     Some (ERROR_NONE, kvar_init (PRIN CONTEXT_SWITCH_SW_INT 1 m4))
   }"

definition mpc_mpu_init :: "kstate \<Rightarrow> u32 \<times> kstate" where
  "mpc_mpu_init s = (ERROR_NONE, s)"

definition mpc_heap_init :: "kstate \<Rightarrow> kstate" where
  "mpc_heap_init s = s"

definition mpc_task_stack_init :: "'z params_scheme \<Rightarrow> nat \<Rightarrow> u32 \<Rightarrow> u32 \<Rightarrow> kstate \<Rightarrow> kstate" where
  "mpc_task_stack_init P task_index ptr_func proc_arg s =
     (let psp = PSP_Array s task_index + of_nat (TASK_STACK_SIZE P - 1) * 4 - 22 * 4;
          s1 = s\<lparr>PSP_Array := (PSP_Array s)(task_index := psp)\<rparr>
      in on_mcu (mem_store (psp + 4 * 10) proc_arg \<circ>
                 mem_store (psp + 4 * 6) (resolve_end_addr P) \<circ>
                 mem_store (psp + 4 * 4) 0xD000 \<circ>
                 mem_store (psp + 4 * 3) ptr_func) s1)"

text \<open>\<open>btask_psp_correction\<close> of \<^verbatim>\<open>os_util.S\<close> is empty.\<close>

definition mpc_btask_psp_correction :: "kstate \<Rightarrow> kstate" where
  "mpc_btask_psp_correction s = s"

section \<open>Mutexes (mutex.S)\<close>

text \<open>
  The low half of the word is reserved and stored first, then the high half. The routine for the release
  keeps the old value, clears the word, and compares the value with what the word at
  \<open>mutex_stash\<close> holds after that.
\<close>

definition mpc_mutex_lock :: "nat \<Rightarrow> bool \<Rightarrow> u32 \<Rightarrow> kstate \<Rightarrow> (u32 \<times> kstate) option" where
  "mpc_mutex_lock n excl mutex s =
     (if ldrh mutex (mcu s) \<noteq> 0 then Some (1, s)
      else do {
        chk (unat (current_task s) < n);
        (let tid = task_id s (unat (current_task s)) in
         if excl then Some (0, on_mcu (strh_hi mutex (drop_bit 16 tid) \<circ> strh_lo mutex tid) s)
         else Some (1, s))
      })"

definition mpc_mutex_unlock :: "nat \<Rightarrow> supervisor \<Rightarrow> svc_args \<Rightarrow> u32 \<Rightarrow> kstate \<Rightarrow> kstate option" where
  "mpc_mutex_unlock n call regs mutex s =
     (let r7 = mem (mcu s) mutex;
          s1 = on_mcu (mem_store mutex 0) s in
      do {
        chk (unat (current_task s1) < n);
        (let r6 = mutex_stash s1 (unat (current_task s1)) in
         if r6 = 0 then Some s1
         else if mem (mcu s1) r6 \<noteq> r7 then Some s1
         else svc_instr PRIORITY_DEMOTE call regs s1)
      })"

section \<open>The port\<close>

text \<open>\<open>TRIGGER_SCHEDULER\<close> calls the scheduler at once; it does not use the macro itself.\<close>

definition mpc_port0 :: "params \<Rightarrow> mpc_env \<Rightarrow> port" where
  "mpc_port0 P M = \<lparr>
     MAX_TASK_COUNT = MAX_TASK_COUNT P, TASK_STACK_SIZE = TASK_STACK_SIZE P,
     HEAP_BOOKEEPING_SIZE = HEAP_BOOKEEPING_SIZE P, TASK_PER_SEC = TASK_PER_SEC P,
     NUM_OF_INTERRUPTS = NUM_OF_INTERRUPTS P, KERNEL_START_ADDRESS = KERNEL_START_ADDRESS P,
     proc_heap_addr = proc_heap_addr P, base_task_addr = base_task_addr P,
     BaseTask_addr = BaseTask_addr P, base_mutex_addr = base_mutex_addr P,
     resolve_end_addr = resolve_end_addr P,
     ENABLE_SCHEDULER = mpc_ENABLE_SCHEDULER,
     DISABLE_SCHEDULER = mpc_DISABLE_SCHEDULER,
     SCHEDULER_TIMER_RESET = mpc_SCHEDULER_TIMER_RESET,
     TRIGGER_CONTEXT_SWITCH = mpc_TRIGGER_CONTEXT_SWITCH,
     TRIGGER_DEVICE_RESET = mpc_TRIGGER_DEVICE_RESET,
     TRIGGER_SCHEDULER = Some,
     suspend_task = (\<lambda>_ m. m), resume_task = (\<lambda>_ m. m),
     arch_task_stack_init = mpc_task_stack_init P,
     btask_psp_correction = mpc_btask_psp_correction,
     os_timer_config = mpc_os_timer_config P,
     arch_interrupt_enable = mpc_interrupt_enable,
     arch_interrupt_disable = mpc_interrupt_disable,
     arch_interrupt_register = mpc_interrupt_register M,
     arch_interrupt_priority = mpc_interrupt_priority\<rparr>"

definition mpc_port :: "params \<Rightarrow> mpc_env \<Rightarrow> port" where
  "mpc_port P M = (mpc_port0 P M)\<lparr>TRIGGER_SCHEDULER := scheduler (mpc_port0 P M)\<rparr>"

lemma set_field_objs [simp]: "objs (set_field a p w v m) = objs m"
  by (simp add: set_field_def)

lemmas mpc_registers = PRC_SELN_def PRIN_def SSCIR_SET_def CHANNEL_CEN_def CHANNEL_CIF_def CHANNEL_CMP_def

interpretation mpc: kernel_port "mpc_port P M" for P M
  by unfold_locales
    (simp_all add: mpc_port_def mpc_port0_def mpc_task_stack_init_def mpc_btask_psp_correction_def
      mpc_os_timer_config_def mpc_ENABLE_SCHEDULER_def mpc_DISABLE_SCHEDULER_def mpc_registers
      mpc_SCHEDULER_TIMER_RESET_def mpc_TRIGGER_CONTEXT_SWITCH_def on_mcu_def Let_def)

lemma mpc_port_sel [simp]:
  "MAX_TASK_COUNT (mpc_port P M) = MAX_TASK_COUNT P" "TASK_STACK_SIZE (mpc_port P M) = TASK_STACK_SIZE P"
  "MAX_TASK_COUNT (mpc_port0 P M) = MAX_TASK_COUNT P"
  by (simp_all add: mpc_port_def mpc_port0_def)

lemma scheduler_trigger: "scheduler (A\<lparr>TRIGGER_SCHEDULER := f\<rparr>) = scheduler A"
  by (simp add: scheduler_def sched_enter_def sched_leave_def Let_def fun_eq_iff cong: if_cong)

lemma mpc_trigger: "TRIGGER_SCHEDULER (mpc_port P M) = scheduler (mpc_port P M)"
  by (simp add: mpc_port_def scheduler_trigger)

end
