(* ===== verification/MpcProps.thy ===== *)
theory MpcProps
  imports MpcPort SchedSafe Demo
begin

text \<open>
  Properties of the ports to ARM and MPC57x8: where the first frame of a task lies, and what a hand-over does on
  a port that calls the scheduler at once.
\<close>

section \<open>Frames\<close>

lemma mem_stores: "mem (mem_store a v m) = (mem m)(a := v)"
  by (simp add: mem_store_def)

lemma in_frame:
  assumes "unat (b :: u32) + 4 * n \<le> 2 ^ 32" and "d < n" and "k \<le> d"
  shows "unat b \<le> unat (b + of_nat (n - 1) * 4 - 4 * of_nat d + 4 * of_nat k) \<and>
    unat (b + of_nat (n - 1) * 4 - 4 * of_nat d + 4 * of_nat k) + 4 \<le> unat b + 4 * n"
proof -
  define j where "j = n - 1 - d + k"
  have j: "j < n" using assms(2,3) by (simp add: j_def)
  have eq: "b + of_nat (n - 1) * 4 - 4 * of_nat d + 4 * of_nat k = b + of_nat (4 * j)"
    using assms(2) by (simp add: j_def of_nat_diff algebra_simps)
  have "unat (b + of_nat (4 * j)) = unat b + 4 * j"
  proof -
    have "unat (of_nat (4 * j) :: u32) = 4 * j" using assms(1) j by (intro unat_of_nat_u32) simp
    then show ?thesis using assms(1) j by (simp add: unat_word_ariths del: of_nat_mult)
  qed
  then show ?thesis unfolding eq using j by simp
qed

text \<open>
  C37. The first frame of a task, on ARM and on MPC57x8: the stack pointer and all words that are
  written lie inside the \<open>TASK_STACK_SIZE\<close> words of the task's own stack; the other
  stack pointers do not change.
\<close>

theorem first_frame_in_stack:
  assumes "23 < TASK_STACK_SIZE P" and "unat (PSP_Array s i) + 4 * TASK_STACK_SIZE P \<le> 2 ^ 32"
    and "s' = arm_task_stack_init P i f a s \<or> s' = mpc_task_stack_init P i f a s"
  shows "unat (PSP_Array s i) \<le> unat (PSP_Array s' i) \<and> unat (PSP_Array s' i) + 4 \<le> unat (PSP_Array s i) + 4 * TASK_STACK_SIZE P \<and>
    (\<forall>j. j \<noteq> i \<longrightarrow> PSP_Array s' j = PSP_Array s j) \<and>
    (\<forall>x. mem (mcu s') x \<noteq> mem (mcu s) x \<longrightarrow>
      unat (PSP_Array s i) \<le> unat x \<and> unat x + 4 \<le> unat (PSP_Array s i) + 4 * TASK_STACK_SIZE P)"
proof -
  let ?n = "TASK_STACK_SIZE P"
  have n: "18 < ?n" "22 < ?n" using assms(1) by simp_all
  note arm = in_frame [OF assms(2) n(1)] and mpc = in_frame [OF assms(2) n(2)]
  from assms(3) show ?thesis
  proof
    assume s': "s' = arm_task_stack_init P i f a s"
    show ?thesis
      using arm [of 0] arm [of 1] arm [of 10] arm [of 15] arm [of 16] arm [of 17]
      by (simp add: s' arm_task_stack_init_def on_mcu_def mem_stores Let_def)
  next
    assume s': "s' = mpc_task_stack_init P i f a s"
    show ?thesis
      using mpc [of 0] mpc [of 3] mpc [of 4] mpc [of 6] mpc [of 10]
      by (simp add: s' mpc_task_stack_init_def on_mcu_def mem_stores Let_def)
  qed
qed

theorem first_frame_in_stack_witness:
  "unat (PSP_Array (demo_state\<lparr>PSP_Array := \<lambda>_. 0x20001000\<rparr>) 2) \<le>
    unat (PSP_Array (mpc_task_stack_init demo_params 2 0x4001 7 (demo_state\<lparr>PSP_Array := \<lambda>_. 0x20001000\<rparr>)) 2)"
  using first_frame_in_stack [of demo_params "demo_state\<lparr>PSP_Array := \<lambda>_. 0x20001000\<rparr>" 2
    "mpc_task_stack_init demo_params 2 0x4001 7 (demo_state\<lparr>PSP_Array := \<lambda>_. 0x20001000\<rparr>)" "0x4001" 7]
  by (simp add: demo_params_def)

section \<open>Handing over\<close>

text \<open>
  C38. On MPC57x8 a hand-over is a tick that runs inside the service: from a state of the running system the
  service returns, the context switch after it gives the state of a tick, exactly
  the chosen task is active and the kernel's invariant holds again.
\<close>

theorem mpc_hand_over_is_tick:
  assumes "run_ok (MAX_TASK_COUNT P) s" and "\<not> self_kill s" and "priority_cur s 0 = 0"
    and "state s 0 = TASK_STATE_SLEEP \<or> current_task s = 0" and "1 < unat (lstash_ptr s)"
  shows "\<exists>s'. svc_service_hand_over (mpc_port P M) svc_num arguments s = Some (ERROR_NONE, svc_num, arguments, s') \<and>
    kernel_tick (mpc_port P M) psp s = Some (context_switch psp s') \<and> run_ok (MAX_TASK_COUNT P) (context_switch psp s')"
proof -
  let ?A = "mpc_port P M"
  have pre: "sched_pre (MAX_TASK_COUNT ?A) s" using run_ok_sched_pre [OF assms(1)] by simp
  have r: "normal_schedule s" "unat (current_task s) < MAX_TASK_COUNT P" using assms(1) by (simp_all add: run_ok_def)
  obtain t where t: "kernel_tick ?A psp s = Some t"
    using tick_exists [OF pre assms(3) _ assms(5)] assms(4) r(1) by blast
  then obtain s' where s': "scheduler ?A s = Some s'" "t = context_switch psp s'" by (auto simp: kernel_tick_def)
  have se: "sched_enter ?A (s\<lparr>state := (state s)(unat (current_task s) := TASK_STATE_SLEEP), normal_schedule := False\<rparr>) =
      sched_enter ?A s"
    using r by (simp add: sched_enter_def on_mcu_def Let_def)
  have "scheduler ?A (s\<lparr>state := (state s)(unat (current_task s) := TASK_STATE_SLEEP), normal_schedule := False\<rparr>) = Some s'"
    unfolding s'(1) [symmetric] by (simp only: scheduler_def se)
  then have "svc_service_hand_over ?A svc_num arguments s = Some (ERROR_NONE, svc_num, arguments, s')"
    using assms(2) r(2) by (simp add: svc_service_hand_over_def mpc_trigger)
  moreover have "run_ok (MAX_TASK_COUNT ?A) t" by (rule tick_result [OF pre t])
  ultimately show ?thesis using t s' by auto
qed

definition demo_mpc :: mpc_env where
  "demo_mpc = \<lparr>VECTOR_TABLE = 0x1000, VECTOR_RAM = 0x40000000, pre_context_switch_addr = 0x5001,
     mpc_scheduler_addr = 0x5101, GET_CORE_ID = 0\<rparr>"

theorem mpc_hand_over_is_tick_witness:
  "\<exists>s'. svc_service_hand_over (mpc_port demo_params demo_mpc) HAND_OVER (\<lambda>_. 0) demo_state =
      Some (ERROR_NONE, HAND_OVER, \<lambda>_. 0, s') \<and> run_ok 4 (context_switch 0 s')"
  using mpc_hand_over_is_tick [of demo_params demo_state demo_mpc HAND_OVER "\<lambda>_. 0" 0] demo_run_ok
  by (auto simp: demo_fields demo_params_def)

end
