(* ===== verification/OssimPort.thy ===== *)
theory OssimPort
  imports Boot SvcInv Share
begin

text \<open>
  The port to the simulator (\<^verbatim>\<open>src/arch/ossim\<close>), where tasks are threads of a Windows process: the
  macros of \<^verbatim>\<open>os_support.h\<close>, \<^verbatim>\<open>os_util.c\<close>, \<^verbatim>\<open>os_timer.c\<close>, the kernel service call of
  \<^verbatim>\<open>svc_handler.c\<close> and \<^verbatim>\<open>mutex.c\<close>.

  A call of the Windows API is an event of the log; its result is a value of the environment. The messages the
  simulator prints are left out.
\<close>

section \<open>The environment\<close>

text \<open>
  Addresses of the simulator's variables (\<^verbatim>\<open>arch_kvar.c\<close>) and the results of the API calls that create
  objects; 0 is the result of a failure.
\<close>

record ossim_env =
  first_schedule_addr :: u32
  pc_task_handle_addr :: u32
  schedule_count_addr :: u32
  proc_heap_var :: u32
  sim_kernel_region :: u32
  UPPER_REGION_SIZE :: u32
  CreateMutex :: u32
  CreateTimerQueue :: u32
  CreateThread :: "u32 \<Rightarrow> u32 \<Rightarrow> u32"

abbreviation (input) WAIT_ABANDONED :: u32 where "WAIT_ABANDONED \<equiv> 0x80"

definition emit :: "io \<Rightarrow> mcu \<Rightarrow> mcu" where
  "emit e m = m\<lparr>iolog := e # iolog m\<rparr>"

section \<open>os_timer.c\<close>

text \<open>\<open>exit(1)\<close> ends the process: there is no state after it.\<close>

definition ossim_os_timer_config :: "u32 \<Rightarrow> kstate \<Rightarrow> u32 \<times> kstate" where
  "ossim_os_timer_config new_cpu_freq s = (ERROR_NONE, s)"

definition ossim_os_timer_init :: "ossim_env \<Rightarrow> u32 \<Rightarrow> kstate \<Rightarrow> (u32 \<times> kstate) option" where
  "ossim_os_timer_init W new_cpu_freq s =
     (if CreateTimerQueue W = 0 then None else Some (ossim_os_timer_config new_cpu_freq s))"

text \<open>The period in milliseconds: the quotient of the floating point division, truncated.\<close>

definition enable_os_timer :: "'z params_scheme \<Rightarrow> mcu \<Rightarrow> mcu" where
  "enable_os_timer P = (let timer_load = 1000 div TASK_PER_SEC P in emit (TimerQueue timer_load))"

definition trigger_os_timer :: "mcu \<Rightarrow> mcu" where
  "trigger_os_timer = emit (TimerQueue 0)"

text \<open>
  The callback of the timer. \<open>wait_result\<close> is the result of waiting for the lock of the
  kernel; with an abandoned lock the routine returns at once.
\<close>

definition timer_routine :: "ossim_env \<Rightarrow> port \<Rightarrow> u32 \<Rightarrow> kstate \<Rightarrow> kstate option" where
  "timer_routine W A wait_result s =
     (if \<not> first_start s then Some s
      else if wait_result = WAIT_ABANDONED then Some s
      else do {
        s1 \<leftarrow> scheduler A s;
        let s2 = on_mcu (\<lambda>m. mem_store (schedule_count_addr W) (mem m (schedule_count_addr W) + 1) m) s1;
        Some (s2\<lparr>current_task := next_task s2\<rparr>)
      })"

section \<open>os_util.c\<close>

definition ossim_kernel_init :: "ossim_env \<Rightarrow> kstate \<Rightarrow> (u32 \<times> kstate) option" where
  "ossim_kernel_init W s =
     (if CreateMutex W = 0 then None
      else Some (ERROR_NONE, on_mcu (mem_store (first_schedule_addr W) 0 \<circ>
             mem_store (proc_heap_var W) (sim_kernel_region W + UPPER_REGION_SIZE W * 1024)) s))"

text \<open>The frame of the MPC port is laid out as well; the task itself is a suspended thread.\<close>

definition ossim_task_stack_init :: "'z params_scheme \<Rightarrow> ossim_env \<Rightarrow> nat \<Rightarrow> u32 \<Rightarrow> u32 \<Rightarrow> kstate \<Rightarrow> kstate" where
  "ossim_task_stack_init P W task_index ptr_func proc_arg s =
     (let psp = PSP_Array s task_index + of_nat (TASK_STACK_SIZE P - 1) * 4 - 22 * 4;
          s1 = s\<lparr>PSP_Array := (PSP_Array s)(task_index := psp)\<rparr>;
          s2 = on_mcu (mem_store (psp + 4 * 10) proc_arg \<circ>
                 mem_store (psp + 4 * 6) (resolve_end_addr P) \<circ>
                 mem_store (psp + 4 * 4) 0xD000 \<circ>
                 mem_store (psp + 4 * 3) ptr_func) s1;
          handle = CreateThread W ptr_func proc_arg;
          s3 = on_mcu (emit (ThreadCreate task_index ptr_func proc_arg)) s2
      in if handle = 0 then s3
         else on_mcu (mem_store (pc_task_handle_addr W + 4 * of_nat task_index) handle) s3)"

definition ossim_suspend_task :: "ossim_env \<Rightarrow> u32 \<Rightarrow> mcu \<Rightarrow> mcu" where
  "ossim_suspend_task W task m =
     (if mem m (first_schedule_addr W) \<noteq> 0 then emit (ThreadSuspend (mem m (pc_task_handle_addr W + 4 * task))) m
      else mem_store (first_schedule_addr W) 1 m)"

definition ossim_resume_task :: "ossim_env \<Rightarrow> u32 \<Rightarrow> mcu \<Rightarrow> mcu" where
  "ossim_resume_task W task m = emit (ThreadResume (mem m (pc_task_handle_addr W + 4 * task))) m"

text \<open>What the simulator does not need returns at once.\<close>

definition ossim_mpu_init :: "kstate \<Rightarrow> u32 \<times> kstate" where
  "ossim_mpu_init s = (ERROR_NONE, s)"

definition ossim_vector_table_relocate :: "kstate \<Rightarrow> kstate" where
  "ossim_vector_table_relocate s = s"

definition ossim_interrupt_enable :: "u32 \<Rightarrow> mcu \<Rightarrow> (u32 \<times> mcu) option" where
  "ossim_interrupt_enable interrupt m = Some (ERROR_NONE, m)"

definition ossim_interrupt_disable :: "u32 \<Rightarrow> mcu \<Rightarrow> (u32 \<times> mcu) option" where
  "ossim_interrupt_disable interrupt m = Some (ERROR_NONE, m)"

definition ossim_interrupt_register :: "u32 \<Rightarrow> u32 \<Rightarrow> mcu \<Rightarrow> (u32 \<times> mcu) option" where
  "ossim_interrupt_register interrupt handler m = Some (ERROR_NONE, m)"

definition ossim_interrupt_priority :: "u8 \<Rightarrow> u8 \<Rightarrow> mcu \<Rightarrow> (u32 \<times> mcu) option" where
  "ossim_interrupt_priority interrupt priority m = Some (ERROR_NONE, m)"

definition ossim_heap_init :: "kstate \<Rightarrow> kstate" where
  "ossim_heap_init s = s"

definition ossim_btask_psp_correction :: "kstate \<Rightarrow> kstate" where
  "ossim_btask_psp_correction s = s"

definition ossim_semaphore_inc :: "u32 \<Rightarrow> kstate \<Rightarrow> u32 \<times> kstate" where
  "ossim_semaphore_inc semaphore s = (ERROR_NONE, s)"

definition ossim_semaphore_dec :: "u32 \<Rightarrow> kstate \<Rightarrow> u32 \<times> kstate" where
  "ossim_semaphore_dec semaphore s = (ERROR_NONE, s)"

section \<open>mutex.c\<close>

definition ossim_mutex_lock :: "u32 \<Rightarrow> kstate \<Rightarrow> u32 \<times> kstate" where
  "ossim_mutex_lock mutex s = (ERROR_NONE, s)"

definition ossim_mutex_unlock :: "u32 \<Rightarrow> kstate \<Rightarrow> kstate" where
  "ossim_mutex_unlock mutex s = s"

section \<open>svc_handler.c\<close>

text \<open>
  \<open>block\<close> is the memory behind the parameter structure, whose array has no elements: the arguments are
  stored with the indices 0, 1, 3 and 4. The exit code of the service thread is not used.
\<close>

definition ossim_call_kernel_service ::
  "port \<Rightarrow> u8 \<Rightarrow> svc_args \<Rightarrow> u32 \<Rightarrow> u32 \<Rightarrow> u32 \<Rightarrow> u32 \<Rightarrow> u32 \<Rightarrow> u32 \<Rightarrow> kstate \<Rightarrow> (u32 \<times> kstate) option" where
  "ossim_call_kernel_service A garbage block wait_result svc_code arg1 arg2 arg3 arg4 s =
     (let arguments = block(0 := arg1, 1 := arg2, 3 := arg3, 4 := arg4) in
      if wait_result = WAIT_ABANDONED then Some (ERROR_NONE, s)
      else do {
        (exitcode, s1) \<leftarrow> ossim_svc_handler A garbage svc_code arguments s;
        Some (ERROR_NONE, s1)
      })"

definition ossim_switch_mcu_mode :: "port \<Rightarrow> u8 \<Rightarrow> svc_args \<Rightarrow> u32 \<Rightarrow> kstate \<Rightarrow> (u32 \<times> kstate) option" where
  "ossim_switch_mcu_mode A garbage block wait_result s =
     ossim_call_kernel_service A garbage block wait_result START_SCHEDULER 0 0 0 0 s"

section \<open>The port\<close>

definition ossim_port :: "params \<Rightarrow> ossim_env \<Rightarrow> port" where
  "ossim_port P W = \<lparr>
     MAX_TASK_COUNT = MAX_TASK_COUNT P, TASK_STACK_SIZE = TASK_STACK_SIZE P,
     HEAP_BOOKEEPING_SIZE = HEAP_BOOKEEPING_SIZE P, TASK_PER_SEC = TASK_PER_SEC P,
     NUM_OF_INTERRUPTS = NUM_OF_INTERRUPTS P, KERNEL_START_ADDRESS = KERNEL_START_ADDRESS P,
     proc_heap_addr = proc_heap_addr P, base_task_addr = base_task_addr P,
     BaseTask_addr = BaseTask_addr P, base_mutex_addr = base_mutex_addr P,
     resolve_end_addr = resolve_end_addr P,
     ENABLE_SCHEDULER = enable_os_timer P,
     DISABLE_SCHEDULER = (\<lambda>m. m), SCHEDULER_TIMER_RESET = (\<lambda>m. m),
     TRIGGER_CONTEXT_SWITCH = (\<lambda>m. m), TRIGGER_DEVICE_RESET = (\<lambda>m. m),
     TRIGGER_SCHEDULER = (\<lambda>s. Some (on_mcu trigger_os_timer s)),
     suspend_task = ossim_suspend_task W, resume_task = ossim_resume_task W,
     arch_task_stack_init = ossim_task_stack_init P W,
     btask_psp_correction = ossim_btask_psp_correction,
     os_timer_config = ossim_os_timer_config,
     arch_interrupt_enable = ossim_interrupt_enable,
     arch_interrupt_disable = ossim_interrupt_disable,
     arch_interrupt_register = ossim_interrupt_register,
     arch_interrupt_priority = ossim_interrupt_priority\<rparr>"

lemma emit_sel [simp]: "objs (emit e m) = objs m" "mem (emit e m) = mem m"
  by (simp_all add: emit_def)

lemma ossim_port_sel [simp]: "MAX_TASK_COUNT (ossim_port P W) = MAX_TASK_COUNT P"
  by (simp add: ossim_port_def)

interpretation ossim: pending_port "ossim_port P W" trigger_os_timer for P W
  by unfold_locales
    (simp_all add: ossim_port_def ossim_task_stack_init_def ossim_btask_psp_correction_def ossim_os_timer_config_def
      enable_os_timer_def ossim_suspend_task_def ossim_resume_task_def on_mcu_def Let_def)

end
