(* ===== verification/OssimProps.thy ===== *)
theory OssimProps
  imports OssimPort SchedSafe Demo
begin

text \<open>
  The tick of the simulator against the tick of a target device.
\<close>

lemma run_ok_frame:
  assumes "run_ok n t"
  shows "run_ok n (t\<lparr>PSP_Array := p, mcu := m\<rparr>)"
proof -
  have "kernel_ok n (t\<lparr>PSP_Array := p, mcu := m\<rparr>)"
    by (rule kernel_ok_cong [of n t]) (use assms in \<open>simp_all add: run_ok_def live_def\<close>)
  with assms show ?thesis by (simp add: run_ok_def)
qed

text \<open>The callback is the scheduler and the switch of the current task; stack pointers are not saved.\<close>

lemma timer_routine_switch:
  assumes "first_start s" and "wait_result \<noteq> WAIT_ABANDONED" and s1: "scheduler A s = Some s1"
  obtains s' where "timer_routine W A wait_result s = Some s'"
    "s' = (context_switch psp s1)\<lparr>PSP_Array := PSP_Array s', mcu := mcu s'\<rparr>"
proof -
  let ?s2 = "on_mcu (\<lambda>m. mem_store (schedule_count_addr W) (mem m (schedule_count_addr W) + 1) m) s1"
  let ?s' = "?s2\<lparr>current_task := next_task ?s2\<rparr>"
  have "timer_routine W A wait_result s = Some ?s'" using assms by (simp add: timer_routine_def)
  moreover have "?s' = (context_switch psp s1)\<lparr>PSP_Array := PSP_Array ?s', mcu := mcu ?s'\<rparr>"
    by (simp add: context_switch_def on_mcu_def Let_def)
  ultimately show thesis by (rule that)
qed

text \<open>
  C39. The timer callback of the simulator is a tick: once the scheduler has been started and the lock of
  the kernel was obtained, the callback returns, and the kernel variables are those after a tick of
  the scheduler with its context switch, up to the saved stack pointers, which threads do
  not use. So exactly one task is active, it is the current one, and the kernel's invariant holds. Before the
  start the callback does nothing.
\<close>

theorem timer_routine_is_tick:
  assumes "run_ok (MAX_TASK_COUNT P) s" and "priority_cur s 0 = 0" and "1 < unat (lstash_ptr s)"
    and "state s 0 = TASK_STATE_SLEEP \<or> current_task s = 0" and "wait_result \<noteq> WAIT_ABANDONED"
  shows "\<exists>s'. timer_routine W (ossim_port P W) wait_result s = Some s' \<and>
    (if first_start s
     then \<exists>t. kernel_tick (ossim_port P W) psp s = Some t \<and> s' = t\<lparr>PSP_Array := PSP_Array s', mcu := mcu s'\<rparr> \<and>
       run_ok (MAX_TASK_COUNT P) s'
     else s' = s)"
proof (cases "first_start s")
  case True
  let ?A = "ossim_port P W"
  have pre: "sched_pre (MAX_TASK_COUNT ?A) s" using run_ok_sched_pre [OF assms(1)] by simp
  have "normal_schedule s" using assms(1) by (simp add: run_ok_def)
  then obtain t where t: "kernel_tick ?A psp s = Some t"
    using tick_exists [OF pre assms(2) _ assms(3)] assms(4) by blast
  then obtain s1 where s1: "scheduler ?A s = Some s1" "t = context_switch psp s1" by (auto simp: kernel_tick_def)
  obtain s' where r: "timer_routine W ?A wait_result s = Some s'" and eq: "s' = t\<lparr>PSP_Array := PSP_Array s', mcu := mcu s'\<rparr>"
    using timer_routine_switch [OF True assms(5) s1(1)] unfolding s1(2) by metis
  have rt: "run_ok (MAX_TASK_COUNT ?A) t" by (rule tick_result [OF pre t])
  have "run_ok (MAX_TASK_COUNT P) s'" by (subst eq) (rule run_ok_frame, use rt in simp)
  with True r t eq show ?thesis by auto
qed (simp add: timer_routine_def)

definition demo_sim :: ossim_env where
  "demo_sim = \<lparr>first_schedule_addr = 0x100, pc_task_handle_addr = 0x200, schedule_count_addr = 0x104, proc_heap_var = 0x108,
     sim_kernel_region = 0x10000, UPPER_REGION_SIZE = 4, CreateMutex = 1, CreateTimerQueue = 2, CreateThread = (\<lambda>_ _. 3)\<rparr>"

theorem timer_routine_is_tick_witness:
  "\<exists>s'. timer_routine demo_sim (ossim_port demo_params demo_sim) 0 demo_state = Some s' \<and> run_ok 4 s'"
  using timer_routine_is_tick [of demo_params demo_state 0 demo_sim 0] demo_run_ok
  by (auto simp: demo_fields demo_params_def)

end
