(* ===== verification/TypeInv.thy ===== *)
theory TypeInv
  imports StartSteps CoreInv
begin

text \<open>
  The values of the task table: C declares \<open>state\<close> and the priorities as bytes, of which the kernel uses the task
  states of \<^verbatim>\<open>defines.h\<close> and the levels up to 127. Every plain step of the kernel keeps to these values; a
  promotion goes above 127.
\<close>

definition typed :: "nat \<Rightarrow> kstate \<Rightarrow> bool" where
  "typed n s \<longleftrightarrow> (\<forall>i < n. state s i \<in> task_states \<and> priority_cur s i \<le> 127)"

lemma typed_upd:
  assumes "typed n s" and "state s' = (state s)(i := x)" and "x \<in> task_states" and "priority_cur s' = priority_cur s"
  shows "typed n s'"
  using assms by (simp add: typed_def)

lemma typed_same: "typed n s \<Longrightarrow> state s' = state s \<Longrightarrow> priority_cur s' = priority_cur s \<Longrightarrow> typed n s'"
  by (simp add: typed_def)

lemma typed_fold_hib: "typed n s \<Longrightarrow> typed n (fold hib_check xs s)"
proof (induction xs arbitrary: s)
  case (Cons x xs)
  have "typed n (hib_check x s)"
    using Cons.prems by (simp add: typed_def hib_check_state hib_check_frame task_states_def)
  then show ?case by (simp add: Cons.IH)
qed simp

lemma typed_woken: "typed n s \<Longrightarrow> typed n (woken A s)"
proof -
  assume "typed n s"
  then have "typed n (entered A s)" by (simp add: typed_def entered_state entered_frame task_states_def)
  then show ?thesis unfolding woken_def by (rule typed_fold_hib)
qed

lemma tick_typed:
  assumes "sched_pre (MAX_TASK_COUNT A) s" and "kernel_tick A psp s = Some s'" and "typed n s"
  shows "typed n s'"
proof (rule tick_result [OF assms(1,2)])
  fix i assume "state s' = (state (woken A s))(i := TASK_STATE_ACTIVE)"
  then show "typed n s'"
    by (rule typed_upd [OF typed_woken [OF assms(3)]])
      (use self_kill_tick [OF assms(2,1)] in \<open>simp_all add: task_states_def woken_frame\<close>)
qed

lemma settle_typed:
  assumes "typed n s" and "settle A psp s = Some s'"
    and "normal_schedule s \<or> sched_pre (MAX_TASK_COUNT A) s"
  shows "typed n s'"
  using assms tick_typed by (auto simp: settle_def split: if_splits)

context pending_port
begin

lemma leave_typed:
  assumes "typed n s"
  shows "svc_service_hand_over A c a s = Some (r, c', a', s') \<Longrightarrow> typed n s'"
    and "svc_service_hibernate A c a s = Some (r, c', a', s') \<Longrightarrow> typed n s'"
  using assms
  by (auto simp: svc_service_hand_over_def svc_service_hibernate_def trigger_pending Let_def typed_def task_states_def
      chk_def split: if_splits)

lemma create_typed:
  assumes k: "kernel_ok (MAX_TASK_COUNT A) s" and ready: "create_ready A arguments s"
    and ptr: "unat (lstash_ptr s) < MAX_TASK_COUNT A"
    and ord: "level_in_order s (t_priority (objs (mcu s) (arguments 0)))"
    and call: "svc_service_task_create A c arguments s = Some (r, c', a', s1)" and ty: "typed n s"
  shows "typed n s1"
proof -
  have p: "t_priority (objs (mcu s) (arguments 0)) \<le> 127"
    using ready by (auto simp: create_ready_def create_checks_def Let_def split: if_splits)
  show ?thesis
    by (rule create_preserves [OF ready k ptr ord, of c])
      (use call ty p in \<open>simp add: typed_def task_states_def\<close>)
qed

lemma refuse_typed:
  assumes "svc_service_task_create A c arguments s = Some (r, c', a', s1)" and "r \<noteq> ERROR_NONE" and ty: "typed n s"
  shows "typed n s1"
  by (rule typed_same [OF ty])
    (use assms(1,2) in \<open>auto simp: svc_service_task_create_def set_obj_error_def Let_def bind_eq_Some_conv split: if_splits\<close>)

lemma kill_typed:
  assumes ok: "step_ok (MAX_TASK_COUNT A) s" and i: "i < MAX_TASK_COUNT A" "live s i" "i \<noteq> 0"
    and pid: "arguments 0 = task_id s i" and ptr: "unat (lstash_ptr s) < MAX_TASK_COUNT A"
    and call: "svc_service_task_kill A c arguments s = Some (r, c', a', s1)" and ty: "typed n s"
  shows "typed n s1"
proof -
  have k: "kernel_ok (MAX_TASK_COUNT A) s" "priority_cur s 0 = 0" using ok by (simp_all add: step_ok_def run_ok_def)
  show ?thesis
    by (rule kill_preserves [where arguments = arguments and svc_num = c, OF k(1) i pid ptr k(2)])
      (use call ty in \<open>simp add: typed_def task_states_def\<close>)
qed

lemma plain_step_typed:
  assumes "plain_step A s s'" and ok: "step_ok (MAX_TASK_COUNT A) s" and ty: "typed n s"
  shows "typed n s'"
  using assms(1)
proof (cases rule: plain_step.cases)
  case (tick psp)
  then show ?thesis using tick_typed [OF _ _ ty] step_ok_pre [OF ok] by (auto simp: step_pre_def)
next
  case (hand_over psp slot arguments r)
  obtain s1 where s1: "svc_run 3 A slot HAND_OVER arguments s = Some (r, s1)" "settle A psp s1 = Some s'"
    by (rule serveE [OF hand_over])
  show ?thesis
    by (rule run_one [OF s1(1) dispatch_entries(1) simple_codes(4)], assumption)
      (use settle_typed [OF leave_typed(1) s1(2)] ty hand_over_pre [OF ok] in \<open>simp add: step_pre_def\<close>)
next
  case (hibernate psp slot arguments r)
  obtain s1 where s1: "svc_run 3 A slot HIBERNATE arguments s = Some (r, s1)" "settle A psp s1 = Some s'"
    by (rule serveE [OF hibernate])
  show ?thesis
    by (rule run_one [OF s1(1) dispatch_entries(2) simple_codes(1)], assumption)
      (use settle_typed [OF leave_typed(2) s1(2)] ty hibernate_pre [OF ok] in \<open>simp add: step_pre_def\<close>)
next
  case (create psp slot arguments r)
  have k: "kernel_ok (MAX_TASK_COUNT A) s" using ok by (simp add: step_ok_def run_ok_def)
  obtain s1 where s1: "svc_run 3 A slot CREATE_TASK arguments s = Some (r, s1)" "settle A psp s1 = Some s'"
    by (rule serveE [OF create(1)])
  show ?thesis
    by (rule run_one [OF s1(1) dispatch_entries(3) create_code], assumption)
      (use settle_typed [OF create_typed [OF k create(2-4) _ ty] s1(2)] create_step [OF ok create(2-4)]
        in \<open>simp add: step_ok_def run_ok_def\<close>)
next
  case (refuse psp slot arguments r)
  obtain s1 where s1: "svc_run 3 A slot CREATE_TASK arguments s = Some (r, s1)" "settle A psp s1 = Some s'"
    by (rule serveE [OF refuse(1)])
  show ?thesis
    by (rule run_one [OF s1(1) dispatch_entries(3) create_code], assumption)
      (use settle_typed [OF refuse_typed [OF _ refuse(2) ty] s1(2)] refuse_step [OF ok _ refuse(2)]
        in \<open>simp add: step_ok_def run_ok_def\<close>)
next
  case (kill psp slot arguments r i)
  obtain s1 where s1: "svc_run 3 A slot KILL_TASK arguments s = Some (r, s1)" "settle A psp s1 = Some s'"
    by (rule serveE [OF kill(1)])
  have flag: "c' = KILL_TASK" if "svc_service_task_kill A KILL_TASK arguments s = Some (r, c', a', u)"
    for r c' a' u
    using that kill(7) by (auto simp: svc_service_task_kill_def Let_def bind_eq_Some_conv)
  show ?thesis
    by (rule run_one [OF s1(1) dispatch_entries(4) flag], assumption)
      (use settle_typed [OF kill_typed [where arguments = arguments, OF ok kill(2-4,6,8) _ ty] s1(2)] kill_step [OF ok kill(2-8)]
        in \<open>simp add: step_ok_def run_ok_def\<close>)
next
  case (end_task psp slot arguments r)
  obtain s1 where s1: "svc_run 3 A slot KILL_TASK arguments s = Some (r, s1)" "settle A psp s1 = Some s'"
    by (rule serveE [OF end_task(1)])
  show ?thesis
  proof (rule end_call [OF ok end_task(2-5), of slot])
    fix s2
    assume c: "svc_run 3 A slot KILL_TASK arguments s = Some (ERROR_NONE, s2)" "end_pre (MAX_TASK_COUNT A) s2"
      "priority_cur s2 = priority_cur s" "state s2 = (state s)(unat (current_task s) := TASK_STATE_IDLE)"
    have e: "s2 = s1" using c(1) s1(1) by simp
    have t1: "typed n s1" by (rule typed_upd [OF ty c(4) [unfolded e]]) (use c(3) e in \<open>simp_all add: task_states_def\<close>)
    have "kernel_tick A psp s1 = Some s'" using s1(2) c(2) e by (simp add: settle_def end_pre_def)
    then show "typed n s'"
    proof (rule end_tick [OF c(2) [unfolded e]])
      fix i assume st: "state s' = (state (woken A s1))(i := TASK_STATE_ACTIVE)" "priority_cur s' = priority_cur s1"
      show "typed n s'"
        by (rule typed_upd [OF typed_woken [OF t1] st(1)]) (simp_all add: task_states_def woken_frame st(2))
    qed
  qed
next
  case (device psp slot code arguments r)
  obtain s1 where s1: "svc_run 3 A slot code arguments s = Some (r, s1)" "settle A psp s1 = Some s'"
    by (rule serveE [OF device(1)])
  obtain svc where svc: "map_of svc_dispatch code = Some svc"
    using device(2) by (auto simp: svc_dispatch_def)
  have one: "c' = code" if "svc A code arguments s = Some (r, c', a', u)" for r c' a' u
    using that svc_dispatch_cases [OF svc] device(2) by (auto simp: svc_dispatch_def dest: svc_codes)
  obtain a' where call: "svc A code arguments s = Some (r, code, a', s1)"
    by (rule run_one [OF s1(1) svc one])
  have "typed n s1"
    by (rule device_cases [OF call svc device(2)]) (rule typed_same [OF ty]; erule ssubst; simp)+
  moreover have "normal_schedule s1" using device_step [OF ok call svc device(2)] by (simp add: step_ok_def run_ok_def)
  ultimately show ?thesis using settle_typed [OF _ s1(2)] by blast
qed

end

section \<open>From reset on\<close>

lemma plain_booted_typed:
  assumes "plain_booted P E H m s" and build: "arm_build P E m"
  shows "typed (MAX_TASK_COUNT P) s"
  using assms(1)
proof (induction rule: plain_booted.induct)
  case (init slot regs r s)
  show ?case
  proof (rule kernel_init_arm [of P E m H slot regs])
    fix s' assume k: "\<And>i. i < MAX_TASK_COUNT P \<Longrightarrow> live s' i = (i = 0)" "state s' 0 = TASK_STATE_SLEEP"
      "priority_cur s' = (\<lambda>_. 0)"
      and e: "kernel_init P (arm_boot P E H (arm_call P slot) regs) (arm_call P slot) regs (kvar_init m) =
        Some (ERROR_NONE, s')"
    have "state s' i \<in> task_states" if "i < MAX_TASK_COUNT P" for i
      using k(1) [OF that] k(2) by (cases "i = 0") (simp_all add: live_def task_states_def)
    with k(3) init e show "typed (MAX_TASK_COUNT P) s" by (simp add: typed_def)
  qed (use build in \<open>simp_all add: arm_build_def\<close>)
next
  case (create s slot arguments r s')
  let ?n = "MAX_TASK_COUNT (arm_port P)"
  have k: "kernel_ok ?n s" using plain_booted_ok [OF create(1) build] by (simp add: boot_ok_def)
  have run: "svc_run 3 (arm_port P) slot CREATE_TASK arguments s = Some (r, s')"
    using create(2) svc_handler_run [of CREATE_TASK 3 "arm_port P" slot arguments s]
    by (simp add: arm_call_def svc_rank_def)
  have ptr: "unat (lstash_ptr s) < ?n" using create(4) by simp
  show ?case
    by (rule run_one [OF run dispatch_entries(3) create_code], assumption)
      (rule armp.create_typed [OF k create(3) ptr create(5) _ create(6)], assumption)
qed

lemma start_typed:
  assumes ok: "boot_ok (MAX_TASK_COUNT P) s" and ty: "typed (MAX_TASK_COUNT P) s"
    and "serve (arm_port P) psp slot START_SCHEDULER arguments s = Some (r, s')"
  shows "typed (MAX_TASK_COUNT P) s'"
proof (rule start_run [OF ok])
  fix s1
  assume s1: "\<And>slot arguments. svc_handler (arm_port P) slot START_SCHEDULER arguments s = Some (ERROR_NONE, s1)"
    "step_pre (MAX_TASK_COUNT P) s1"
    "state s1 = (state s)(0 := TASK_STATE_SLEEP)" "priority_cur s1 = priority_cur s"
  have "typed (MAX_TASK_COUNT P) s1" by (rule typed_upd [OF ty s1(3) _ s1(4)]) (simp add: task_states_def)
  moreover have "settle (arm_port P) psp s1 = Some s'" using assms(3) s1(1) by (simp add: serve_def bind_eq_Some_conv)
  ultimately show ?thesis using settle_typed s1(2) by (simp add: step_pre_def)
qed

lemma plain_running_typed:
  assumes "plain_running P E H m s" and build: "arm_build P E m"
  shows "typed (MAX_TASK_COUNT P) s"
  using assms(1)
proof (induction rule: plain_running.induct)
  case (started s psp slot arguments r s')
  then show ?case using start_typed plain_booted_ok plain_booted_typed build by blast
next
  case (step s s')
  then show ?case using armp.plain_step_typed [of P s s'] plain_running_ok [OF step(1) build] by simp
qed

end
