(* ===== verification/EndProps.thy ===== *)
theory EndProps
  imports TypeInv SystemProps
begin

text \<open>
  The end of tasks and the values of the task table in the running system on ARM.
\<close>

section \<open>Values\<close>



section \<open>The end of a task\<close>

lemma end_serve:
  assumes "step_ok (MAX_TASK_COUNT P) s" and "unat (current_task s) \<noteq> 0"
    and "arguments 0 = task_id s (unat (current_task s))" and "arguments 1 = 1"
    and "unat (lstash_ptr s) < MAX_TASK_COUNT P"
  obtains s1 where "svc_handler (arm_port P) slot KILL_TASK arguments s = Some (ERROR_NONE, s1)"
    "state s1 = (state s)(unat (current_task s) := TASK_STATE_IDLE)" "priority_cur s1 = priority_cur s"
    "end_pre (MAX_TASK_COUNT P) s1"
    "serve (arm_port P) psp slot KILL_TASK arguments s =
       map_option (\<lambda>s'. (ERROR_NONE, s')) (kernel_tick (arm_port P) psp s1)"
    "\<And>s'. kernel_tick (arm_port P) psp s1 = Some s' \<Longrightarrow> step_ok (MAX_TASK_COUNT P) s'"
proof -
  have a: "step_ok (MAX_TASK_COUNT (arm_port P)) s" "unat (lstash_ptr s) < MAX_TASK_COUNT (arm_port P)"
    using assms(1,5) by simp_all
  show thesis
  proof (rule armp.end_call [where arguments = arguments, OF a(1) assms(2-4) a(2), of slot])
    fix s1
    assume c: "svc_run 3 (arm_port P) slot KILL_TASK arguments s = Some (ERROR_NONE, s1)"
      "end_pre (MAX_TASK_COUNT (arm_port P)) s1" "\<not> self_kill s1" "priority_cur s1 = priority_cur s"
      "state s1 = (state s)(unat (current_task s) := TASK_STATE_IDLE)"
    have h: "svc_handler (arm_port P) slot KILL_TASK arguments s = Some (ERROR_NONE, s1)"
      using c(1) svc_handler_run [of KILL_TASK 3] by (simp add: svc_rank_def)
    have st: "settle (arm_port P) psp s1 = kernel_tick (arm_port P) psp s1"
      using c(2) by (simp add: settle_def end_pre_def)
    have pr: "priority_cur s1 0 = 0" using assms(1) c(4) by (simp add: step_ok_def)
    show thesis
      using c(2,4,5) st h armp.end_tick_step_ok [OF c(2,3) pr, of psp]
      by (intro that [of s1]) (simp_all add: serve_def map_option_case split: option.splits)
  qed
qed

lemma end_tick_iff:
  assumes "end_pre (MAX_TASK_COUNT A) s"
  shows "(\<exists>s'. kernel_tick A psp s = Some s') \<longleftrightarrow> (\<exists>i < MAX_TASK_COUNT A. ready (woken A s) (max_level s) i)"
proof -
  have "(\<exists>s'. kernel_tick A psp s = Some s') \<longleftrightarrow> end_pick A s \<noteq> None"
    by (cases "end_pick A s") (simp_all add: kernel_tick_def scheduler_end [OF assms] split: prod.splits)
  then show ?thesis using end_pick_iff(1) [OF assms] by simp
qed

text \<open>
  C32. The end of the running task, which \<open>resolve_end\<close> asks for when the task's function returns: the kill returns
  and frees the slot. The scheduler that runs next returns exactly when a task of the highest remaining level is
  ready after the wake-up, and then such a task is the active one and the kernel's invariant holds. Otherwise
  the whole call never returns (an instance is lemma end_hangs): with the current slot out of the ring the search does not go
  down to a lower level.
\<close>

theorem end_of_task:
  assumes "step_ok (MAX_TASK_COUNT P) s" and "unat (current_task s) \<noteq> 0"
    and "arguments 0 = task_id s (unat (current_task s))" and "arguments 1 = 1"
    and "unat (lstash_ptr s) < MAX_TASK_COUNT P"
  shows "\<exists>s1. svc_handler (arm_port P) slot KILL_TASK arguments s = Some (ERROR_NONE, s1) \<and>
    state s1 = (state s)(unat (current_task s) := TASK_STATE_IDLE) \<and>
    (if \<exists>i < MAX_TASK_COUNT P. ready (woken (arm_port P) s1) (max_level s1) i
     then \<exists>s'. serve (arm_port P) psp slot KILL_TASK arguments s = Some (ERROR_NONE, s') \<and>
       step_ok (MAX_TASK_COUNT P) s' \<and> priority_cur s' (unat (current_task s')) = max_level s1
     else serve (arm_port P) psp slot KILL_TASK arguments s = None)"
proof (rule end_serve [where arguments = arguments, OF assms, of slot psp])
  fix s1
  assume h: "svc_handler (arm_port P) slot KILL_TASK arguments s = Some (ERROR_NONE, s1)"
    "state s1 = (state s)(unat (current_task s) := TASK_STATE_IDLE)" "end_pre (MAX_TASK_COUNT P) s1"
    and sv: "serve (arm_port P) psp slot KILL_TASK arguments s =
      map_option (\<lambda>s'. (ERROR_NONE, s')) (kernel_tick (arm_port P) psp s1)"
    and ok: "\<And>s'. kernel_tick (arm_port P) psp s1 = Some s' \<Longrightarrow> step_ok (MAX_TASK_COUNT P) s'"
  have e: "end_pre (MAX_TASK_COUNT (arm_port P)) s1" using h(3) by simp
  have lvl: "priority_cur s' (unat (current_task s')) = max_level s1"
    if t: "kernel_tick (arm_port P) psp s1 = Some s'" for s'
  proof (rule end_tick [OF e t])
    fix i
    assume i: "i < MAX_TASK_COUNT (arm_port P)" "ready (woken (arm_port P) s1) (max_level s1) i"
      "current_task s' = of_nat i" "priority_cur s' = priority_cur s1"
    have "MAX_TASK_COUNT P \<le> 120" using h(3) by (auto simp: end_pre_def kernel_ok_def kinv_def dest: ring_ok_bound)
    then have "unat (of_nat i :: u32) = i" using i(1) by (intro unat_of_nat_u32) simp
    then show ?thesis using i(2-4) by (simp add: ready_def woken_frame)
  qed
  have iff: "(\<exists>s'. kernel_tick (arm_port P) psp s1 = Some s') \<longleftrightarrow>
      (\<exists>i < MAX_TASK_COUNT P. ready (woken (arm_port P) s1) (max_level s1) i)"
    using end_tick_iff [OF e] by simp
  show ?thesis
  proof (intro exI [of _ s1] conjI h)
    show "if \<exists>i < MAX_TASK_COUNT P. ready (woken (arm_port P) s1) (max_level s1) i
      then \<exists>s'. serve (arm_port P) psp slot KILL_TASK arguments s = Some (ERROR_NONE, s') \<and>
        step_ok (MAX_TASK_COUNT P) s' \<and> priority_cur s' (unat (current_task s')) = max_level s1
      else serve (arm_port P) psp slot KILL_TASK arguments s = None"
      unfolding iff [symmetric] sv using ok lvl by (cases "kernel_tick (arm_port P) psp s1") auto
  qed
qed

lemma demo_next_step_ok: "step_ok (MAX_TASK_COUNT demo_params) demo_next"
  using demo_next_run_ok by (simp add: step_ok_def demo_next_fields demo_fields demo_params_def)

lemma demo_end_ready:
  assumes "svc_handler (arm_port demo_params) 0 KILL_TASK ((\<lambda>_. 1)(0 := 0x10002)) demo_next = Some (ERROR_NONE, s1)"
  shows "ready (woken (arm_port demo_params) s1) (max_level s1) 0"
proof (rule end_serve [OF demo_next_step_ok, of "(\<lambda>_. 1)(0 := 0x10002)" 0 0])
  let ?A = "arm_port demo_params"
  fix t
  assume "svc_handler ?A 0 KILL_TASK ((\<lambda>_. 1)(0 := 0x10002)) demo_next = Some (ERROR_NONE, t)"
    and st: "state t = (state demo_next)(unat (current_task demo_next) := TASK_STATE_IDLE)"
    "priority_cur t = priority_cur demo_next" "end_pre (MAX_TASK_COUNT demo_params) t"
  then have t: "t = s1" using assms by simp
  have e: "end_pre (MAX_TASK_COUNT ?A) s1" using st(3) t by simp
  have ls: "live s1 i \<longleftrightarrow> i = 0" for i using st(1) t by (auto simp: live_def demo_next_fields)
  have "max_ok 4 s1" using e by (simp add: end_pre_def kernel_ok_def demo_params_def)
  then have mx: "max_level s1 = 0"
    using st(2) t unfolding max_ok_def All_less4 by (auto simp: ls demo_next_fields demo_fields less4)
  have s0: "state s1 0 = TASK_STATE_SLEEP" using st(1) t by (simp add: demo_next_fields)
  have "\<not> normal_schedule s1" using e by (simp add: end_pre_def)
  then have "\<not> due (entered ?A s1) 0" using s0 by (simp add: due_def entered_state Let_def)
  then have "state (woken ?A s1) 0 = TASK_STATE_SLEEP" using end_woken(6) [OF e, of 0] s0 by simp
  then show ?thesis using st(2) t by (simp add: ready_def mx woken_frame demo_next_fields demo_fields)
qed (simp_all add: demo_next_fields demo_fields demo_params_def)

theorem end_of_task_witness:
  "\<exists>s1 s'. svc_handler (arm_port demo_params) 0 KILL_TASK ((\<lambda>_. 1)(0 := 0x10002)) demo_next = Some (ERROR_NONE, s1) \<and>
    state s1 1 = TASK_STATE_IDLE \<and>
    serve (arm_port demo_params) 0 0 KILL_TASK ((\<lambda>_. 1)(0 := 0x10002)) demo_next = Some (ERROR_NONE, s') \<and>
    step_ok 4 s'"
proof -
  have a: "unat (current_task demo_next) \<noteq> 0"
    "((\<lambda>_ :: nat. 1)(0 := 0x10002)) 0 = task_id demo_next (unat (current_task demo_next))"
    "((\<lambda>_ :: nat. 1)(0 := 0x10002 :: u32)) 1 = 1"
    "unat (lstash_ptr demo_next) < MAX_TASK_COUNT demo_params" and n: "MAX_TASK_COUNT demo_params = 4"
    by (simp_all add: demo_next_fields demo_fields demo_params_def)
  from end_of_task [where arguments = "(\<lambda>_. 1)(0 := 0x10002)" and slot = 0 and psp = 0,
      OF demo_next_step_ok a]
  show ?thesis
    using demo_end_ready by (auto simp: n demo_next_fields split: if_splits)
qed

section \<open>A task whose end stops the kernel\<close>

lemma kill_steps_hib:
  "op1 (fold kill_max_step xs s) = op1 s" "op2 (fold kill_max_step xs s) = op2 s"
  "hib_value (fold kill_max_step xs s) = hib_value s"
  "op1 (fold kill_count_step xs s) = op1 s" "op2 (fold kill_count_step xs s) = op2 s"
  "hib_value (fold kill_count_step xs s) = hib_value s"
  by (induction xs arbitrary: s) (simp_all add: kill_max_step_def kill_count_step_def)

lemma kill_hib:
  assumes "svc_service_task_kill A c arguments s = Some (r, c', a', s')"
  shows "op1 s' = op1 s \<and> op2 s' = op2 s \<and> hib_value s' = hib_value s"
  using assms
  by (auto simp: svc_service_task_kill_def Let_def bind_eq_Some_conv kill_steps_hib kill_jmp_def kill_table_def
      kill_levels_def split: if_splits)

lemma end_hib:
  assumes "svc_handler (arm_port P) slot KILL_TASK arguments s = Some (r, s1)" and "arguments 1 = 1"
  shows "op1 s1 = op1 s \<and> op2 s1 = op2 s \<and> hib_value s1 = hib_value s"
proof -
  have "svc_run 3 (arm_port P) slot KILL_TASK arguments s = Some (r, s1)"
    using assms(1) svc_handler_run [of KILL_TASK 3] by (simp add: svc_rank_def)
  then obtain r1 a1 s' where k: "svc_service_task_kill (arm_port P) KILL_TASK arguments s = Some (r1, HAND_OVER, a1, s')"
    and h: "svc_service_hand_over (arm_port P) HAND_OVER a1 s' = Some (r, HAND_OVER, a1, s1)"
    using assms(2)
    by (auto simp: numeral_3_eq_3 dispatch_entries bind_eq_Some_conv svc_service_task_kill_def Let_def
        svc_service_hand_over_def split: if_splits)
  then show ?thesis using kill_hib [OF k]
    by (auto simp: svc_service_hand_over_def bind_eq_Some_conv split: if_splits)
qed

text \<open>
  The base task is ready, the task of level 5 in slot 1 runs, and the task of level 7 in slot 2 hibernates until a difference
  of two words, which is 0 now, has become 10.
\<close>

definition demo_hang :: kstate where
  "demo_hang = demo_next\<lparr>max_level := 7, task_count := 3, lstash_ptr := 3,
     task_obj := (\<lambda>_. 0)(0 := 0x20000800, 1 := 0x20000900, 2 := 0x900),
     priority_cur := (\<lambda>_. 0)(1 := 5, 2 := 7), level_stash := (\<lambda>_. 0)(1 := 5, 2 := 7),
     jmp_list := (\<lambda>_. 0)(0 := 1, 1 := 1, 2 := 254),
     state := (\<lambda>_. TASK_STATE_IDLE)(0 := TASK_STATE_SLEEP, 1 := TASK_STATE_ACTIVE, 2 := TASK_STATE_HIBERNATE_G),
     task_id := (\<lambda>_. 0)(0 := 1, 1 := 0x10002, 2 := 0x20003),
     op1 := (\<lambda>_. 0x40), op2 := (\<lambda>_. 0x40), hib_value := (\<lambda>_. 10)\<rparr>"

lemma hang_fields:
  "state demo_hang = (\<lambda>_. TASK_STATE_IDLE)(0 := TASK_STATE_SLEEP, 1 := TASK_STATE_ACTIVE, 2 := TASK_STATE_HIBERNATE_G)"
  "jmp_list demo_hang = (\<lambda>_. 0)(0 := 1, 1 := 1, 2 := 254)" "priority_cur demo_hang = (\<lambda>_. 0)(1 := 5, 2 := 7)"
  "level_stash demo_hang = (\<lambda>_. 0)(1 := 5, 2 := 7)" "lstash_ptr demo_hang = 3" "max_level demo_hang = 7"
  "current_task demo_hang = 1" "next_task demo_hang = 1" "enable_dws demo_hang" "normal_schedule demo_hang"
  "task_obj demo_hang = (\<lambda>_. 0)(0 := 0x20000800, 1 := 0x20000900, 2 := 0x900)"
  "task_id demo_hang = (\<lambda>_. 0)(0 := 1, 1 := 0x10002, 2 := 0x20003)" "task_count demo_hang = 3" "\<not> self_kill demo_hang"
  "op1 demo_hang = (\<lambda>_. 0x40)" "op2 demo_hang = (\<lambda>_. 0x40)" "hib_value demo_hang = (\<lambda>_. 10)"
  by (simp_all add: demo_hang_def demo_next_fields)

lemma hang_live: "live demo_hang = (\<lambda>i. i < 3)"
  by (auto simp: live_def hang_fields fun_eq_iff)

lemma hang_ring: "ring_ok 4 (live demo_hang) (jmp_list demo_hang)"
proof -
  have "is_succ (live demo_hang) 4 0 1" "is_succ (live demo_hang) 4 1 2" "is_succ (live demo_hang) 4 2 0"
    by (auto simp: is_succ_def hang_live)
  then have "\<exists>k. is_succ (live demo_hang) 4 0 k \<and> int 0 + sint (jmp_list demo_hang 0) = int k"
    "\<exists>k. is_succ (live demo_hang) 4 1 k \<and> int 1 + sint (jmp_list demo_hang 1) = int k"
    "\<exists>k. is_succ (live demo_hang) 4 2 k \<and> int 2 + sint (jmp_list demo_hang 2) = int k"
    by (auto simp: hang_fields intro!: exI [of _ 1] exI [of _ 0] exI [of _ 2])
  then show ?thesis by (auto simp: ring_ok_def less4 hang_live) (auto simp: hang_fields)
qed

lemma hang_step_ok: "step_ok (MAX_TASK_COUNT demo_params) demo_hang"
proof -
  have lv: "levels (level_stash demo_hang) (lstash_ptr demo_hang) = [0, 5, 7]"
    by (simp add: levels_def hang_fields upt_rec)
  have "kinv 4 demo_hang"
    unfolding kinv_def
  proof (intro conjI)
    show "table_ok 4 demo_hang"
      by (simp add: table_ok_def All_less4 hang_live) (simp add: hang_fields pid_slot_def drop_bit_eq_div)
  qed (simp_all add: hang_ring, simp add: hang_live upt4 hang_fields)
  moreover have "stash_ok 4 demo_hang"
    unfolding stash_ok_def incr_upto_levels lv by (simp add: All_less4 hang_live) (simp add: hang_fields)
  moreover have "max_ok 4 demo_hang"
    by (auto simp: max_ok_def All_less4 hang_live) (auto simp: hang_fields intro!: exI [of _ 2])
  ultimately show ?thesis
    by (simp add: step_ok_def run_ok_def kernel_ok_def demo_params_def) (simp add: hang_fields All_less4)
qed

lemma end_hangs: "serve (arm_port demo_params) psp slot KILL_TASK ((\<lambda>_. 1)(0 := 0x10002)) demo_hang = None"
proof (rule end_serve [OF hang_step_ok, of "(\<lambda>_. 1)(0 := 0x10002)" slot psp])
  fix s1
  let ?A = "arm_port demo_params"
  assume h: "svc_handler ?A slot KILL_TASK ((\<lambda>_. 1)(0 := 0x10002)) demo_hang = Some (ERROR_NONE, s1)"
    and st: "state s1 = (state demo_hang)(unat (current_task demo_hang) := TASK_STATE_IDLE)"
    "priority_cur s1 = priority_cur demo_hang" "end_pre (MAX_TASK_COUNT demo_params) s1"
    and sv: "serve ?A psp slot KILL_TASK ((\<lambda>_. 1)(0 := 0x10002)) demo_hang =
      map_option (\<lambda>s'. (ERROR_NONE, s')) (kernel_tick ?A psp s1)"
  have e: "end_pre (MAX_TASK_COUNT ?A) s1" using st(3) by simp
  have ls: "live s1 i \<longleftrightarrow> i = 0 \<or> i = 2" for i by (auto simp: live_def st(1) hang_fields)
  have "max_ok 4 s1" using st(3) by (simp add: end_pre_def kernel_ok_def demo_params_def)
  then have mx: "max_level s1 = 7" unfolding max_ok_def All_less4 by (auto simp: ls st(2) hang_fields less4)
  have "op1 s1 = op1 demo_hang \<and> op2 s1 = op2 demo_hang \<and> hib_value s1 = hib_value demo_hang"
    by (rule end_hib [OF h]) simp
  then have d: "\<not> due (entered ?A s1) 2"
    by (simp add: due_def entered_def Let_def hang_fields st(1))
  have "state (woken ?A s1) 2 = state s1 2" using end_woken(6) [OF e, of 2] d by blast
  then have "\<not> ready (woken ?A s1) (max_level s1) i" for i
    by (cases "i = 2") (auto simp: ready_def mx woken_frame st(1,2) hang_fields)
  then have "kernel_tick ?A psp s1 = None" using end_tick_iff [OF e, of psp] by simp
  then show ?thesis by (simp add: sv)
qed (simp_all add: hang_fields demo_params_def)

end
