(* ===== verification/HeapRuns.thy ===== *)
theory HeapRuns
  imports HeapRelease
begin

text \<open>
  The heap over whole runs: the invariant of the list of markers, which the start, every allocation and every release
  keep, and what it means for an allocation in any state that is reached.
\<close>

section \<open>The invariant\<close>

text \<open>
  The markers lie in the bookkeeping region or in the word before it, the last one is in use and has no successor, no block is empty, and the
  variables of the region and of the first block have the values \<open>base\<close> and \<open>h\<close> of the start.
\<close>

definition heap_inv :: "'z params_scheme \<Rightarrow> heap_env \<Rightarrow> u32 \<Rightarrow> u32 \<Rightarrow> mcu \<Rightarrow> u32 list \<Rightarrow> bool" where
  "heap_inv P H base h m as \<longleftrightarrow> heap_env_ok H \<and> region_ok P H m \<and> heap_list H m as \<and> set as \<subseteq> region P H m \<and>
     (as \<noteq> [] \<longrightarrow> \<not> snd (blk m (last as)) \<and> ldrsh (last as) m = 0) \<and> (\<forall>a \<in> set as. 0 < fst (blk m a)) \<and>
     mem m (bstart_addr H) = base \<and> mem m (hstart_addr H) = h"

text \<open>A bookkeeping region whose distances fit into the halves of the markers, and a heap in the RAM.\<close>

definition heap_bounds :: "'z params_scheme \<Rightarrow> u32 \<Rightarrow> bool" where
  "heap_bounds P h \<longleftrightarrow> HEAP_BOOKEEPING_SIZE P < 0x4000 \<and> 0 < unat h \<and> unat h < 0x80000000"

lemma region_marker:
  assumes "HEAP_BOOKEEPING_SIZE P < 0x4000" and "set as \<subseteq> region P H m"
  shows "in_region (mem m (bstart_addr H)) as"
proof -
  have "\<exists>j. marker_at (mem m (bstart_addr H)) j a" if a: "a \<in> set as" for a
  proof -
    obtain j where "j \<le> HEAP_BOOKEEPING_SIZE P" "a = mem m (bstart_addr H) - 4 * of_nat j"
      using subsetD [OF assms(2) a] by (auto simp: region_def)
    then show ?thesis using assms(1) by (intro exI [of _ j]) (simp add: marker_at_def)
  qed
  then show ?thesis by (simp add: in_region_def)
qed

lemma region_length:
  assumes "HEAP_BOOKEEPING_SIZE P < 0x4000" and "set as \<subseteq> region P H m" and "distinct as"
  shows "length as \<le> 0x4000"
proof -
  have "card (region P H m) \<le> card {..HEAP_BOOKEEPING_SIZE P}"
    unfolding region_def by (rule card_image_le) simp
  moreover have "finite (region P H m)" by (simp add: region_def)
  ultimately show ?thesis
    using assms card_mono [of "region P H m" "set as"] by (simp add: distinct_card)
qed

lemma span_bound: "span (map (blk m) as) \<le> length as * 0x8000"
proof (induction as)
  case (Cons a as)
  then show ?case using block_size_bound [of a m] by (simp add: span_def blk_def)
qed (simp add: span_def)

lemma heap_inv_ok:
  assumes "heap_inv P H base h m as" and "heap_bounds P h"
  shows "heap_ok P H m as" "heap_fits H m as" "in_region base as"
proof -
  have r: "set as \<subseteq> region P H m" "distinct as" "HEAP_BOOKEEPING_SIZE P < 0x4000"
    using assms by (auto simp: heap_inv_def heap_list_def heap_bounds_def)
  have len: "length as \<le> 0x4000" by (rule region_length [OF r(3,1,2)])
  then show "heap_ok P H m as" using assms by (simp add: heap_inv_def heap_ok_def)
  have "span (map (blk m) as) \<le> 0x4000 * 0x8000"
    using span_bound [of m as] mult_le_mono1 [OF len, of "0x8000"] by (rule order_trans)
  then show "heap_fits H m as" using assms by (simp add: heap_inv_def heap_bounds_def heap_fits_def)
  show "in_region base as" using region_marker [OF r(3,1)] assms(1) by (simp add: heap_inv_def)
qed

lemma region_same: "mem m' (bstart_addr H) = mem m (bstart_addr H) \<Longrightarrow> region P H m' = region P H m"
  by (simp add: region_def)

section \<open>Allocation and release keep it\<close>

lemma alloc_spec_pos:
  assumes "alloc_spec h sz bs a bs'" and "0 < sz" and "\<forall>b \<in> set bs. 0 < fst b"
  shows "\<forall>b \<in> set bs'. 0 < fst b"
  using assms
proof cases
  case (split xs n ys)
  have "n - sz \<noteq> 0" using split(5) by auto
  then show ?thesis using split assms(2,3) by (auto simp: word_gt_0)
qed auto

lemma allocate_keeps:
  assumes inv: "heap_inv A H base h (mcu s) as" and hb: "heap_bounds A h"
    and sz: "arguments 1 = sz" "0 < sz" "unat sz < 0x8000"
  obtains a as' s' where "svc_service_gheap_allocate H A svc_num arguments s = Some (a, svc_num, arguments, s')"
    "alloc_spec h sz (map (blk (mcu s)) as) a (map (blk (mcu s')) as')" "heap_inv A H base h (mcu s') as'"
proof -
  note ok = heap_inv_ok [OF inv hb]
  obtain a as' s' where r: "svc_service_gheap_allocate H A svc_num arguments s = Some (a, svc_num, arguments, s')"
    "alloc_spec (mem (mcu s) (hstart_addr H)) sz (map (blk (mcu s)) as) a (map (blk (mcu s')) as')"
    "heap_list H (mcu s') as'" "region_ok A H (mcu s')" "as' \<noteq> [] \<longrightarrow> \<not> snd (blk (mcu s') (last as'))"
    "grows A H (mcu s) as (mcu s') as'" "mem (mcu s') (hstart_addr H) = mem (mcu s) (hstart_addr H)"
    "mem (mcu s') (bstart_addr H) = mem (mcu s) (bstart_addr H)"
    using allocate_service [where arguments = arguments, OF ok(1,2) sz, of svc_num] by blast
  have hh: "mem (mcu s) (hstart_addr H) = h" "mem (mcu s) (bstart_addr H) = base" using inv by (simp_all add: heap_inv_def)
  have pos: "\<forall>b \<in> set (map (blk (mcu s')) as'). 0 < fst b"
    by (rule alloc_spec_pos [OF r(2) sz(2)]) (use inv in \<open>simp add: heap_inv_def\<close>)
  have sub: "set as' \<subseteq> region A H (mcu s')"
    using r(6) inv region_same [OF r(8), where P = A] by (auto simp: grows_def heap_inv_def)
  have z: "as' \<noteq> [] \<longrightarrow> ldrsh (last as') (mcu s') = 0" using r(6) inv by (simp add: grows_def heap_inv_def)
  have "heap_inv A H base h (mcu s') as'"
    unfolding heap_inv_def using r(3-5,7,8) pos sub z inv hh by (simp add: heap_inv_def)
  with r(1,2) show thesis by (intro that) (simp_all add: hh)
qed

text \<open>
  What a release needs: a block in use, with neighbours whose joined size is below 0x7FFF; the last block only after one
  in use. A release of the last block after a free one leaves a free last block, from which the list becomes cyclic
  (\<open>heap_blocks_overlap\<close> in \<open>Deviations\<close>).
\<close>

definition releasable :: "mcu \<Rightarrow> u32 list \<Rightarrow> u32 \<Rightarrow> u32 list \<Rightarrow> bool" where
  "releasable m xs r ys \<longleftrightarrow> \<not> snd (blk m r) \<and> (ys = [] \<longrightarrow> xs = [] \<or> \<not> snd (blk m (last xs))) \<and>
     unat (fst (blk m r)) + free_size (map (blk m) (drop (length xs - 1) xs @ take 1 ys)) < 0x7FFF"

lemma word_pos_sum: "0 < (a :: u32) \<Longrightarrow> unat a + unat b < 2 ^ 32 \<Longrightarrow> 0 < a + b"
  by (simp add: word_less_nat_alt unat_word_ariths)

lemma release_blocks_pos:
  assumes pos: "\<forall>b \<in> set xs. 0 < fst b" "\<forall>b \<in> set ys. 0 < fst b" "0 < n"
    and sz: "unat n + free_size (drop (length xs - 1) xs @ take 1 ys) < 0x7FFF"
  shows "\<forall>b \<in> set (release_blocks xs n ys). 0 < fst b"
proof (cases "ys = []")
  case False
  obtain n1 ys1 where j: "join_right n ys = (n1, ys1)" by (cases "join_right n ys")
  have jr: "set ys1 \<subseteq> set ys \<and> 0 < n1 \<and> unat n1 \<le> unat n + free_size (take 1 ys)"
    using j pos(3) sz
    by (cases "(n, ys)" rule: join_right.cases)
      (auto simp: free_size_def unat_word_ariths intro!: word_pos_sum)
  show ?thesis
  proof (cases "xs \<noteq> [] \<and> snd (last xs)")
    case True
    then obtain ws k where ws: "xs = ws @ [(k, True)]" by (cases xs rule: rev_cases) auto
    have "unat k + unat n1 < 2 ^ 32" using sz jr by (simp add: ws free_size_def)
    then have "0 < k + n1" using pos(1) by (intro word_pos_sum) (simp_all add: ws)
    then show ?thesis using True False jr pos(1,2) by (auto simp: release_blocks_def j ws)
  next
    case False
    then show ?thesis using \<open>ys \<noteq> []\<close> jr pos by (auto simp: release_blocks_def j)
  qed
qed (use pos in \<open>simp add: release_blocks_def\<close>)

lemma release_keeps:
  assumes inv: "heap_inv A H base h (mcu s) (xs @ r # ys)" and hb: "heap_bounds A h"
    and rel: "releasable (mcu s) xs r ys" and addr: "arguments 1 = h + sizes (mcu s) xs"
  obtains as' s' where "svc_service_gheap_release H A svc_num arguments s = Some (ERROR_NONE, svc_num, arguments, s')"
    "map (blk (mcu s')) as' = release_blocks (map (blk (mcu s)) xs) (fst (blk (mcu s) r)) (map (blk (mcu s)) ys)"
    "heap_inv A H base h (mcu s') as'"
proof -
  let ?n = "fst (blk (mcu s) r)"
  note ok = heap_inv_ok [OF inv hb]
  have hh: "mem (mcu s) (hstart_addr H) = h" "mem (mcu s) (bstart_addr H) = base" using inv by (simp_all add: heap_inv_def)
  have b: "blk (mcu s) r = (?n, False)" using rel by (cases "blk (mcu s) r") (simp add: releasable_def)
  have pos: "\<forall>a \<in> set xs. 0 < fst (blk (mcu s) a)" "\<forall>a \<in> set ys. 0 < fst (blk (mcu s) a)" "0 < ?n"
    and z: "ldrsh (last (xs @ r # ys)) (mcu s) = 0" and lst: "\<not> snd (blk (mcu s) (last (xs @ r # ys)))"
    using inv by (simp_all add: heap_inv_def)
  have sz: "unat ?n + free_size (map (blk (mcu s)) (drop (length xs - 1) xs @ take 1 ys)) < 0x7FFF"
    using rel by (simp add: releasable_def)
  have ad: "arguments 1 = mem (mcu s) (hstart_addr H) + sizes (mcu s) xs" using addr hh by simp
  obtain as' s' where r: "svc_service_gheap_release H A svc_num arguments s = Some (ERROR_NONE, svc_num, arguments, s')"
    "heap_list H (mcu s') as'"
    "map (blk (mcu s')) as' = release_blocks (map (blk (mcu s)) xs) ?n (map (blk (mcu s)) ys)"
    "shrinks (xs @ r # ys) (mcu s') as'" "mem (mcu s') (hstart_addr H) = mem (mcu s) (hstart_addr H)"
    "mem (mcu s') (bstart_addr H) = mem (mcu s) (bstart_addr H)"
    using release_service [where arguments = arguments, OF ok(1,2,3) z b pos(1) ad sz, of svc_num] by blast
  have bpos: "\<forall>b \<in> set (map (blk (mcu s')) as'). 0 < fst b"
    unfolding r(3) by (rule release_blocks_pos) (use pos sz in \<open>simp_all add: drop_map take_map [symmetric]\<close>)
  have sub: "set as' \<subseteq> region A H (mcu s')"
    using r(4) inv region_same [OF r(6), where P = A] by (auto simp: shrinks_def heap_inv_def)
  have used: "\<not> snd (blk (mcu s') (last as'))" if "as' \<noteq> []"
    using release_last_used [OF r(3) that lst] rel by (auto simp: releasable_def)
  have "region_ok A H (mcu s')" using inv region_cong [OF r(6), of A] by (simp add: heap_inv_def)
  then have "heap_inv A H base h (mcu s') as'"
    unfolding heap_inv_def using r(2,4-6) bpos sub used inv hh by (simp add: heap_inv_def shrinks_def)
  with r(1,3) show thesis by (rule that)
qed

section \<open>Runs\<close>

text \<open>
  A step of the system, as the heap sees it: a request for at least one and at most 32767 bytes, the release of a block in use
  that is \<open>releasable\<close>, or anything that leaves the heap's variables and its bookkeeping region as they are.
\<close>

inductive heap_step :: "port \<Rightarrow> heap_env \<Rightarrow> kstate \<Rightarrow> kstate \<Rightarrow> bool" for A H where
  allocate: "svc_service_gheap_allocate H A svc_num arguments s = Some (a, svc_num', arguments', s') \<Longrightarrow>
    0 < arguments 1 \<Longrightarrow> unat (arguments 1) < 0x8000 \<Longrightarrow> heap_step A H s s'"
| release: "svc_service_gheap_release H A svc_num arguments s = Some (e, svc_num', arguments', s') \<Longrightarrow>
    heap_list H (mcu s) (xs @ r # ys) \<Longrightarrow> releasable (mcu s) xs r ys \<Longrightarrow>
    arguments 1 = mem (mcu s) (hstart_addr H) + sizes (mcu s) xs \<Longrightarrow> heap_step A H s s'"
| other: "\<forall>x \<in> heap_vars H \<union> region A H (mcu s). mem (mcu s') x = mem (mcu s) x \<Longrightarrow> heap_step A H s s'"

inductive heap_run :: "port \<Rightarrow> heap_env \<Rightarrow> kstate \<Rightarrow> kstate \<Rightarrow> bool" for A H where
  start: "mcu s = heap_init A H m \<Longrightarrow> heap_run A H s s"
| step: "heap_run A H s s' \<Longrightarrow> heap_step A H s' s'' \<Longrightarrow> heap_run A H s s''"

text \<open>The list of markers is the only one that fits the memory.\<close>

lemma chain_unique:
  "chain m as \<Longrightarrow> chain m bs \<Longrightarrow> length as = length bs \<Longrightarrow> (as \<noteq> [] \<longrightarrow> hd as = hd bs) \<Longrightarrow> as = bs"
proof (induction m as arbitrary: bs rule: chain.induct)
  case (1 m a b as)
  then obtain c cs where bs: "bs = a # c # cs" by (cases bs; cases "tl bs") auto
  have "b = c" using "1.prems" bs by simp
  moreover have "b # as = c # cs" using 1 bs \<open>b = c\<close> by (intro "1.IH") auto
  ultimately show ?case using bs by simp
qed (auto simp: Suc_length_conv)

lemma heap_list_unique: "heap_list H m as \<Longrightarrow> heap_list H m bs \<Longrightarrow> as = bs"
  by (rule chain_unique [of m]) (auto simp: heap_list_def split: if_splits)

lemma other_keeps:
  assumes inv: "heap_inv P H base h m as" and x: "\<forall>x \<in> heap_vars H \<union> region P H m. mem m' x = mem m x"
  shows "heap_inv P H base h m' as"
proof -
  have v: "mem m' x = mem m x" if "x \<in> heap_vars H" for x using x that by blast
  then have vars: "mem m' (hstart_addr H) = mem m (hstart_addr H)" "mem m' (bstart_addr H) = mem m (bstart_addr H)"
    "mem m' (fsll_start H) = mem m (fsll_start H)" "mem m' (fsll_end H) = mem m (fsll_end H)"
    "mem m' (blist_size H) = mem m (blist_size H)"
    by (simp_all add: heap_vars_def)
  have a: "mem m' a = mem m a" if "a \<in> set as" for a using x inv that by (auto simp: heap_inv_def)
  have ch: "chain m' as = chain m as" by (intro chain_cong marker_frame(2) a) (rule in_set_butlastD)
  have "mem m (bstart_addr H) - 4 * of_nat 0 \<in> region P H m" unfolding region_def by blast
  then have b0: "mem m' (mem m (bstart_addr H)) = mem m (mem m (bstart_addr H))" using x by auto
  have "heap_list H m' as"
    using inv ch marker_frame(1) [OF a] by (auto simp: heap_inv_def heap_list_def vars b0)
  moreover have "region_ok P H m'" "region P H m' = region P H m"
    using inv region_cong [OF vars(2), of P] region_same [OF vars(2), of P] by (simp_all add: heap_inv_def)
  moreover have "blk m' a = blk m a" if "a \<in> set as" for a by (rule blk_cong [OF a [OF that]])
  moreover have "ldrsh (last as) m' = ldrsh (last as) m" if "as \<noteq> []" using a [of "last as"] that by (simp add: ldrsh_def)
  ultimately show ?thesis using inv by (auto simp: heap_inv_def vars)
qed

lemma heap_step_keeps:
  assumes "heap_step A H s s'" and inv: "heap_inv A H base h (mcu s) as" and hb: "heap_bounds A h"
  shows "\<exists>as'. heap_inv A H base h (mcu s') as'"
  using assms(1)
proof cases
  case (allocate svc_num arguments a svc_num' arguments')
  obtain a' as' s1 where "svc_service_gheap_allocate H A svc_num arguments s = Some (a', svc_num, arguments, s1)"
    "heap_inv A H base h (mcu s1) as'"
    by (rule allocate_keeps [where arguments = arguments, OF inv hb refl allocate(2,3)])
  with allocate(1) show ?thesis by auto
next
  case (release svc_num arguments e svc_num' arguments' xs r ys)
  have as: "as = xs @ r # ys" using heap_list_unique [OF _ release(2)] inv by (simp add: heap_inv_def)
  have ad: "arguments 1 = h + sizes (mcu s) xs" using release(4) inv by (simp add: heap_inv_def)
  obtain as' s1 where "svc_service_gheap_release H A svc_num arguments s = Some (ERROR_NONE, svc_num, arguments, s1)"
    "heap_inv A H base h (mcu s1) as'"
    by (rule release_keeps [where arguments = arguments, OF inv [unfolded as] hb release(3) ad])
  with release(1) show ?thesis by auto
next
  case other
  then show ?thesis using other_keeps [OF inv] by blast
qed

lemma init_inv:
  assumes b: "heap_build P H" "0 < heap_start_sym H" "heap_start_sym H \<le> 0x20040000" "HEAP_BOOKEEPING_SIZE P < 0x4000"
  defines "h \<equiv> heap_start_sym H + heap_start_sym H mod 4"
    and "base \<equiv> ghmb_addr_sym H + (of_nat (HEAP_BOOKEEPING_SIZE P) * 4 - 4)"
  shows "heap_inv P H base h (heap_init P H m) []" and "heap_bounds P h"
proof -
  have ok: "heap_ok P H (heap_init P H m) []" using heap_init_empty [OF b(1-3)] by blast
  then show "heap_inv P H base h (heap_init P H m) []"
    using heap_init_mem(1,6) [OF b(1), of m] by (simp add: heap_inv_def heap_ok_def h_def base_def)
  have "unat (heap_start_sym H) \<le> 0x20040000" "0 < unat (heap_start_sym H)"
    using b(2,3) by (simp_all add: word_le_nat_alt word_less_nat_alt)
  moreover have "unat (heap_start_sym H mod 4) < 4" by (simp add: unat_mod)
  ultimately show "heap_bounds P h" using b(4) by (simp add: heap_bounds_def h_def unat_word_ariths)
qed

lemma heap_run_inv:
  assumes "heap_run A H s s'" and b: "heap_build A H" "0 < heap_start_sym H" "heap_start_sym H \<le> 0x20040000"
    "HEAP_BOOKEEPING_SIZE A < 0x4000"
  defines "h \<equiv> heap_start_sym H + heap_start_sym H mod 4"
    and "base \<equiv> ghmb_addr_sym H + (of_nat (HEAP_BOOKEEPING_SIZE A) * 4 - 4)"
  obtains as where "heap_inv A H base h (mcu s') as"
proof -
  have "\<exists>as. heap_inv A H base h (mcu s') as"
    using assms(1)
  proof induction
    case (start s m)
    then show ?case using init_inv(1) [OF b, of m] unfolding h_def base_def by auto
  next
    case (step s s' s'')
    then show ?case using heap_step_keeps init_inv(2) [OF b] unfolding h_def by blast
  qed
  with that show thesis by blast
qed

text \<open>
  C35. Every heap the system can reach from the start, by allocations, by releases of blocks in use and by steps that leave
  the heap's words alone, in any order and number, is consistent, as long as every release is \<open>releasable\<close>: the last block is
  released only when the block before it is in use, and the sizes that are joined stay below 0x7FFF. Consistent means that the
  markers are distinct words of the bookkeeping region or the word right before it (the search for an empty word goes that
  far), that no block is empty and that the last block is in use. In every such state a request returns, by first fit,
  and a block it hands out has the requested size and shares no byte with a block in use. Without the condition on the
  last block two blocks in use overlap (\<open>heap_blocks_overlap\<close> in \<open>Deviations\<close>).
\<close>

theorem heap_runs_consistent:
  assumes "heap_run A H s0 s" and "heap_build A H" "0 < heap_start_sym H" "heap_start_sym H \<le> 0x20040000"
    "HEAP_BOOKEEPING_SIZE A < 0x4000" and sz: "arguments 1 = sz" "0 < sz" "unat sz < 0x8000"
  shows "\<exists>as. heap_list H (mcu s) as \<and> set as \<subseteq> region A H (mcu s) \<and> distinct as \<and>
    (\<forall>b \<in> set (map (blk (mcu s)) as). 0 < fst b) \<and> (as \<noteq> [] \<longrightarrow> \<not> snd (blk (mcu s) (last as))) \<and>
    (\<exists>a as' s'. svc_service_gheap_allocate H A svc_num arguments s = Some (a, svc_num, arguments, s') \<and>
      heap_list H (mcu s') as' \<and>
      alloc_spec (heap_start_sym H + heap_start_sym H mod 4) sz (map (blk (mcu s)) as) a (map (blk (mcu s')) as') \<and>
      (a \<noteq> 0 \<longrightarrow> (\<exists>n \<ge> unat sz. {unat a..<unat a + n} \<inter>
        used (unat (heap_start_sym H + heap_start_sym H mod 4)) (map (blk (mcu s)) as) = {})))"
proof (rule heap_run_inv [OF assms(1-5)])
  let ?h = "heap_start_sym H + heap_start_sym H mod 4" and ?b = "ghmb_addr_sym H + (of_nat (HEAP_BOOKEEPING_SIZE A) * 4 - 4)"
  fix as
  assume inv: "heap_inv A H ?b ?h (mcu s) as"
  note hb = init_inv(2) [OF assms(2-5)]
  obtain a as' s' where r: "svc_service_gheap_allocate H A svc_num arguments s = Some (a, svc_num, arguments, s')"
    "alloc_spec ?h sz (map (blk (mcu s)) as) a (map (blk (mcu s')) as')" "heap_inv A H ?b ?h (mcu s') as'"
    by (rule allocate_keeps [where arguments = arguments, OF inv hb sz])
  have "unat ?h + span (map (blk (mcu s)) as) < 2 ^ 32"
    using heap_inv_ok(2) [OF inv hb] inv by (simp add: heap_fits_def heap_inv_def)
  then have "\<exists>n \<ge> unat sz. {unat a..<unat a + n} \<inter> used (unat ?h) (map (blk (mcu s)) as) = {}" if "a \<noteq> 0"
    using alloc_used [OF r(2) _ that] by blast
  moreover have l: "heap_list H (mcu s) as" "heap_list H (mcu s') as'"
    using inv r(3) unfolding heap_inv_def by blast+
  moreover have "distinct as" using l(1) by (simp add: heap_list_def)
  moreover have "set as \<subseteq> region A H (mcu s)" "\<forall>b \<in> set (map (blk (mcu s)) as). 0 < fst b"
    "as \<noteq> [] \<longrightarrow> \<not> snd (blk (mcu s) (last as))"
    using inv by (simp_all add: heap_inv_def)
  ultimately show ?thesis using r(1,2) by blast
qed

text \<open>The first allocation on the concrete build.\<close>

lemma demo_build_port: "heap_build demo_arm heap_demo"
  using demo_heap_build demo_params_port by (simp add: heap_build_def)

lemma demo_init_port: "heap_init demo_arm heap_demo m = heap_init demo_params heap_demo m"
  by (simp add: heap_init_def demo_params_port Let_def)

theorem heap_runs_consistent_witness:
  "\<exists>a s' as'. svc_service_gheap_allocate heap_demo demo_arm GHEAP_ALLOCATE alloc_args demo_heap_state =
      Some (a, GHEAP_ALLOCATE, alloc_args, s') \<and> heap_run demo_arm heap_demo demo_heap_state s' \<and>
    heap_list heap_demo (mcu s') as'"
proof -
  have st: "heap_run demo_arm heap_demo demo_heap_state demo_heap_state"
    by (rule heap_run.start [of _ _ _ demo_mcu]) (simp add: demo_heap_state_def demo_init_port)
  have b: "0 < heap_start_sym heap_demo" "heap_start_sym heap_demo \<le> 0x20040000" "HEAP_BOOKEEPING_SIZE demo_arm < 0x4000"
    by (simp_all add: heap_demo_def demo_params_port) (simp add: demo_params_def)
  have i: "alloc_args 1 = 24" "0 < (24 :: u32)" "unat (24 :: u32) < 0x8000" by (simp_all add: alloc_args_def)
  obtain a s1 as1 where s1: "svc_service_gheap_allocate heap_demo demo_arm GHEAP_ALLOCATE alloc_args demo_heap_state =
      Some (a, GHEAP_ALLOCATE, alloc_args, s1)" "heap_list heap_demo (mcu s1) as1"
    using heap_runs_consistent [where arguments = alloc_args, OF st demo_build_port b i, of GHEAP_ALLOCATE] by blast
  have "heap_run demo_arm heap_demo demo_heap_state s1"
    by (rule heap_run.step [OF st heap_step.allocate [OF s1(1)]]) (simp_all add: alloc_args_def)
  with s1 show ?thesis by blast
qed

end
