(* ===== verification/Memory.thy ===== *)
theory Memory
  imports Kvar
begin

text \<open>
  Words in the memory of the machine, as the assembly of the ports loads and stores them.
\<close>

section \<open>Instructions\<close>

definition load :: "kstate \<Rightarrow> u32 \<Rightarrow> u32" where
  "load s a = mem (mcu s) a"

definition store :: "u32 \<Rightarrow> u32 \<Rightarrow> kstate \<Rightarrow> kstate" where
  "store a v s = on_mcu (mem_store a v) s"

text \<open>The words \<open>vs\<close> from address \<open>a\<close> on, as the instructions for multiple registers store them.\<close>

primrec store_all :: "u32 \<Rightarrow> u32 list \<Rightarrow> kstate \<Rightarrow> kstate" where
  "store_all a [] s = s"
| "store_all a (v # vs) s = store_all (a + 4) vs (store a v s)"

text \<open>The registers \<open>rs\<close> from the words at \<open>a\<close>, as the instructions for multiple registers load them.\<close>

definition load_gprs :: "nat list \<Rightarrow> u32 \<Rightarrow> kstate \<Rightarrow> (nat \<Rightarrow> u32) \<Rightarrow> nat \<Rightarrow> u32" where
  "load_gprs rs a s g = fold (\<lambda>(k, r) g. g(r := load s (a + 4 * of_nat k))) (List.enumerate 0 rs) g"

text \<open>
  What a service stores through its pointers to the arguments (\<open>ap\<close>) and to the code (\<open>slot\<close>): a new first argument, a
  new code.
\<close>

definition svc_writes :: "u32 \<Rightarrow> u32 \<Rightarrow> u32 \<Rightarrow> u32 \<Rightarrow> svc_args \<Rightarrow> svc_args \<Rightarrow> kstate \<Rightarrow> kstate" where
  "svc_writes ap slot code code' args args' s =
     (let s1 = (if args' 0 = args 0 then s else store ap (args' 0) s)
      in if code' = code then s1 else store slot code' s1)"

section \<open>Loads after stores\<close>

lemma store_frame [simp]:
  "PSP_Array (store a v s) = PSP_Array s" "next_task (store a v s) = next_task s"
  "current_task (store a v s) = current_task s"
  by (simp_all add: store_def on_mcu_def)

lemma load_store [simp]: "load (store a v s) x = (if x = a then v else load s x)"
  by (simp add: load_def store_def on_mcu_def mem_store_def)

lemma store_all_frame [simp]:
  "PSP_Array (store_all a vs s) = PSP_Array s" "next_task (store_all a vs s) = next_task s"
  "current_task (store_all a vs s) = current_task s"
  by (induction vs arbitrary: a s) simp_all

text \<open>The addresses of \<open>n\<close> words from \<open>a\<close> on.\<close>

definition words :: "u32 \<Rightarrow> nat \<Rightarrow> u32 set" where
  "words a n = (\<lambda>k. a + 4 * of_nat k) ` {..<n}"

lemma words_0 [simp]: "words a 0 = {}"
  by (simp add: words_def)

lemma words_Suc: "words a (Suc n) = insert a (words (a + 4) n)"
  by (auto simp: words_def lessThan_Suc_eq_insert_0 image_image algebra_simps)

lemma load_store_all_other: "x \<notin> words a (length vs) \<Longrightarrow> load (store_all a vs s) x = load s x"
  by (induction vs arbitrary: a s) (simp_all add: words_Suc)

lemma words_inj:
  assumes "k < 2 ^ 30" and "j < 2 ^ 30" and "a + 4 * of_nat k = (a :: u32) + 4 * of_nat j"
  shows "k = j"
proof -
  have "(of_nat (4 * k) :: u32) = of_nat (4 * j)" using assms(3) by simp
  then have "unat (of_nat (4 * k) :: u32) = unat (of_nat (4 * j) :: u32)" by (rule arg_cong)
  then show ?thesis using assms(1,2) by (simp add: unat_of_nat_u32 del: of_nat_mult)
qed

lemma load_store_all:
  "k < length vs \<Longrightarrow> length vs \<le> 2 ^ 30 \<Longrightarrow> load (store_all a vs s) (a + 4 * of_nat k) = vs ! k"
proof (induction vs arbitrary: a s k)
  case (Cons v vs)
  show ?case
  proof (cases k)
    case 0
    have "a \<notin> words (a + 4) (length vs)"
    proof
      assume "a \<in> words (a + 4) (length vs)"
      then obtain j where j: "j < length vs" "a = a + 4 + 4 * of_nat j" by (auto simp: words_def)
      then have "a + 4 * of_nat 0 = a + 4 * of_nat (Suc j)" by (simp add: algebra_simps)
      then show False using words_inj [of 0 "Suc j" a] Cons.prems(2) j(1) by simp
    qed
    then show ?thesis using 0 by (simp add: load_store_all_other)
  next
    case (Suc j)
    have eq: "a + 4 * of_nat k = a + 4 + 4 * of_nat j" using Suc by (simp add: algebra_simps)
    show ?thesis unfolding store_all.simps eq using Cons.IH [of j "a + 4" "store a v s"] Cons.prems Suc by simp
  qed
qed simp

lemma words_range:
  assumes "x \<in> words a n" and "unat a + 4 * n \<le> 2 ^ 32"
  shows "unat a \<le> unat x \<and> unat x < unat a + 4 * n"
proof -
  obtain k where k: "k < n" "x = a + of_nat (4 * k)" using assms(1) by (auto simp: words_def)
  have "unat (of_nat (4 * k) :: u32) = 4 * k" using assms(2) k(1) by (intro unat_of_nat_u32) simp
  then have "unat x = unat a + 4 * k" using assms(2) k by (simp add: unat_word_ariths del: of_nat_mult)
  then show ?thesis using k(1) by simp
qed

lemma words_disjoint:
  assumes "unat a + 4 * n \<le> unat b" and "unat b + 4 * m \<le> 2 ^ 32"
  shows "words a n \<inter> words b m = {}"
proof -
  have "False" if "x \<in> words a n" "x \<in> words b m" for x
    using words_range [OF that(1)] words_range [OF that(2) assms(2)] assms by simp
  then show ?thesis by blast
qed

lemma words_below:
  assumes "unat a + 4 * n \<le> unat b" and "\<And>d. d \<in> D \<Longrightarrow> b \<le> d"
  shows "words a n \<inter> D = {}"
proof -
  have "unat b < 2 ^ LENGTH(32)" by (rule unsigned_less)
  then have "unat a + 4 * n \<le> 2 ^ 32" using assms(1) by simp
  then have "unat x < unat b" if "x \<in> words a n" for x using words_range [OF that] assms(1) by simp
  then show ?thesis using assms(2) by (fastforce simp: word_le_nat_alt)
qed

end
