(* ===== verification/MpcAsm.thy ===== *)
theory MpcAsm
  imports MpcPort Memory
begin

text \<open>
  The assembly of the MPC57x8 port, instruction by instruction: the interrupt entry of \<^verbatim>\<open>ivor_table.S\<close>, the
  context switch of \<^verbatim>\<open>context_switch.S\<close>, the supervisor call of \<^verbatim>\<open>svc_handler.S\<close>, and the switch to user mode of
  \<^verbatim>\<open>os_util.S\<close>.

  \<open>core\<close> are the registers of the processor with the two variables of \<^verbatim>\<open>arch_kvar.c\<close> that only this code uses. The
  memory is that of the kernel state. An interrupt and \<open>se_sc\<close> save the address of the next instruction and the machine
  state in \<open>srr0\<close> and \<open>srr1\<close> and clear the interrupt and the user mode bit, and \<open>se_rfi\<close> loads both again, as the
  manual of the core says.
\<close>

section \<open>Registers and instructions\<close>

record core =
  gpr :: "nat \<Rightarrow> u32"
  cr :: u32
  lr :: u32
  ctr :: u32
  xer :: u32
  srr0 :: u32
  srr1 :: u32
  msr :: u32
  pc :: u32
  kernel_sp :: u32
  task_sp :: u32

abbreviation (input) MSR_EE :: u32 where "MSR_EE \<equiv> 0x8000"
abbreviation (input) MSR_PR :: u32 where "MSR_PR \<equiv> 0x4000"

text \<open>The volatile general registers of \<open>e_stmvgprw\<close> and \<open>e_lmvgprw\<close>.\<close>

definition volatile :: "nat list" where
  "volatile = [0, 3, 4, 5, 6, 7, 8, 9, 10, 11, 12]"

definition set_gpr :: "nat \<Rightarrow> u32 \<Rightarrow> core \<Rightarrow> core" where
  "set_gpr r v c = c\<lparr>gpr := (gpr c)(r := v)\<rparr>"

definition enter :: "core \<Rightarrow> core" where
  "enter c = c\<lparr>srr0 := pc c, srr1 := msr c, msr := msr c AND NOT (MSR_EE OR MSR_PR)\<rparr>"

definition rfi :: "core \<Rightarrow> core" where
  "rfi c = c\<lparr>pc := srr0 c, msr := srr1 c\<rparr>"

section \<open>Interrupt entry (ivor\_table.S)\<close>

abbreviation (input) IACKR0 :: u32 where "IACKR0 \<equiv> 0xFC040020"
abbreviation (input) EOIR0 :: u32 where "EOIR0 \<equiv> 0xFC040030"

definition IVOR4_prologue :: "core \<times> kstate \<Rightarrow> core \<times> kstate" where
  "IVOR4_prologue = (\<lambda>(c, s).
     let r1 = gpr c 1 - 0x50;
         s1 = store (r1 + 0x08) (gpr c 3) (store_all (r1 + 0x0C) [srr0 c, srr1 c] (store r1 (gpr c 1) s));
         isr = load s1 (load s1 IACKR0);
         s2 = store_all (r1 + 0x14) [cr c, lr c, ctr c, xer c] s1;
         g = (gpr c)(1 := r1, 3 := isr);
         s3 = store_all (r1 + 0x24) (map g volatile) s2
     in (c\<lparr>gpr := g, lr := isr, msr := msr c OR MSR_EE\<rparr>, s3))"

definition IVOR4_epilogue :: "core \<times> kstate \<Rightarrow> core \<times> kstate" where
  "IVOR4_epilogue = (\<lambda>(c, s).
     let r1 = gpr c 1;
         g = load_gprs volatile (r1 + 0x24) s (gpr c);
         c1 = c\<lparr>gpr := g, cr := load s (r1 + 0x14), lr := load s (r1 + 0x18), ctr := load s (r1 + 0x1C),
                xer := load s (r1 + 0x20)\<rparr>;
         s1 = on_mcu (hwreg_store EOIR0 0xFC040000) s;
         c2 = set_gpr 3 (load s1 (r1 + 0x08)) (c1\<lparr>msr := msr c1 AND NOT MSR_EE\<rparr>);
         c3 = set_gpr 1 (r1 + 0x50) (c2\<lparr>srr0 := load s1 (r1 + 0x0C), srr1 := load s1 (r1 + 0x10)\<rparr>)
     in (rfi c3, s1))"

section \<open>Context switch (context\_switch.S)\<close>

text \<open>
  The handlers run between the two parts of the interrupt entry; of the registers they leave, the last part reads the
  stack pointer only.
\<close>

definition clear_sw_int :: "kstate \<Rightarrow> kstate" where
  "clear_sw_int = on_mcu (hwreg_store 0xFC040040 1)"

definition context_switch_handler :: "core \<times> kstate \<Rightarrow> core \<times> kstate" where
  "context_switch_handler = (\<lambda>(c, s).
     let s1 = context_switch (gpr c 1) s;
         r1 = PSP_Array s1 (unat (next_task s1));
         g = (gpr c)(1 := r1, 3 := 0, 4 := 0xFC040040, 5 := 1, 6 := next_task s1 * 4)
     in (c\<lparr>gpr := g\<rparr>, clear_sw_int s1))"

definition pre_context_switch_handler :: "mpc_env \<Rightarrow> u32 \<Rightarrow> core \<times> kstate \<Rightarrow> core \<times> kstate" where
  "pre_context_switch_handler M handler = (\<lambda>(c, s).
     let r1 = PSP_Array s (unat (next_task s));
         g = (gpr c)(1 := r1, 3 := VECTOR_RAM M, 4 := handler, 5 := 1, 6 := next_task s * 4);
         s1 = clear_sw_int (s\<lparr>current_task := next_task s\<rparr>)
     in (c\<lparr>gpr := g\<rparr>, store (VECTOR_RAM M) handler s1))"

text \<open>The interrupt that switches tasks, from the instruction it interrupts to the first one of the next task.\<close>

definition switch_interrupt :: "core \<times> kstate \<Rightarrow> core \<times> kstate" where
  "switch_interrupt = (\<lambda>(c, s). IVOR4_epilogue (context_switch_handler (IVOR4_prologue (enter c, s))))"

definition first_switch_interrupt :: "mpc_env \<Rightarrow> u32 \<Rightarrow> core \<times> kstate \<Rightarrow> core \<times> kstate" where
  "first_switch_interrupt M handler = (\<lambda>(c, s).
     IVOR4_epilogue (pre_context_switch_handler M handler (IVOR4_prologue (enter c, s))))"

section \<open>Interrupt vectors (ivor\_table.S)\<close>

text \<open>The sixteen vectors. The default handlers jump to themselves.\<close>

datatype ivor_handler = IVOR_Handler nat | IVOR4_Handler | IVOR8_svc_handler

definition IVOR_Vectors :: "ivor_handler list" where
  "IVOR_Vectors = (map IVOR_Handler [0..<16])[4 := IVOR4_Handler, 8 := IVOR8_svc_handler]"

definition IVOR_default :: "kstate \<Rightarrow> kstate option" where
  "IVOR_default s = spin_forever s"

section \<open>Supervisor calls (svc\_handler.S)\<close>

text \<open>
  Where the linker puts the dispatch table, and the size of its entries, which \<^verbatim>\<open>symgen.c\<close> computes for the
  assembler.
\<close>

record svc_layout =
  svc_dispatch_addr :: u32
  SIZE_OF_SDT :: u32

definition svc_entry :: "svc_layout \<Rightarrow> u32 \<Rightarrow> u32" where
  "svc_entry L code =
     svc_dispatch_addr L + SIZE_OF_SDT L * of_nat (length (takeWhile (\<lambda>e. fst e \<noteq> code) svc_dispatch))"

text \<open>
  Up to \<open>svc_cycle\<close>: the frame of the caller goes to its own stack; a call from user mode goes on on the kernel
  stack. Below the stack pointer are then the code of the service, the mode of the caller and its link register. The
  register 6 is written before it is read again.
\<close>

definition svc_prologue :: "core \<times> kstate \<Rightarrow> core \<times> kstate" where
  "svc_prologue = (\<lambda>(c, s).
     let r1 = gpr c 1 - 32;
         s1 = store_all r1 (map (gpr c) [4, 5, 6, 7, 8, 9] @ [srr0 c, srr1 c]) s;
         r5 = srr1 c AND 0x4000;
         (sp, c1) = (if r5 = 0 then (r1, c) else (kernel_sp c, c\<lparr>task_sp := r1\<rparr>));
         s2 = store_all (sp - 12) [gpr c 3, r5, lr c] s1
     in (c1\<lparr>gpr := (gpr c)(1 := sp - 12, 4 := r1 + 32, 5 := gpr c 3, 7 := lr c)\<rparr>, s2))"

text \<open>
  What a compiled service leaves in the registers its caller has to save, \<open>vol\<close>, is a parameter; it keeps the others.
\<close>

definition clobber :: "core \<Rightarrow> core \<Rightarrow> core" where
  "clobber vol c = c\<lparr>gpr := (\<lambda>r. if r \<in> set volatile then gpr vol r else gpr c r), cr := cr vol, lr := lr vol,
     ctr := ctr vol, xer := xer vol\<rparr>"

text \<open>The registers after a service with result \<open>r\<close>: 4 to 9 from the stack, and the code from its word.\<close>

definition svc_return :: "core \<Rightarrow> u32 \<Rightarrow> core \<Rightarrow> kstate \<Rightarrow> core" where
  "svc_return vol r c s =
     (let slot = gpr c 1;
          c1 = set_gpr 3 r (clobber vol c);
          c2 = c1\<lparr>gpr := load_gprs [4, 5, 6, 7, 8, 9] (slot - 24 + 4) s (gpr c1)\<rparr>
      in set_gpr 5 (load s slot) c2)"

text \<open>
  Before a service the registers 4 to 9 are stored from the second of six words on, so the last of them lies in the word
  of the service code; it holds the same code.
\<close>

definition svc_stack :: "svc_layout \<Rightarrow> core \<Rightarrow> kstate \<Rightarrow> kstate" where
  "svc_stack L c s =
     (let code = gpr c 5
      in store_all (gpr c 1 - 24 + 4) [gpr c 4, code, code, 0, svc_entry L code, code] s)"

text \<open>\<open>svc_cycle\<close> to \<open>skip_check\<close>.\<close>

partial_function (option) mpc_svc_cycle ::
  "svc_layout \<Rightarrow> port \<Rightarrow> core \<Rightarrow> core \<times> kstate \<Rightarrow> (core \<times> kstate) option" where
  "mpc_svc_cycle L A vol cs =
     (let c = fst cs; s = snd cs in
      case map_of svc_dispatch (gpr c 5) of
        None \<Rightarrow> Some (c\<lparr>gpr := (gpr c)(3 := gpr c 1), cr := cr vol\<rparr>, s)
      | Some svc_service \<Rightarrow>
          (let s1 = svc_stack L c s;
               args = (\<lambda>k. load s1 (gpr c 4 + 4 * of_nat k)) in
           do {
             (r, code', args', s2) \<leftarrow> svc_service A (gpr c 5) args s1;
             (let s3 = svc_writes (gpr c 4) (gpr c 1) (gpr c 5) code' args args' s2;
                  c1 = svc_return vol r c s3
              in if gpr c1 5 = gpr c1 6 then Some (c1, s3) else mpc_svc_cycle L A vol (c1, s3))
           }))"

text \<open>From \<open>skip_check\<close> on.\<close>

definition svc_epilogue :: "core \<times> kstate \<Rightarrow> core \<times> kstate" where
  "svc_epilogue = (\<lambda>(c, s).
     let r1 = gpr c 1;
         c1 = c\<lparr>lr := load s (r1 + 8)\<rparr>;
         r5 = load s (r1 + 4);
         (sp, c2) = (if r5 = 0 then (r1 + 12, c1) else (task_sp c1, c1\<lparr>kernel_sp := r1 + 12\<rparr>));
         c3 = c2\<lparr>srr0 := load s (sp + 24), srr1 := load s (sp + 28),
                gpr := load_gprs [4, 5, 6, 7, 8, 9] sp s (gpr c2)\<rparr>
     in (rfi (set_gpr 1 (sp + 32) c3), s))"

definition svc_interrupt :: "svc_layout \<Rightarrow> port \<Rightarrow> core \<Rightarrow> core \<times> kstate \<Rightarrow> (core \<times> kstate) option" where
  "svc_interrupt L A vol = (\<lambda>(c, s).
     map_option svc_epilogue (mpc_svc_cycle L A vol (svc_prologue (enter c, s))))"

section \<open>Calls and the switch to user mode (os\_util.S)\<close>

text \<open>\<open>next\<close> is the address of the instruction behind \<open>se_sc\<close>.\<close>

definition cks_before :: "u32 \<Rightarrow> core \<times> kstate \<Rightarrow> core \<times> kstate" where
  "cks_before next = (\<lambda>(c, s).
     let r1 = gpr c 1 - 20
     in (c\<lparr>gpr := (gpr c)(1 := r1, 4 := lr c), pc := next\<rparr>,
         store_all r1 [gpr c 4, gpr c 5, gpr c 6, gpr c 7, lr c] s))"

definition cks_after :: "core \<times> kstate \<Rightarrow> core \<times> kstate" where
  "cks_after = (\<lambda>(c, s).
     let r1 = gpr c 1; r4 = load s (r1 + 16)
     in (c\<lparr>gpr := (gpr c)(1 := r1 + 20, 4 := r4), lr := r4, pc := r4\<rparr>, s))"

definition asm_call_kernel_service ::
  "svc_layout \<Rightarrow> port \<Rightarrow> core \<Rightarrow> u32 \<Rightarrow> core \<times> kstate \<Rightarrow> (core \<times> kstate) option" where
  "asm_call_kernel_service L A vol next cs = map_option cks_after (svc_interrupt L A vol (cks_before next cs))"

definition asm_switch_mcu_mode ::
  "svc_layout \<Rightarrow> port \<Rightarrow> core \<Rightarrow> u32 \<Rightarrow> core \<times> kstate \<Rightarrow> (core \<times> kstate) option" where
  "asm_switch_mcu_mode L A vol next = (\<lambda>(c, s).
     let c1 = c\<lparr>kernel_sp := gpr c 1, msr := msr c OR 0xD000, pc := next,
                gpr := (gpr c)(1 := PSP_Array s 0, 3 := START_SCHEDULER, 4 := 0xD000)\<rparr>
     in svc_interrupt L A vol (c1, s))"

end
