(* ===== verification/MpcAsmProps.thy ===== *)
theory MpcAsmProps
  imports MpcAsm MpcProps
begin

text \<open>
  What the context switch of MPC57x8 keeps of a task: a task that is switched out and in again goes on with its
  registers, and the first frame of a task starts its function.
\<close>

section \<open>The frame of an interrupted task\<close>

lemma words_20: "x \<notin> words p 20 \<longleftrightarrow> (\<forall>d \<in> {0, 4, 8, 0xC, 0x10, 0x14, 0x18, 0x1C, 0x20, 0x24, 0x28, 0x2C, 0x30, 0x34,
    0x38, 0x3C, 0x40, 0x44, 0x48, 0x4C}. x \<noteq> p + d)"
  by (simp add: words_Suc numeral_eq_Suc) (simp add: add.commute)

lemma enter_sel [simp]:
  "gpr (enter c) = gpr c" "cr (enter c) = cr c" "lr (enter c) = lr c" "ctr (enter c) = ctr c" "xer (enter c) = xer c"
  "srr0 (enter c) = pc c" "srr1 (enter c) = msr c" "kernel_sp (enter c) = kernel_sp c"
  by (simp_all add: enter_def)

text \<open>What the frame at \<open>p\<close> keeps of the registers of a task.\<close>

definition saved :: "u32 \<Rightarrow> core \<Rightarrow> kstate \<Rightarrow> bool" where
  "saved p c s \<longleftrightarrow> load s (p + 0x08) = gpr c 3 \<and> load s (p + 0x0C) = pc c \<and> load s (p + 0x10) = msr c \<and>
     map (load s \<circ> (+) p) [0x14, 0x18, 0x1C, 0x20] = [cr c, lr c, ctr c, xer c] \<and>
     map (load s \<circ> (+) p) [0x24, 0x2C, 0x30, 0x34, 0x38, 0x3C, 0x40, 0x44, 0x48, 0x4C] =
       map (gpr c) [0, 4, 5, 6, 7, 8, 9, 10, 11, 12]"

lemma saved_cong: "(\<And>x. x \<in> words p 20 \<Longrightarrow> load s' x = load s x) \<Longrightarrow> saved p c s' = saved p c s"
proof -
  assume h: "\<And>x. x \<in> words p 20 \<Longrightarrow> load s' x = load s x"
  have "load s' (p + d) = load s (p + d)" if "d \<in> {0, 4, 8, 0xC, 0x10, 0x14, 0x18, 0x1C, 0x20, 0x24, 0x28, 0x2C, 0x30, 0x34,
    0x38, 0x3C, 0x40, 0x44, 0x48, 0x4C}" for d
    using that by (intro h) (use words_20 [of "p + d" p] in blast)
  then show ?thesis by (simp add: saved_def)
qed

lemma prologue_other: "x \<notin> words (gpr c 1 - 0x50) 20 \<Longrightarrow> load (snd (IVOR4_prologue (c, s))) x = load s x"
  unfolding words_20 by (simp add: IVOR4_prologue_def Let_def volatile_def add.assoc)

lemma prologue_saves:
  "saved (gpr c 1 - 0x50) c (snd (IVOR4_prologue (enter c, s)))" "gpr (fst (IVOR4_prologue (c, s))) 1 = gpr c 1 - 0x50"
  "PSP_Array (snd (IVOR4_prologue (c, s))) = PSP_Array s" "next_task (snd (IVOR4_prologue (c, s))) = next_task s"
  "current_task (snd (IVOR4_prologue (c, s))) = current_task s" "13 \<le> r \<Longrightarrow> gpr (fst (IVOR4_prologue (c, s))) r = gpr c r"
  by (simp_all add: saved_def IVOR4_prologue_def Let_def volatile_def add.assoc)

lemma epilogue_regs:
  assumes p: "gpr c 1 = p" and eoi: "EOIR0 \<notin> words p 20" and e: "IVOR4_epilogue (c, s) = (c', s')"
  shows "pc c' = load s (p + 0x0C)" "msr c' = load s (p + 0x10)" "cr c' = load s (p + 0x14)" "lr c' = load s (p + 0x18)"
    "ctr c' = load s (p + 0x1C)" "xer c' = load s (p + 0x20)" "gpr c' 1 = p + 0x50" "gpr c' 3 = load s (p + 0x08)"
    "map (gpr c') [0, 4, 5, 6, 7, 8, 9, 10, 11, 12] =
       map (load s \<circ> (+) p) [0x24, 0x2C, 0x30, 0x34, 0x38, 0x3C, 0x40, 0x44, 0x48, 0x4C]"
    "\<And>r. 13 \<le> r \<Longrightarrow> gpr c' r = gpr c r" "s' = on_mcu (hwreg_store EOIR0 0xFC040000) s"
proof -
  let ?s = "on_mcu (hwreg_store EOIR0 0xFC040000) s"
  have "load ?s x = load s x" if "x \<noteq> EOIR0" for x
    using that by (simp add: load_def on_mcu_def hwreg_store_def)
  then have l: "load ?s (p + 0x08) = load s (p + 0x08)" "load ?s (p + 0x0C) = load s (p + 0x0C)"
    "load ?s (p + 0x10) = load s (p + 0x10)"
    using eoi unfolding words_20 by (metis insertCI)+
  show "pc c' = load s (p + 0x0C)" "msr c' = load s (p + 0x10)" "cr c' = load s (p + 0x14)" "lr c' = load s (p + 0x18)"
    "ctr c' = load s (p + 0x1C)" "xer c' = load s (p + 0x20)" "gpr c' 1 = p + 0x50" "gpr c' 3 = load s (p + 0x08)"
    "map (gpr c') [0, 4, 5, 6, 7, 8, 9, 10, 11, 12] =
       map (load s \<circ> (+) p) [0x24, 0x2C, 0x30, 0x34, 0x38, 0x3C, 0x40, 0x44, 0x48, 0x4C]"
    "\<And>r. 13 \<le> r \<Longrightarrow> gpr c' r = gpr c r" "s' = ?s"
    using e l unfolding IVOR4_epilogue_def
    by (auto simp: p Let_def volatile_def load_gprs_def set_gpr_def rfi_def add.assoc simp del: One_nat_def)
qed

section \<open>Switching tasks\<close>

abbreviation (input) INTC_EOIR_SSCIR :: "u32 set" where "INTC_EOIR_SSCIR \<equiv> {0xFC040030, 0xFC040040}"

lemma load_hwreg: "load (on_mcu (hwreg_store a v) s) x = (if x = a then v else load s x)"
  by (simp add: load_def on_mcu_def hwreg_store_def)

lemma on_mcu_kvars [simp]:
  "PSP_Array (on_mcu g s) = PSP_Array s" "next_task (on_mcu g s) = next_task s" "current_task (on_mcu g s) = current_task s"
  by (simp_all add: on_mcu_def)

lemma handler_steps:
  "context_switch_handler (c, s) =
    (fst (context_switch_handler (c, s)), clear_sw_int (context_switch (gpr c 1) s))"
  "gpr (fst (context_switch_handler (c, s))) 1 =
    ((PSP_Array s)(unat (current_task s) := gpr c 1)) (unat (next_task s))"
  "13 \<le> r \<Longrightarrow> gpr (fst (context_switch_handler (c, s))) r = gpr c r"
  "PSP_Array (clear_sw_int (context_switch q s)) = (PSP_Array s)(unat (current_task s) := q)"
  "current_task (clear_sw_int (context_switch q s)) = next_task s"
  "x \<noteq> 0xFC040040 \<Longrightarrow> load (clear_sw_int (context_switch q s)) x = load s x"
  by (simp_all add: context_switch_handler_def clear_sw_int_def context_switch_def Let_def load_def on_mcu_def
    hwreg_store_def)

text \<open>
  One switch: the frame of the interrupted task is below its stack pointer, and the registers come from the
  frame of the next one.
\<close>

lemma switch_steps:
  assumes sw: "switch_interrupt (c, s) = (c', s')"
  obtains c1 s1 where "s1 = snd (IVOR4_prologue (enter c, s))" "gpr c1 1 =
      ((PSP_Array s)(unat (current_task s) := gpr c 1 - 0x50)) (unat (next_task s))"
    "\<And>r. 13 \<le> r \<Longrightarrow> gpr c1 r = gpr c r"
    "IVOR4_epilogue (c1, clear_sw_int (context_switch (gpr c 1 - 0x50) s1)) = (c', s')"
proof -
  let ?cs = "IVOR4_prologue (enter c, s)"
  have "context_switch_handler ?cs =
      (fst (context_switch_handler ?cs), clear_sw_int (context_switch (gpr c 1 - 0x50) (snd ?cs)))"
    using handler_steps(1) [of "fst ?cs" "snd ?cs"] prologue_saves(2) [of "enter c" s] by simp
  then have "IVOR4_epilogue (fst (context_switch_handler ?cs), clear_sw_int (context_switch (gpr c 1 - 0x50) (snd ?cs))) = (c', s')"
    using sw unfolding switch_interrupt_def by simp
  moreover have "gpr (fst (context_switch_handler ?cs)) 1 =
      ((PSP_Array s)(unat (current_task s) := gpr c 1 - 0x50)) (unat (next_task s))"
    using handler_steps(2) [of "fst ?cs" "snd ?cs"] prologue_saves(2-5) [of "enter c" s] by simp
  moreover have "gpr (fst (context_switch_handler ?cs)) r = gpr c r" if "13 \<le> r" for r
    using handler_steps(3) [OF that, of "fst ?cs" "snd ?cs"] prologue_saves(6) [OF that, of "enter c" s] by simp
  ultimately show thesis using that by blast
qed

lemma switch_out:
  assumes sw: "switch_interrupt (c, s) = (c', s')" and dev: "words (gpr c 1 - 0x50) 20 \<inter> INTC_EOIR_SSCIR = {}"
  shows "saved (gpr c 1 - 0x50) c s'" "PSP_Array s' = (PSP_Array s)(unat (current_task s) := gpr c 1 - 0x50)"
    "current_task s' = next_task s"
proof -
  let ?p = "gpr c 1 - 0x50"
  obtain c1 s1 where s1: "s1 = snd (IVOR4_prologue (enter c, s))"
    and e: "IVOR4_epilogue (c1, clear_sw_int (context_switch ?p s1)) = (c', s')"
    using switch_steps [OF sw] by blast
  have s': "s' = on_mcu (hwreg_store EOIR0 0xFC040000) (clear_sw_int (context_switch ?p s1))"
    using e by (simp add: IVOR4_epilogue_def Let_def)
  have "load s' x = load s1 x" if "x \<in> words ?p 20" for x
  proof -
    have "x \<noteq> 0xFC040030" "x \<noteq> 0xFC040040" using that dev by auto
    then show ?thesis by (simp add: s' load_hwreg handler_steps(6))
  qed
  then have "saved ?p c s' = saved ?p c s1" by (rule saved_cong)
  then show "saved ?p c s'" using prologue_saves(1) by (simp add: s1)
  show "PSP_Array s' = (PSP_Array s)(unat (current_task s) := ?p)" "current_task s' = next_task s"
    using prologue_saves(3-5) [of "enter c" s] by (simp_all add: s' handler_steps(4,5) s1)
qed

lemma switch_in:
  assumes sw: "switch_interrupt (c, s) = (c', s')" and dev: "words f 20 \<inter> INTC_EOIR_SSCIR = {}"
    and f: "PSP_Array s (unat (next_task s)) = f" and ne: "next_task s \<noteq> current_task s"
    and dis: "words f 20 \<inter> words (gpr c 1 - 0x50) 20 = {}"
  obtains c1 s1 where "gpr c1 1 = f" "EOIR0 \<notin> words f 20" "IVOR4_epilogue (c1, s1) = (c', s')"
    "\<And>x. x \<in> words f 20 \<Longrightarrow> load s1 x = load s x" "\<And>r. 13 \<le> r \<Longrightarrow> gpr c1 r = gpr c r"
proof (rule switch_steps [OF sw])
  fix c1 s1
  assume h: "s1 = snd (IVOR4_prologue (enter c, s))"
    "gpr c1 1 = ((PSP_Array s)(unat (current_task s) := gpr c 1 - 0x50)) (unat (next_task s))"
    "\<And>r. 13 \<le> r \<Longrightarrow> gpr c1 r = gpr c r"
    "IVOR4_epilogue (c1, clear_sw_int (context_switch (gpr c 1 - 0x50) s1)) = (c', s')"
  have "load (clear_sw_int (context_switch (gpr c 1 - 0x50) s1)) x = load s x" if x: "x \<in> words f 20" for x
  proof -
    have "x \<notin> words (gpr (enter c) 1 - 0x50) 20" "x \<noteq> 0xFC040040" using x dis dev by auto
    then show ?thesis using prologue_other [of x "enter c" s] by (simp add: handler_steps(6) h(1))
  qed
  moreover have "gpr c1 1 = f" using h(2) f ne by (simp add: word_unat_eq_iff)
  moreover have "EOIR0 \<notin> words f 20" using dev by simp
  ultimately show thesis using that h(3,4) by blast
qed

lemma switch_in_regs:
  assumes "switch_interrupt (c, s) = (c', s')" and "words f 20 \<inter> INTC_EOIR_SSCIR = {}"
    and "PSP_Array s (unat (next_task s)) = f" and "next_task s \<noteq> current_task s"
    and "words f 20 \<inter> words (gpr c 1 - 0x50) 20 = {}"
  shows "pc c' = load s (f + 0x0C)" "msr c' = load s (f + 0x10)" "cr c' = load s (f + 0x14)" "lr c' = load s (f + 0x18)"
    "ctr c' = load s (f + 0x1C)" "xer c' = load s (f + 0x20)" "gpr c' 1 = f + 0x50" "gpr c' 3 = load s (f + 0x08)"
    "map (gpr c') [0, 4, 5, 6, 7, 8, 9, 10, 11, 12] =
       map (load s \<circ> (+) f) [0x24, 0x2C, 0x30, 0x34, 0x38, 0x3C, 0x40, 0x44, 0x48, 0x4C]"
    "\<And>r. 13 \<le> r \<Longrightarrow> gpr c' r = gpr c r"
proof -
  obtain c1 s1 where h: "gpr c1 1 = f" "EOIR0 \<notin> words f 20" "IVOR4_epilogue (c1, s1) = (c', s')"
    "\<And>x. x \<in> words f 20 \<Longrightarrow> load s1 x = load s x" "\<And>r. 13 \<le> r \<Longrightarrow> gpr c1 r = gpr c r"
    by (rule switch_in [OF assms]) (rule that)
  have w: "f + d \<in> words f 20" if "d \<in> {0, 4, 8, 0xC, 0x10, 0x14, 0x18, 0x1C, 0x20, 0x24, 0x28, 0x2C, 0x30, 0x34,
    0x38, 0x3C, 0x40, 0x44, 0x48, 0x4C}" for d
    using words_20 [of "f + d" f] that by blast
  note l = h(4) [OF w] and e = epilogue_regs [OF h(1-3)]
  show "pc c' = load s (f + 0x0C)" "msr c' = load s (f + 0x10)" "cr c' = load s (f + 0x14)" "lr c' = load s (f + 0x18)"
    "ctr c' = load s (f + 0x1C)" "xer c' = load s (f + 0x20)" "gpr c' 1 = f + 0x50" "gpr c' 3 = load s (f + 0x08)"
    using e(1-8) l by simp_all
  show "map (gpr c') [0, 4, 5, 6, 7, 8, 9, 10, 11, 12] =
       map (load s \<circ> (+) f) [0x24, 0x2C, 0x30, 0x34, 0x38, 0x3C, 0x40, 0x44, 0x48, 0x4C]"
    using e(9) l by simp
  show "\<And>r. 13 \<le> r \<Longrightarrow> gpr c' r = gpr c r" using e(10) h(5) by simp
qed

text \<open>
  C23. A task on MPC57x8 that is switched out and, any time later, in again goes on where it was interrupted, in
  the same mode and with the same condition, link, count and general registers 0, 1 and 3 to 12, if nothing wrote
  to its stack frame and its stack pointer in between. The registers 13 to 31 are those of the task that ran before it.
\<close>

theorem mpc_task_resumes:
  assumes out: "switch_interrupt (c, s) = (c1, s1)" and p: "p = gpr c 1 - 0x50"
    and dev: "words p 20 \<inter> INTC_EOIR_SSCIR = {}"
    and keep: "PSP_Array s2 (unat (current_task s)) = PSP_Array s1 (unat (current_task s))"
      "\<forall>x \<in> words p 20. load s2 x = load s1 x"
    and again: "switch_interrupt (c2, s2) = (c3, s3)" "next_task s2 = current_task s" "current_task s2 \<noteq> current_task s"
    and dis: "words p 20 \<inter> words (gpr c2 1 - 0x50) 20 = {}"
  shows "pc c3 = pc c \<and> msr c3 = msr c \<and> cr c3 = cr c \<and> lr c3 = lr c \<and> ctr c3 = ctr c \<and> xer c3 = xer c \<and>
    (\<forall>r. r \<le> 12 \<and> r \<noteq> 2 \<longrightarrow> gpr c3 r = gpr c r) \<and> (\<forall>r. 13 \<le> r \<longrightarrow> gpr c3 r = gpr c2 r) \<and>
    current_task s3 = current_task s"
proof -
  note o = switch_out [OF out dev [unfolded p]]
  have f: "PSP_Array s2 (unat (next_task s2)) = p" using keep(1) again(2) o(2) p by simp
  have "saved p c s2 = saved p c s1" using keep(2) by (intro saved_cong) simp
  then have sv: "saved p c s2" using o(1) p by simp
  have ne: "next_task s2 \<noteq> current_task s2" using again(2,3) by simp
  note i = switch_in_regs [OF again(1) dev f ne dis]
  have m: "map (gpr c3) [0, 4, 5, 6, 7, 8, 9, 10, 11, 12] = map (gpr c) [0, 4, 5, 6, 7, 8, 9, 10, 11, 12]"
    using i(9) sv by (simp add: saved_def)
  have g: "gpr c3 r = gpr c r" if r: "r \<le> 12" "r \<noteq> 2" for r
  proof -
    have "r = 1 \<or> r = 3 \<or> r \<in> {0, 4, 5, 6, 7, 8, 9, 10, 11, 12}"
      using r by (auto simp: le_Suc_eq numeral_eq_Suc)
    then consider "r \<in> {0, 4, 5, 6, 7, 8, 9, 10, 11, 12}" | "r = 1" | "r = 3" by blast
    then show ?thesis
    proof cases
      case 1 then show ?thesis using m by auto
    next
      case 2 then show ?thesis using i(7) p by simp
    next
      case 3 then show ?thesis using i(8) sv by (simp add: saved_def)
    qed
  qed
  have "current_task s3 = next_task s2"
  proof (rule switch_steps [OF again(1)])
    fix c4 s4
    assume e: "IVOR4_epilogue (c4, clear_sw_int (context_switch (gpr c2 1 - 0x50) s4)) = (c3, s3)"
      "s4 = snd (IVOR4_prologue (enter c2, s2))"
    show ?thesis using e(1) prologue_saves(4) [of "enter c2" s2] handler_steps(5) [of _ s4]
      by (auto simp: IVOR4_epilogue_def Let_def e(2))
  qed
  then show ?thesis using i(1-6,10) sv g again(2) by (simp add: saved_def)
qed

definition demo_core :: core where
  "demo_core = \<lparr>gpr = (\<lambda>r. of_nat r)(1 := 0x20002000, 3 := GRANT_PERMISSION), cr = 1, lr = 0x01000200, ctr = 2, xer = 3, srr0 = 0, srr1 = 0,
     msr = 0xD000, pc = 0x01000100, kernel_sp = 0x20008000, task_sp = 0\<rparr>"

theorem mpc_task_resumes_witness:
  "\<exists>c3 s3. switch_interrupt (set_gpr 1 0x20003000 demo_core,
      (snd (switch_interrupt (demo_core, demo_state\<lparr>next_task := 2, current_task := 1\<rparr>)))\<lparr>next_task := 1\<rparr>) = (c3, s3) \<and>
    pc c3 = 0x01000100 \<and> gpr c3 12 = 12"
proof -
  let ?s = "demo_state\<lparr>next_task := 2, current_task := 1\<rparr>" and ?c2 = "set_gpr 1 0x20003000 demo_core"
  obtain c1 s1 where o: "switch_interrupt (demo_core, ?s) = (c1, s1)" by (cases "switch_interrupt (demo_core, ?s)")
  obtain c3 s3 where i: "switch_interrupt (?c2, s1\<lparr>next_task := 1\<rparr>) = (c3, s3)"
    by (cases "switch_interrupt (?c2, s1\<lparr>next_task := 1\<rparr>)")
  have d: "words (gpr demo_core 1 - 0x50) 20 \<inter> INTC_EOIR_SSCIR = {}"
    "words (gpr demo_core 1 - 0x50) 20 \<inter> words (gpr ?c2 1 - 0x50) 20 = {}"
    by (rule words_below [where b = "0xFC040000"] words_disjoint; auto simp: demo_core_def set_gpr_def)+
  have "pc c3 = pc demo_core \<and> (\<forall>r. r \<le> 12 \<and> r \<noteq> 2 \<longrightarrow> gpr c3 r = gpr demo_core r)"
    using mpc_task_resumes [OF o refl d(1) _ _ i _ _ d(2)] switch_out(3) [OF o d(1)] by (auto simp: load_def)
  then show ?thesis using o i by (auto simp: demo_core_def)
qed

text \<open>
  C16. The first activation of a task on MPC57x8: with the frame of \<open>arch_task_stack_init\<close> the
  interrupt returns to the task's function in user mode, with \<open>resolve_end\<close> as its return address and a stack pointer inside
  its stack. Register 3, the argument of the function, comes from a word the routine does not write.
\<close>

theorem mpc_first_start:
  assumes init: "s1 = mpc_task_stack_init P i f a s" and p: "p = PSP_Array s1 i" and dev: "words p 20 \<inter> INTC_EOIR_SSCIR = {}"
    and stk: "23 < TASK_STACK_SIZE P" "unat (PSP_Array s i) + 4 * TASK_STACK_SIZE P \<le> 2 ^ 32"
    and keep: "PSP_Array s2 i = p" "\<forall>x \<in> words p 20. load s2 x = load s1 x"
    and sw: "switch_interrupt (c, s2) = (c', s')" "unat (next_task s2) = i" "current_task s2 \<noteq> next_task s2"
    and dis: "words p 20 \<inter> words (gpr c 1 - 0x50) 20 = {}"
  shows "pc c' = f \<and> msr c' = 0xD000 \<and> lr c' = resolve_end_addr P \<and> unat (gpr c' 1) + 12 = unat (PSP_Array s i) + 4 * TASK_STACK_SIZE P \<and>
    gpr c' 3 = load s (p + 8)"
proof -
  have pe: "p = PSP_Array s i + of_nat (TASK_STACK_SIZE P - 1) * 4 - 22 * 4"
    by (simp add: p init mpc_task_stack_init_def on_mcu_def Let_def)
  have mem: "load s1 x = (if x = p + 4 * 10 then a else if x = p + 4 * 6 then resolve_end_addr P
      else if x = p + 4 * 4 then 0xD000 else if x = p + 4 * 3 then f else load s x)" for x
    unfolding pe by (simp add: init mpc_task_stack_init_def load_def on_mcu_def mem_stores Let_def)
  have w: "p + d \<in> words p 20" if "d \<in> {8, 0xC, 0x10, 0x18}" for d
    using words_20 [of "p + d" p] that by blast
  have l: "load s2 (p + 8) = load s (p + 8)" "load s2 (p + 0xC) = f" "load s2 (p + 0x10) = 0xD000"
    "load s2 (p + 0x18) = resolve_end_addr P"
    using keep(2) w by (simp_all add: mem)
  have ne: "next_task s2 \<noteq> current_task s2" using sw(3) by simp
  note r = switch_in_regs [OF sw(1) dev _ ne dis, unfolded sw(2), OF keep(1)]
  let ?n = "TASK_STACK_SIZE P"
  have "p + 0x50 = PSP_Array s i + of_nat (4 * (?n - 3))"
    using stk(1) by (simp add: pe of_nat_diff algebra_simps)
  moreover have "unat (PSP_Array s i + of_nat (4 * (?n - 3))) = unat (PSP_Array s i) + 4 * (?n - 3)"
  proof -
    have "unat (of_nat (4 * (?n - 3)) :: u32) = 4 * (?n - 3)" using stk by (intro unat_of_nat_u32) simp
    then show ?thesis using stk by (simp add: unat_word_ariths del: of_nat_mult)
  qed
  ultimately have "unat (p + 0x50) = unat (PSP_Array s i) + 4 * (?n - 3)" by (simp only:)
  then have "unat (p + 0x50) + 12 = unat (PSP_Array s i) + 4 * ?n" using stk(1) by simp
  then show ?thesis using r(1,2,4,7,8) l by simp
qed

theorem mpc_first_start_witness:
  "\<exists>c' s'. switch_interrupt (demo_core, (mpc_task_stack_init demo_params 2 0x4001 9
      (demo_state\<lparr>PSP_Array := \<lambda>_. 0x20001000\<rparr>))\<lparr>next_task := 2, current_task := 1\<rparr>) = (c', s') \<and> pc c' = 0x4001 \<and> msr c' = 0xD000"
proof -
  let ?s1 = "mpc_task_stack_init demo_params 2 0x4001 9 (demo_state\<lparr>PSP_Array := \<lambda>_. 0x20001000\<rparr>)"
  obtain c' s' where i: "switch_interrupt (demo_core, ?s1\<lparr>next_task := 2, current_task := 1\<rparr>) = (c', s')"
    by (cases "switch_interrupt (demo_core, ?s1\<lparr>next_task := 2, current_task := 1\<rparr>)")
  have p: "PSP_Array ?s1 2 = 0x200011A4" by (simp add: mpc_task_stack_init_def Let_def demo_params_def)
  have d: "words (PSP_Array ?s1 2) 20 \<inter> INTC_EOIR_SSCIR = {}" "words (PSP_Array ?s1 2) 20 \<inter> words (gpr demo_core 1 - 0x50) 20 = {}"
    unfolding p by (rule words_below [where b = "0xFC040000"] words_disjoint; auto simp: demo_core_def)+
  have "pc c' = 0x4001 \<and> msr c' = 0xD000"
    using mpc_first_start [OF refl refl d(1) _ _ _ _ i _ _ d(2)] by (auto simp: demo_params_def load_def)
  then show ?thesis using i by auto
qed

end
