(* ===== verification/SvcCalls.thy ===== *)
theory SvcCalls
  imports SvcMacros OssimPort MpcPort
begin

text \<open>
  The supervisor calls of the MPC57x8 port and of the simulator, one definition per macro of
  \<^verbatim>\<open>src/arch/mpc57x8/svc_macros.h\<close> and \<^verbatim>\<open>src/arch/ossim/svc_macros.h\<close>, and how they compare to those
  of the ARM port.

  \<open>cks\<close> is \<^verbatim>\<open>call_kernel_service\<close>, from the service code and four arguments. A macro that is used as a
  statement yields the state only, one that assigns to \<open>error\<close> the assigned value as well.
  The parameter of \<open>SVC_INT_ENABLE\<close> is spelled \<open>interrrupt\<close> and not used: the text of the macro takes the
  variable \<open>interrupt\<close> of the function in which it stands. \<open>SVC_DISABLE_UMPU\<close> is left out: it names a service
  code \<^verbatim>\<open>DISABLE_UMPC\<close> that no header defines.
\<close>

type_synonym kernel_call = "u32 \<Rightarrow> u32 \<Rightarrow> u32 \<Rightarrow> u32 \<Rightarrow> u32 \<Rightarrow> kstate \<Rightarrow> (u32 \<times> kstate) option"

text \<open>
  \<^verbatim>\<open>call_kernel_service\<close> of \<^verbatim>\<open>os_util.S\<close> on MPC57x8, seen by its caller: the four arguments are stored one after
  the other, and \<open>se_sc\<close> passes their address; \<open>block\<close> is the memory behind them.
\<close>

definition args4 :: "svc_args \<Rightarrow> u32 \<Rightarrow> u32 \<Rightarrow> u32 \<Rightarrow> u32 \<Rightarrow> svc_args" where
  "args4 block a b c d = block(0 := a, 1 := b, 2 := c, 3 := d)"

lemma args4_upd [simp]:
  "(args4 r a b c d)(0 := x) = args4 r x b c d" "(args4 r a b c d)(Suc 0 := x) = args4 r a x c d"
  "(args4 r a b c d)(2 := x) = args4 r a b x d" "(args4 r a b c d)(3 := x) = args4 r a b c x"
  by (simp_all add: args4_def fun_eq_iff)


section \<open>MPC57x8 (svc_macros.h)\<close>



















section \<open>The simulator (svc_macros.h)\<close>

definition ossim_SVC_CREATE_TASK_NO_ARG :: "kernel_call \<Rightarrow> u32 \<Rightarrow> kstate \<Rightarrow> kstate option" where
  "ossim_SVC_CREATE_TASK_NO_ARG cks obj s = map_option snd (cks CREATE_TASK obj 0 0 0 s)"

definition ossim_SVC_CREATE_TASK_WITH_ARG :: "kernel_call \<Rightarrow> u32 \<Rightarrow> u32 \<Rightarrow> kstate \<Rightarrow> kstate option" where
  "ossim_SVC_CREATE_TASK_WITH_ARG cks obj proc_arg s = map_option snd (cks CREATE_TASK obj proc_arg 0 0 s)"

definition ossim_SVC_KILL_TASK_DIRECT :: "kernel_call \<Rightarrow> u32 \<Rightarrow> kstate \<Rightarrow> kstate option" where
  "ossim_SVC_KILL_TASK_DIRECT cks pid s = map_option snd (cks KILL_TASK pid 0 0 0 s)"

definition ossim_SVC_KILL_TASK_RESOLVE_END :: "kernel_call \<Rightarrow> u32 \<Rightarrow> kstate \<Rightarrow> kstate option" where
  "ossim_SVC_KILL_TASK_RESOLVE_END cks pid s = map_option snd (cks KILL_TASK pid 1 0 0 s)"

definition ossim_SVC_HIBERNATE :: "kernel_call \<Rightarrow> u32 \<Rightarrow> u32 \<Rightarrow> u32 \<Rightarrow> u32 \<Rightarrow> kstate \<Rightarrow> kstate option" where
  "ossim_SVC_HIBERNATE cks merged a b v s = map_option snd (cks HIBERNATE merged a b v s)"

definition ossim_SVC_PRIORITY_PROMOTE :: "kernel_call \<Rightarrow> u32 \<Rightarrow> kstate \<Rightarrow> kstate option" where
  "ossim_SVC_PRIORITY_PROMOTE cks mutex s = map_option snd (cks PRIORITY_PROMOTE mutex 0 0 0 s)"

definition ossim_SVC_INT_ENABLE :: "kernel_call \<Rightarrow> u32 \<Rightarrow> u32 \<Rightarrow> kstate \<Rightarrow> (u32 \<times> kstate) option" where
  "ossim_SVC_INT_ENABLE cks interrrupt interrupt s = cks INT_ENABLE interrupt 0 0 0 s"

definition ossim_SVC_INT_DISABLE :: "kernel_call \<Rightarrow> u32 \<Rightarrow> kstate \<Rightarrow> (u32 \<times> kstate) option" where
  "ossim_SVC_INT_DISABLE cks interrupt s = cks INT_DISABLE interrupt 0 0 0 s"

definition ossim_SVC_INT_REGISTER :: "kernel_call \<Rightarrow> u32 \<Rightarrow> u32 \<Rightarrow> kstate \<Rightarrow> (u32 \<times> kstate) option" where
  "ossim_SVC_INT_REGISTER cks interrupt handler s = cks INT_REGISTER interrupt handler 0 0 s"

definition ossim_SVC_SET_PRIORITY :: "kernel_call \<Rightarrow> u32 \<Rightarrow> u32 \<Rightarrow> kstate \<Rightarrow> (u32 \<times> kstate) option" where
  "ossim_SVC_SET_PRIORITY cks interrupt priority s = cks SET_PRIORITY interrupt priority 0 0 s"

definition ossim_SVC_INVOKE_BASE :: "kernel_call \<Rightarrow> u32 \<Rightarrow> kstate \<Rightarrow> (u32 \<times> kstate) option" where
  "ossim_SVC_INVOKE_BASE cks argument s = cks INVOKE_BASE argument 0 0 0 s"

definition ossim_SVC_RELEASE_BASE :: "kernel_call \<Rightarrow> u32 \<Rightarrow> kstate \<Rightarrow> (u32 \<times> kstate) option" where
  "ossim_SVC_RELEASE_BASE cks error s = cks RELEASE_BASE error 0 0 0 s"

definition ossim_SVC_GRANT_PERMISSION :: "kernel_call \<Rightarrow> u32 \<Rightarrow> u32 \<Rightarrow> kstate \<Rightarrow> (u32 \<times> kstate) option" where
  "ossim_SVC_GRANT_PERMISSION cks pid permission s = cks GRANT_PERMISSION pid permission 0 0 s"

definition ossim_SVC_CPU_FREQ_UPDATE :: "kernel_call \<Rightarrow> u32 \<Rightarrow> kstate \<Rightarrow> (u32 \<times> kstate) option" where
  "ossim_SVC_CPU_FREQ_UPDATE cks frequency s = cks CPU_FREQ frequency 0 0 0 s"

definition ossim_SVC_ENABLE_UMPU :: "kernel_call \<Rightarrow> u32 \<Rightarrow> u32 \<Rightarrow> kstate \<Rightarrow> (u32 \<times> kstate) option" where
  "ossim_SVC_ENABLE_UMPU cks pid permission s = cks ENABLE_UMPU pid permission 0 0 s"

definition ossim_SVC_HWREG_WRITE :: "kernel_call \<Rightarrow> u32 \<Rightarrow> u32 \<Rightarrow> kstate \<Rightarrow> (u32 \<times> kstate) option" where
  "ossim_SVC_HWREG_WRITE cks register_address v s = cks HWREG_WRITE register_address v 0 0 s"

definition ossim_SVC_HWREG_READ :: "kernel_call \<Rightarrow> u32 \<Rightarrow> u32 \<Rightarrow> kstate \<Rightarrow> (u32 \<times> kstate) option" where
  "ossim_SVC_HWREG_READ cks register_address v s = cks HWREG_READ register_address v 0 0 s"

lemmas ossim_macro_defs = ossim_SVC_CREATE_TASK_NO_ARG_def
  ossim_SVC_CREATE_TASK_WITH_ARG_def
  ossim_SVC_KILL_TASK_DIRECT_def
  ossim_SVC_KILL_TASK_RESOLVE_END_def
  ossim_SVC_HIBERNATE_def
  ossim_SVC_PRIORITY_PROMOTE_def
  ossim_SVC_INT_ENABLE_def
  ossim_SVC_INT_DISABLE_def
  ossim_SVC_INT_REGISTER_def
  ossim_SVC_SET_PRIORITY_def
  ossim_SVC_INVOKE_BASE_def
  ossim_SVC_RELEASE_BASE_def
  ossim_SVC_GRANT_PERMISSION_def
  ossim_SVC_CPU_FREQ_UPDATE_def
  ossim_SVC_ENABLE_UMPU_def
  ossim_SVC_HWREG_WRITE_def
  ossim_SVC_HWREG_READ_def

section \<open>Agreement with the ARM port\<close>












section \<open>The simulator loses the results\<close>

text \<open>\<open>call_kernel_service\<close> returns its own variable \<open>error\<close>, which is never assigned, instead of the exit code.\<close>

lemma ossim_call_result:
  "ossim_call_kernel_service A garbage block wait_result svc_code a b c d s = Some (r, s') \<Longrightarrow> r = ERROR_NONE"
  by (auto simp: ossim_call_kernel_service_def Let_def bind_eq_Some_conv split: if_splits)

end
