(* ===== verification/MpcCalls.thy ===== *)
theory MpcCalls
  imports MpcAsmProps SvcCalls
begin

text \<open>
  Supervisor calls on MPC57x8: the handler in assembly returns to its caller with the result of the service.
\<close>

section \<open>Supervisor calls\<close>

text \<open>A service keeps the registers it has to keep, and the handler its stack pointer.\<close>

lemma svc_return_keeps [simp]:
  "r \<notin> set [0, 3, 4, 5, 6, 7, 8, 9, 10, 11, 12] \<Longrightarrow> gpr (svc_return vol v c s) r = gpr c r"
  "task_sp (svc_return vol v c s) = task_sp c" "kernel_sp (svc_return vol v c s) = kernel_sp c"
  by (simp_all add: svc_return_def set_gpr_def clobber_def volatile_def load_gprs_def Let_def)

lemma cycle_keeps:
  assumes "mpc_svc_cycle L A vol (c, s) = Some (c', s')"
  shows "gpr c' 1 = gpr c 1 \<and> gpr c' 2 = gpr c 2 \<and> (\<forall>r. 13 \<le> r \<longrightarrow> gpr c' r = gpr c r) \<and> task_sp c' = task_sp c \<and> kernel_sp c' = kernel_sp c"
proof -
  have "gpr (fst r) 1 = gpr (fst cs) 1 \<and> gpr (fst r) 2 = gpr (fst cs) 2 \<and> (\<forall>k. 13 \<le> k \<longrightarrow> gpr (fst r) k = gpr (fst cs) k) \<and>
      task_sp (fst r) = task_sp (fst cs) \<and> kernel_sp (fst r) = kernel_sp (fst cs)"
    if "mpc_svc_cycle L A vol cs = Some r" for cs r
    using that
  proof (rule mpc_svc_cycle.raw_induct [where P = "\<lambda>L A vol cs (r :: core \<times> kstate). gpr (fst r) 1 = gpr (fst cs) 1 \<and>
      gpr (fst r) 2 = gpr (fst cs) 2 \<and> (\<forall>k. 13 \<le> k \<longrightarrow> gpr (fst r) k = gpr (fst cs) k) \<and>
      task_sp (fst r) = task_sp (fst cs) \<and> kernel_sp (fst r) = kernel_sp (fst cs)", rotated], goal_cases)
    case (1 cyc L A vol cs r)
    have ih: "gpr (fst r) 1 = gpr (fst cs') 1 \<and> gpr (fst r) 2 = gpr (fst cs') 2 \<and>
        (\<forall>k. 13 \<le> k \<longrightarrow> gpr (fst r) k = gpr (fst cs') k) \<and> task_sp (fst r) = task_sp (fst cs') \<and>
        kernel_sp (fst r) = kernel_sp (fst cs')" if "cyc L A vol cs' = Some r" for cs'
      using 1(1) that by blast
    show ?case
    proof (cases "map_of svc_dispatch (gpr (fst cs) 5)")
      case None
      then show ?thesis using 1(2) by (auto simp: Let_def)
    next
      case (Some svc)
      then obtain v s3 where "(let c1 = svc_return vol v (fst cs) s3
          in if gpr c1 5 = gpr c1 6 then Some (c1, s3) else cyc L A vol (c1, s3)) = Some r"
        using 1(2) by (auto simp: Let_def bind_eq_Some_conv)
      then show ?thesis using ih by (fastforce simp: Let_def split: if_splits)
    qed
  qed
  from this [OF assms] show ?thesis by simp
qed

text \<open>The words the handler keeps: the frame at \<open>p\<close>, and the two words above the code at \<open>q\<close>.\<close>

lemma svc_frames:
  assumes q: "q = (if msr c AND 0x4000 = 0 then p else kernel_sp c) - 12" and p: "p = gpr c 1 - 32"
    and dis: "words p 8 \<inter> words q 3 = {}" and pro: "svc_prologue (enter c, s) = (c1, s1)"
  shows "map (load s1 \<circ> (+) p) [0, 4, 8, 12, 16, 20, 24, 28] = map (gpr c) [4, 5, 6, 7, 8, 9] @ [pc c, msr c]"
    "map (load s1 \<circ> (+) q) [0, 4, 8] = [gpr c 3, msr c AND 0x4000, lr c]"
    "gpr c1 1 = q" "gpr c1 4 = p + 32" "gpr c1 5 = gpr c 3" "gpr c1 2 = gpr c 2" "\<And>r. 13 \<le> r \<Longrightarrow> gpr c1 r = gpr c r"
    "kernel_sp c1 = kernel_sp c" "msr c AND 0x4000 \<noteq> 0 \<Longrightarrow> task_sp c1 = p"
    "\<And>x. x \<notin> words p 8 \<Longrightarrow> x \<notin> words q 3 \<Longrightarrow> load s1 x = load s x"
proof -
  have pro': "s1 = store_all q [gpr c 3, msr c AND 0x4000, lr c] (store_all p (map (gpr c) [4, 5, 6, 7, 8, 9] @ [pc c, msr c]) s)"
    "c1 = (if msr c AND 0x4000 = 0 then enter c else (enter c)\<lparr>task_sp := p\<rparr>)\<lparr>gpr := (gpr c)(1 := q, 4 := p + 32, 5 := gpr c 3, 7 := lr c)\<rparr>"
    using pro unfolding svc_prologue_def q p by (auto simp: Let_def split: prod.splits if_splits simp del: store_all.simps)
  have w: "p + d \<in> words p 8" if "d \<in> {0, 4, 8, 12, 16, 20, 24, 28}" for d
    using that by (auto simp: words_Suc numeral_eq_Suc add.assoc)
  have f: "load s1 (p + d) = load (store_all p (map (gpr c) [4, 5, 6, 7, 8, 9] @ [pc c, msr c]) s) (p + d)"
    if "d \<in> {0, 4, 8, 12, 16, 20, 24, 28}" for d
    unfolding pro'(1) using w [OF that] dis
    by (intro load_store_all_other) (auto simp: numeral_eq_Suc)
  show "map (load s1 \<circ> (+) p) [0, 4, 8, 12, 16, 20, 24, 28] = map (gpr c) [4, 5, 6, 7, 8, 9] @ [pc c, msr c]"
    using f [of 0] f [of 4] f [of 8] f [of 12] f [of 16] f [of 20] f [of 24] f [of 28] by (simp add: add.assoc)
  show "map (load s1 \<circ> (+) q) [0, 4, 8] = [gpr c 3, msr c AND 0x4000, lr c]"
    unfolding pro'(1) by (simp add: add.assoc)
  show "gpr c1 1 = q" "gpr c1 4 = p + 32" "gpr c1 5 = gpr c 3" "gpr c1 2 = gpr c 2" "\<And>r. 13 \<le> r \<Longrightarrow> gpr c1 r = gpr c r"
    "kernel_sp c1 = kernel_sp c" "msr c AND 0x4000 \<noteq> 0 \<Longrightarrow> task_sp c1 = p"
    by (simp_all add: pro'(2))
  show "load s1 x = load s x" if "x \<notin> words p 8" "x \<notin> words q 3" for x
    unfolding pro'(1) using that by (simp add: load_store_all_other numeral_eq_Suc del: store_all.simps)
qed

lemma svc_epilogue_regs:
  assumes "svc_epilogue (c, s) = (c', s')" and "gpr c 1 = q"
    and sp: "sp = (if load s (q + 4) = 0 then q + 12 else task_sp c)"
  shows "s' = s" "pc c' = load s (sp + 24)" "msr c' = load s (sp + 28)" "lr c' = load s (q + 8)" "gpr c' 1 = sp + 32"
    "map (gpr c') [4, 5, 6, 7, 8, 9] = map (load s \<circ> (+) sp) [0, 4, 8, 12, 16, 20]" "gpr c' 3 = gpr c 3" "gpr c' 2 = gpr c 2"
    "\<And>r. 13 \<le> r \<Longrightarrow> gpr c' r = gpr c r" "kernel_sp c' = (if load s (q + 4) = 0 then kernel_sp c else q + 12)"
  using assms(1) unfolding svc_epilogue_def sp assms(2) [symmetric]
  by (auto simp: Let_def rfi_def set_gpr_def load_gprs_def split: if_splits)

lemma svc_interrupt_returns:
  assumes p: "p = gpr c 1 - 32" and q: "q = (if msr c AND 0x4000 = 0 then p else kernel_sp c) - 12"
    and dis: "words p 8 \<inter> words q 3 = {}"
    and run: "svc_prologue (enter c, s) = (c1, s1)" "mpc_svc_cycle L A vol (c1, s1) = Some (c2, s2)"
    and keep: "\<forall>x \<in> words p 8 \<union> words (q + 4) 2. load s2 x = load s1 x"
  obtains c3 where "svc_interrupt L A vol (c, s) = Some (c3, s2)" "pc c3 = pc c" "msr c3 = msr c" "lr c3 = lr c"
    "kernel_sp c3 = kernel_sp c" "gpr c3 3 = gpr c2 3"
    "\<And>r. r \<in> {1, 2, 4, 5, 6, 7, 8, 9} \<or> 13 \<le> r \<Longrightarrow> gpr c3 r = gpr c r"
proof -
  note f = svc_frames [OF q p dis run(1)] and k = cycle_keeps [OF run(2)]
  obtain c3 s3 where e: "svc_epilogue (c2, s2) = (c3, s3)" by (cases "svc_epilogue (c2, s2)")
  have w: "p + d \<in> words p 8" if "d \<in> {0, 4, 8, 12, 16, 20, 24, 28}" for d
    using that by (auto simp: words_Suc numeral_eq_Suc add.assoc)
  have lp: "load s2 (p + d) = load s1 (p + d)" if "d \<in> {0, 4, 8, 12, 16, 20, 24, 28}" for d
    using keep w [OF that] by blast
  have lq: "load s2 (q + 4) = msr c AND 0x4000" "load s2 (q + 8) = lr c"
    using keep f(2) by (simp_all add: words_Suc numeral_2_eq_2 add.assoc)
  have q12: "msr c AND 0x4000 = 0 \<Longrightarrow> q + 12 = p" "msr c AND 0x4000 \<noteq> 0 \<Longrightarrow> q + 12 = kernel_sp c" by (simp_all add: q)
  have sp: "p = (if load s2 (q + 4) = 0 then q + 12 else task_sp c2)"
    using k f(9) q12(1) by (simp add: lq)
  have g1: "gpr c2 1 = q" using k f(3) by simp
  note r = svc_epilogue_regs [OF e g1 sp]
  note l = lp [of 0] lp [of 4] lp [of 8] lp [of 12] lp [of 16] lp [of 20] lp [of 24] lp [of 28]
  show thesis
  proof (rule that)
    show "svc_interrupt L A vol (c, s) = Some (c3, s2)" using e r(1) by (simp add: svc_interrupt_def run)
    show "pc c3 = pc c" "msr c3 = msr c" "lr c3 = lr c" "gpr c3 3 = gpr c2 3" using r(2-4,7) f(1) lq l by simp_all
    show "kernel_sp c3 = kernel_sp c" using r(10) k f(8) q12(2) lq(1) by simp
    have m: "map (gpr c3) [4, 5, 6, 7, 8, 9] = map (gpr c) [4, 5, 6, 7, 8, 9]" using r(6) f(1) l by simp
    show "gpr c3 i = gpr c i" if "i \<in> {1, 2, 4, 5, 6, 7, 8, 9} \<or> 13 \<le> i" for i
      using that
    proof (elim disjE)
      assume "i \<in> {1, 2, 4, 5, 6, 7, 8, 9}"
      then consider "i = 1" | "i = 2" | "i \<in> {4, 5, 6, 7, 8, 9}" by blast
      then show ?thesis
      proof cases
        case 1 then show ?thesis using r(5) p by simp
      next
        case 2 then show ?thesis using r(8) k f(6) by simp
      next
        case 3 then show ?thesis using m by auto
      qed
    next
      assume "13 \<le> i"
      then show ?thesis using r(9) k f(7) by simp
    qed
  qed
qed

text \<open>A code that is not in the table leaves the address of its word as the result.\<close>

lemma svc_unknown_code:
  assumes "p = gpr c 1 - 32" and "q = (if msr c AND 0x4000 = 0 then p else kernel_sp c) - 12"
    and "words p 8 \<inter> words q 3 = {}" and "map_of svc_dispatch (gpr c 3) = None"
  obtains c3 s3 where "svc_interrupt L A vol (c, s) = Some (c3, s3)" "pc c3 = pc c" "gpr c3 3 = q"
proof -
  obtain c1 s1 where r: "svc_prologue (enter c, s) = (c1, s1)" by (cases "svc_prologue (enter c, s)")
  note f = svc_frames [OF assms(2,1,3) r]
  have "mpc_svc_cycle L A vol (c1, s1) = Some (c1\<lparr>gpr := (gpr c1)(3 := q), cr := cr vol\<rparr>, s1)"
    using assms(4) f(3,5) by (subst mpc_svc_cycle.simps) (simp add: Let_def)
  from svc_interrupt_returns [OF assms(1-3) r this] show thesis using that by auto
qed

text \<open>
  C28. A call of a kernel service on MPC57x8, from user or from kernel mode: the handler finds the code and the
  address of the four arguments. When the services end, having left the stack frames alone,
  \<open>call_kernel_service\<close> returns to its caller in the same mode, with the result of the last service in register 3, and
  with the stack pointers, the link register and every register from 5 to 9 and from 13 on as they were.
\<close>

theorem mpc_call_returns:
  assumes p: "p = gpr c 1 - 52" and q: "q = (if msr c AND 0x4000 = 0 then p else kernel_sp c) - 12"
    and dis: "words p 13 \<inter> words q 3 = {}"
    and run: "cks_before next (c, s) = (c0, s0)" "svc_prologue (enter c0, s0) = (c1, s1)"
      "mpc_svc_cycle L A vol (c1, s1) = Some (c2, s2)"
    and keep: "\<forall>x \<in> words p 8 \<union> {p + 48} \<union> words (q + 4) 2. load s2 x = load s1 x"
  shows "gpr c1 5 = gpr c 3 \<and> (\<forall>k < 4. load s1 (gpr c1 4 + 4 * of_nat k) = gpr c (4 + k)) \<and>
    (\<exists>c4. asm_call_kernel_service L A vol next (c, s) = Some (c4, s2) \<and> pc c4 = lr c \<and> msr c4 = msr c \<and> lr c4 = lr c \<and>
       kernel_sp c4 = kernel_sp c \<and> gpr c4 1 = gpr c 1 \<and> gpr c4 3 = gpr c2 3 \<and>
       (\<forall>r. 5 \<le> r \<and> r \<le> 9 \<or> 13 \<le> r \<longrightarrow> gpr c4 r = gpr c r))"
proof -
  have c0: "c0 = c\<lparr>gpr := (gpr c)(1 := p + 32, 4 := lr c), pc := next\<rparr>"
    "s0 = store_all (p + 32) (map (gpr c) [4, 5, 6, 7] @ [lr c]) s"
    using run(1) unfolding cks_before_def p by (auto simp: Let_def simp del: store_all.simps)
  have p0: "p = gpr c0 1 - 32" "q = (if msr c0 AND 0x4000 = 0 then p else kernel_sp c0) - 12" by (simp_all add: c0 q)
  have sub: "words p 8 \<subseteq> words p 13" by (auto simp: words_def)
  have dis8: "words p 8 \<inter> words q 3 = {}" using dis sub by blast
  note f = svc_frames [OF p0(2,1) dis8 run(2)]
  have arg: "load s1 (p + 32 + 4 * of_nat k) = (map (gpr c) [4, 5, 6, 7] @ [lr c]) ! k" if k: "k < 5" for k
  proof -
    have x: "p + 32 + 4 * of_nat k = p + 4 * of_nat (8 + k)" by simp
    have "p + 4 * of_nat (8 + k) \<in> words p 13" using k unfolding words_def by (intro imageI) simp
    then have a: "p + 32 + 4 * of_nat k \<notin> words q 3" using dis unfolding x by blast
    have b: "p + 32 + 4 * of_nat k \<notin> words p 8"
    proof
      assume "p + 32 + 4 * of_nat k \<in> words p 8"
      then obtain j where j: "j < 8" "p + 4 * of_nat (8 + k) = p + 4 * of_nat j" unfolding x words_def by auto
      then show False using words_inj [of "8 + k" j p] k by simp
    qed
    show ?thesis
      using f(10) [OF b a] load_store_all [of k "map (gpr c) [4, 5, 6, 7] @ [lr c]" "p + 32" s] k by (simp add: c0(2) del: store_all.simps)
  qed
  have args: "\<forall>k < 4. load s1 (gpr c1 4 + 4 * of_nat k) = gpr c (4 + k)"
  proof (intro allI impI)
    fix k :: nat
    assume k: "k < 4"
    then have "[4, 5, 6, 7] ! k = 4 + k" by (auto simp: less_Suc_eq numeral_eq_Suc)
    then show "load s1 (gpr c1 4 + 4 * of_nat k) = gpr c (4 + k)"
      using arg [of k] k by (simp add: f(4) nth_append nth_map del: list.map)
  qed
  have l16: "load s2 (p + 48) = lr c" using keep arg [of 4] by (simp add: add.assoc)
  have k8: "\<forall>x \<in> words p 8 \<union> words (q + 4) 2. load s2 x = load s1 x" using keep by blast
  obtain c3 where c3: "svc_interrupt L A vol (c0, s0) = Some (c3, s2)" "pc c3 = pc c0" "msr c3 = msr c0" "lr c3 = lr c0"
    "kernel_sp c3 = kernel_sp c0" "gpr c3 3 = gpr c2 3"
    "\<And>r. r \<in> {1, 2, 4, 5, 6, 7, 8, 9} \<or> 13 \<le> r \<Longrightarrow> gpr c3 r = gpr c0 r"
    by (rule svc_interrupt_returns [OF p0 dis8 run(2,3) k8]) (rule that)
  have r1: "gpr c3 1 = p + 32" using c3(7) [of 1] by (simp add: c0)
  have g: "gpr (fst (cks_after (c3, s2))) r = gpr c r" if "5 \<le> r \<and> r \<le> 9 \<or> 13 \<le> r" for r
  proof -
    have "r \<in> {1, 2, 4, 5, 6, 7, 8, 9} \<or> 13 \<le> r" using that by (auto simp: le_Suc_eq numeral_eq_Suc)
    then show ?thesis using c3(7) [of r] that by (auto simp: cks_after_def Let_def c0)
  qed
  have "asm_call_kernel_service L A vol next (c, s) = Some (fst (cks_after (c3, s2)), s2)"
    by (simp add: asm_call_kernel_service_def run(1) c3(1)) (simp add: cks_after_def Let_def)
  moreover have "pc (fst (cks_after (c3, s2))) = lr c \<and> lr (fst (cks_after (c3, s2))) = lr c \<and> msr (fst (cks_after (c3, s2))) = msr c \<and>
      kernel_sp (fst (cks_after (c3, s2))) = kernel_sp c \<and> gpr (fst (cks_after (c3, s2))) 1 = gpr c 1 \<and>
      gpr (fst (cks_after (c3, s2))) 3 = gpr c2 3"
    using l16 c3(3,5,6) r1 by (simp add: cks_after_def Let_def c0 p add.assoc)
  ultimately show ?thesis using args g f(5) by (auto simp: c0)
qed

text \<open>A task without the right asks for a permission: one service runs and refuses.\<close>

lemma refused_cycle:
  assumes "gpr c 5 = GRANT_PERMISSION" and "current_task s \<noteq> 0"
  shows "mpc_svc_cycle L A vol (c, s) =
    Some (svc_return vol ERROR_INSUFFICIENT_PERMISSION c (svc_stack L c s), svc_stack L c s)"
proof -
  have m: "map_of svc_dispatch GRANT_PERMISSION = Some svc_service_grant_permission" by (simp add: svc_dispatch_def)
  have cur: "current_task (svc_stack L c s) \<noteq> 0" using assms(2) by (simp add: svc_stack_def Let_def)
  have g: "gpr (svc_return vol v c (svc_stack L c s)) 5 = gpr (svc_return vol v c (svc_stack L c s)) 6" for v
    by (simp add: svc_return_def svc_stack_def load_gprs_def set_gpr_def Let_def assms(1) add.assoc)
  show ?thesis
    by (subst mpc_svc_cycle.simps)
      (simp add: Let_def assms(1) m svc_service_grant_permission_def cur svc_writes_def g)
qed

theorem mpc_call_returns_witness:
  "\<exists>c4 s'. asm_call_kernel_service \<lparr>svc_dispatch_addr = 0x1000, SIZE_OF_SDT = 8\<rparr> (mpc_port demo_params demo_mpc) demo_core 0x01000300
      (demo_core, demo_state\<lparr>current_task := 1\<rparr>) = Some (c4, s') \<and> pc c4 = 0x01000200 \<and> gpr c4 3 = ERROR_INSUFFICIENT_PERMISSION"
proof -
  let ?L = "\<lparr>svc_dispatch_addr = 0x1000, SIZE_OF_SDT = 8\<rparr>" and ?A = "mpc_port demo_params demo_mpc"
  let ?s = "demo_state\<lparr>current_task := 1\<rparr>"
  obtain c0 s0 where b: "cks_before 0x01000300 (demo_core, ?s) = (c0, s0)" by (cases "cks_before 0x01000300 (demo_core, ?s)")
  obtain c1 s1 where r: "svc_prologue (enter c0, s0) = (c1, s1)" by (cases "svc_prologue (enter c0, s0)")
  have q: "(0x20007FF4 :: u32) = (if msr demo_core AND 0x4000 = 0 then gpr demo_core 1 - 52 else kernel_sp demo_core) - 12"
    by (simp add: demo_core_def)
  have d: "words (gpr demo_core 1 - 52) 13 \<inter> words 0x20007FF4 3 = {}"
    by (rule words_disjoint) (simp_all add: demo_core_def)
  have c1: "gpr c1 1 = 0x20007FF4" "gpr c1 5 = GRANT_PERMISSION" "current_task s1 \<noteq> 0"
    using b r by (auto simp: cks_before_def svc_prologue_def demo_core_def Let_def)
  let ?r = "(svc_return demo_core ERROR_INSUFFICIENT_PERMISSION c1 (svc_stack ?L c1 s1), svc_stack ?L c1 s1)"
  have cy: "mpc_svc_cycle ?L ?A demo_core (c1, s1) = Some ?r" by (rule refused_cycle [OF c1(2,3)])
  have "load (svc_stack ?L c1 s1) x = load s1 x" if "x \<notin> words 0x20007FE0 6" for x
  proof -
    have "gpr c1 1 - 24 + 4 = 0x20007FE0" using c1(1) by simp
    then show ?thesis
      unfolding svc_stack_def Let_def using that
      by (simp only:) (rule load_store_all_other, simp add: numeral_eq_Suc)
  qed
  moreover have "words (gpr demo_core 1 - 52) 8 \<inter> words 0x20007FE0 6 = {}"
    by (rule words_disjoint) (simp_all add: demo_core_def)
  moreover have "words 0x20007FE0 6 \<inter> words (0x20007FF4 + 4) 2 = {}" by (rule words_disjoint) simp_all
  moreover have "gpr demo_core 1 - 52 + 48 \<notin> words 0x20007FE0 6"
    using words_range [of "gpr demo_core 1 - 52 + 48" "0x20007FE0" 6] by (auto simp: demo_core_def)
  ultimately have k: "\<forall>x \<in> words (gpr demo_core 1 - 52) 8 \<union> {gpr demo_core 1 - 52 + 48} \<union> words (0x20007FF4 + 4) 2.
      load (svc_stack ?L c1 s1) x = load s1 x" by blast
  show ?thesis
    using mpc_call_returns [OF refl q d b r cy k]
    by (auto simp: demo_core_def svc_return_def set_gpr_def load_gprs_def Let_def)
qed

end
