(* ===== verification/ArmAsm.thy ===== *)
theory ArmAsm
  imports ArmPort SvcTable Share Memory
begin

text \<open>
  The assembly of the ARM port with the registers of the core: the context switch of \<^verbatim>\<open>pendsv_handler.S\<close> and the
  supervisor call of \<^verbatim>\<open>svc_handler.S\<close>.

  On an exception the processor itself pushes the registers 0 to 3, 12, the link register, the return address and
  the status on the stack of the task, and loads \<open>EXC_RETURN\<close> into the link register; it pops them when the
  handler returns. Both handlers run between these two steps: the frame of the processor begins at \<open>psp_reg\<close>.
\<close>

record arm_core =
  arm_r :: "nat \<Rightarrow> u32"
  arm_s :: "nat \<Rightarrow> u32"
  arm_lr :: u32
  arm_control :: u32
  arm_msp :: u32

section \<open>Context switch (pendsv\_handler.S)\<close>

text \<open>
  Bit 4 of \<open>EXC_RETURN\<close> is clear when the task has used the floating point registers. The link and the control
  register are pushed as the registers 2 and 3.
\<close>

abbreviation (input) uses_fp :: "u32 \<Rightarrow> bool" where "uses_fp exc_return \<equiv> exc_return AND 0x10 = 0"

definition pushed_regs :: "nat list" where
  "pushed_regs = [2..<12]"

definition fp_regs :: "nat list" where
  "fp_regs = [16..<32]"

definition pendsv_save :: "arm_core \<times> kstate \<Rightarrow> u32 \<times> kstate" where
  "pendsv_save = (\<lambda>(c, s).
     let r0 = psp_reg (mcu s);
         (r0, s) = (if uses_fp (arm_lr c) then (r0 - 64, store_all (r0 - 64) (map (arm_s c) fp_regs) s) else (r0, s));
         g = (arm_r c)(2 := arm_lr c, 3 := arm_control c)
     in (r0 - 40, store_all (r0 - 40) (map g pushed_regs) s))"

text \<open>The region of the next task goes from \<open>mpu_table\<close> to the MPU, which is off meanwhile.\<close>

definition pendsv_mpu :: "u32 arr \<Rightarrow> nat \<Rightarrow> mcu \<Rightarrow> mcu" where
  "pendsv_mpu mpu_table t =
     hwreg_store MPUCTRL 5 \<circ> hwreg_store MPURASR (mpu_table (2 * t + 1)) \<circ> hwreg_store MPURBAR (mpu_table (2 * t)) \<circ>
     hwreg_store MPUCTRL 0"

definition pendsv_restore :: "u32 \<Rightarrow> arm_core \<times> kstate \<Rightarrow> arm_core \<times> kstate" where
  "pendsv_restore r0 = (\<lambda>(c, s).
     let g = load_gprs pushed_regs r0 s (arm_r c);
         c = c\<lparr>arm_r := g, arm_lr := g 2, arm_control := g 3\<rparr>;
         r0 = r0 + 40;
         (r0, c) = (if uses_fp (arm_lr c) then (r0 + 64, c\<lparr>arm_s := load_gprs fp_regs r0 s (arm_s c)\<rparr>) else (r0, c))
     in (c, on_mcu (\<lambda>m. m\<lparr>psp_reg := r0\<rparr>) s))"

definition asm_pendsv_handler :: "u32 arr \<Rightarrow> arm_core \<times> kstate \<Rightarrow> arm_core \<times> kstate" where
  "asm_pendsv_handler mpu_table = (\<lambda>(c, s).
     let (r0, s1) = pendsv_save (c, s);
         s2 = context_switch r0 s1;
         t = unat (next_task s2)
     in pendsv_restore (PSP_Array s2 t) (c, on_mcu (pendsv_mpu mpu_table t) s2))"

section \<open>Supervisor calls (svc\_handler.S)\<close>

text \<open>
  The frame of the processor is on the stack that bit 2 of \<open>EXC_RETURN\<close> names. The code of the call is the low byte
  of the instruction before the return address, the seventh word of the frame.
\<close>

definition svc_regs :: "nat list" where
  "svc_regs = [4..<8]"

definition svc_frame :: "arm_core \<Rightarrow> kstate \<Rightarrow> u32" where
  "svc_frame c s = (if arm_lr c AND 4 = 0 then arm_msp c else psp_reg (mcu s))"

definition asm_svc_prologue :: "arm_core \<times> kstate \<Rightarrow> arm_core \<times> kstate" where
  "asm_svc_prologue = (\<lambda>(c, s).
     let r1 = svc_frame c s;
         r2 = ldrb (load s (r1 + 24) - 2) (mcu s);
         s1 = store_all (arm_msp c - 16) (map (arm_r c) svc_regs) s;
         r7 = arm_msp c - 16 - 8
     in (c\<lparr>arm_r := (arm_r c)(1 := r1, 2 := r2, 7 := r7), arm_msp := r7\<rparr>,
         store r7 r2 (store (r7 + 4) (arm_lr c) s1)))"

text \<open>
  One round of \<open>svc_cycle\<close>; the registers 4 and 5, which search the table, are only used inside a round. The registers 1 and 3 are pushed around the service, which returns its result in register 0
  and keeps the registers 4 to 11; \<open>vol\<close> are the values it leaves in the others.
\<close>

definition asm_svc_push :: "arm_core \<Rightarrow> kstate \<Rightarrow> kstate" where
  "asm_svc_push c s = store_all (arm_msp c - 8) [arm_r c 1, arm_r c 2] s"

definition asm_svc_call :: "arm_core \<Rightarrow> u32 \<Rightarrow> arm_core \<Rightarrow> kstate \<Rightarrow> arm_core" where
  "asm_svc_call vol r c s =
     c\<lparr>arm_r := (arm_r c)(0 := r, 12 := arm_r vol 12, 1 := load s (arm_msp c - 8), 3 := load s (arm_msp c - 4),
                 2 := load s (arm_r c 7)), arm_lr := arm_lr vol\<rparr>"

partial_function (option) asm_svc_cycle :: "port \<Rightarrow> arm_core \<Rightarrow> arm_core \<times> kstate \<Rightarrow> (arm_core \<times> kstate) option" where
  "asm_svc_cycle A vol cs =
     (let c = fst cs; s = snd cs; code = arm_r c 2; r7 = arm_r c 7 in
      case map_of svc_dispatch code of
        None \<Rightarrow> Some (c\<lparr>arm_r := (arm_r c)(0 := r7, 3 := code)\<rparr>, s)
      | Some svc_service \<Rightarrow>
          (let s1 = asm_svc_push c s;
               args = (\<lambda>k. load s1 (arm_r c 1 + 4 * of_nat k)) in
           do {
             (r, code', args', s2) \<leftarrow> svc_service A code args s1;
             (let s3 = svc_writes (arm_r c 1) r7 code code' args args' s2;
                  c1 = asm_svc_call vol r c s3
              in if arm_r c1 2 = arm_r c1 3 then Some (c1, s3) else asm_svc_cycle A vol (c1, s3))
           }))"

text \<open>From \<open>skip_check\<close> on: the result goes to register 0 in the frame of the processor.\<close>

definition asm_svc_epilogue :: "arm_core \<times> kstate \<Rightarrow> arm_core \<times> kstate" where
  "asm_svc_epilogue = (\<lambda>(c, s).
     let lr = load s (arm_r c 7 + 4);
         sp = arm_r c 7 + 8;
         c1 = c\<lparr>arm_lr := lr, arm_r := load_gprs svc_regs sp s (arm_r c), arm_msp := sp + 16\<rparr>
     in (c1, store (svc_frame c1 s) (arm_r c 0) s))"

definition asm_svc_handler :: "port \<Rightarrow> arm_core \<Rightarrow> arm_core \<times> kstate \<Rightarrow> (arm_core \<times> kstate) option" where
  "asm_svc_handler A vol cs = map_option asm_svc_epilogue (asm_svc_cycle A vol (asm_svc_prologue cs))"

section \<open>The switch to user mode (os\_util.S)\<close>

text \<open>Up to the call of \<open>START_SCHEDULER\<close>; the processor then pushes its frame on the stack of the base task.\<close>

definition arm_user_mode :: "arm_core \<times> kstate \<Rightarrow> arm_core \<times> kstate" where
  "arm_user_mode = (\<lambda>(c, s).
     (c\<lparr>arm_r := (arm_r c)(0 := 3), arm_control := 3\<rparr>, on_mcu (\<lambda>m. m\<lparr>psp_reg := PSP_Array s 0\<rparr>) s))"

end
