(* ===== verification/ArmAsmProps.thy ===== *)
theory ArmAsmProps
  imports ArmAsm MpcProps
begin

text \<open>
  What the assembly of the ARM port keeps of a task: a task that is switched out and in again goes on with its
  registers, the first frame of a task starts its function with its argument, and a supervisor call returns to its caller.
\<close>

section \<open>The frame of the context switch\<close>

lemma load_gprs_upt:
  "load_gprs [i..<j] a s g = (\<lambda>r. if i \<le> r \<and> r < j then load s (a + 4 * of_nat (r - i)) else g r)"
proof (induction j)
  case (Suc j)
  show ?case
  proof (cases "i \<le> j")
    case True
    then have "load_gprs [i..<Suc j] a s g = (load_gprs [i..<j] a s g)(j := load s (a + 4 * of_nat (j - i)))"
      by (simp add: load_gprs_def enumerate_append_eq)
    then show ?thesis using Suc True by (auto simp: fun_eq_iff less_Suc_eq)
  qed (auto simp: load_gprs_def fun_eq_iff)
qed (auto simp: load_gprs_def fun_eq_iff)

text \<open>The words of the frame: 10, and 16 more with the floating point registers.\<close>

definition frame_words :: "u32 \<Rightarrow> nat" where
  "frame_words exc_return = (if uses_fp exc_return then 26 else 10)"

definition pendsv_frame :: "u32 \<Rightarrow> arm_core \<Rightarrow> kstate \<Rightarrow> bool" where
  "pendsv_frame p c s \<longleftrightarrow> (\<forall>k < 10. load s (p + 4 * of_nat k) = ((arm_r c)(2 := arm_lr c, 3 := arm_control c)) (2 + k)) \<and>
     (uses_fp (arm_lr c) \<longrightarrow> (\<forall>k < 16. load s (p + 40 + 4 * of_nat k) = arm_s c (16 + k)))"

lemma reg_lists:
  "length pushed_regs = 10" "length fp_regs = 16" "length svc_regs = 4" "k < 10 \<Longrightarrow> pushed_regs ! k = 2 + k"
  "k < 16 \<Longrightarrow> fp_regs ! k = 16 + k" "k < 4 \<Longrightarrow> svc_regs ! k = 4 + k"
  by (simp_all add: pushed_regs_def fp_regs_def svc_regs_def del: upt_rec_numeral)

lemma in_words: "k < n \<Longrightarrow> p + 4 * of_nat k \<in> words p n"
  by (auto simp: words_def)

lemma pendsv_frame_cong:
  assumes "\<And>x. x \<in> words p (frame_words (arm_lr c)) \<Longrightarrow> load s' x = load s x"
  shows "pendsv_frame p c s' = pendsv_frame p c s"
proof -
  have "load s' (p + 4 * of_nat k) = load s (p + 4 * of_nat k)" if "k < 10" for k
    using that by (intro assms in_words) (simp add: frame_words_def)
  moreover have "load s' (p + 40 + 4 * of_nat k) = load s (p + 40 + 4 * of_nat k)" if "k < 16" "uses_fp (arm_lr c)" for k
    using assms [OF in_words [of "10 + k"]] that by (simp add: frame_words_def algebra_simps)
  ultimately show ?thesis by (auto simp: pendsv_frame_def)
qed

lemma words_split: "words p (m + n) = words p m \<union> words (p + 4 * of_nat m) n"
proof -
  have "{..<m + n} = {..<m} \<union> {m..<m + n}" by auto
  also have "{m..<m + n} = (\<lambda>k. m + k) ` {..<n}" using image_add_atLeastLessThan [of m 0 n] by (simp add: atLeast0LessThan add.commute)
  finally show ?thesis by (simp add: words_def image_Un image_image algebra_simps)
qed

lemma words_split_disjoint:
  assumes "m + n \<le> 2 ^ 30"
  shows "words p m \<inter> words (p + 4 * of_nat m) n = {}"
proof -
  have "False" if "k < m" "j < n" "p + 4 * of_nat k = p + 4 * of_nat m + 4 * of_nat j" for k j
  proof -
    have "p + 4 * of_nat k = p + 4 * of_nat (m + j)" using that(3) by (simp add: algebra_simps)
    then show False using words_inj [of k "m + j" p] that(1,2) assms by simp
  qed
  then show ?thesis by (fastforce simp: words_def)
qed

lemma save_frame:
  assumes "pendsv_save (c, s) = (p, s1)"
  shows "p = psp_reg (mcu s) - 4 * of_nat (frame_words (arm_lr c))" "pendsv_frame p c s1"
    "\<And>x. x \<notin> words p (frame_words (arm_lr c)) \<Longrightarrow> load s1 x = load s x"
    "PSP_Array s1 = PSP_Array s" "next_task s1 = next_task s" "current_task s1 = current_task s"
proof -
  define g where "g = (arm_r c)(2 := arm_lr c, 3 := arm_control c)"
  define s0 where "s0 = (if uses_fp (arm_lr c) then store_all (p + 40) (map (arm_s c) fp_regs) s else s)"
  show p: "p = psp_reg (mcu s) - 4 * of_nat (frame_words (arm_lr c))"
    using assms by (auto simp: pendsv_save_def frame_words_def Let_def split: if_splits)
  have s1: "s1 = store_all p (map g pushed_regs) s0"
    using assms by (auto simp: pendsv_save_def frame_words_def g_def s0_def Let_def split: if_splits)
  have dj: "words p 10 \<inter> words (p + 40) 16 = {}" using words_split_disjoint [of 10 16 p] by simp
  have hi: "words p 26 = words p 10 \<union> words (p + 40) 16" using words_split [of p 10 16] by simp
  have "load s1 (p + 4 * of_nat k) = g (2 + k)" if "k < 10" for k
    using that load_store_all [of k "map g pushed_regs" p s0] by (simp add: s1 reg_lists)
  moreover have "load s1 (p + 40 + 4 * of_nat k) = arm_s c (16 + k)" if "k < 16" "uses_fp (arm_lr c)" for k
  proof -
    have "p + 40 + 4 * of_nat k \<notin> words p 10" using in_words [OF that(1), of "p + 40"] dj by auto
    then have "load s1 (p + 40 + 4 * of_nat k) = load s0 (p + 40 + 4 * of_nat k)"
      unfolding s1 by (intro load_store_all_other) (simp add: reg_lists)
    then show ?thesis using that load_store_all [of k "map (arm_s c) fp_regs" "p + 40" s] by (simp add: s0_def reg_lists)
  qed
  ultimately show "pendsv_frame p c s1" by (simp add: pendsv_frame_def g_def)
  show "load s1 x = load s x" if "x \<notin> words p (frame_words (arm_lr c))" for x
  proof -
    have "x \<notin> words p 10" "uses_fp (arm_lr c) \<Longrightarrow> x \<notin> words (p + 40) 16"
      using that hi by (auto simp: frame_words_def split: if_splits)
    then show ?thesis by (simp add: s1 s0_def load_store_all_other reg_lists)
  qed
  show "PSP_Array s1 = PSP_Array s" "next_task s1 = next_task s" "current_task s1 = current_task s"
    by (simp_all add: s1 s0_def)
qed

lemma restore_frame:
  assumes "pendsv_frame p c s" and "pendsv_restore p (c0, s) = (c', s')"
  shows "arm_lr c' = arm_lr c" "arm_control c' = arm_control c" "\<And>r. 4 \<le> r \<Longrightarrow> r \<le> 11 \<Longrightarrow> arm_r c' r = arm_r c r"
    "\<And>r. uses_fp (arm_lr c) \<Longrightarrow> 16 \<le> r \<Longrightarrow> r \<le> 31 \<Longrightarrow> arm_s c' r = arm_s c r"
    "psp_reg (mcu s') = p + 4 * of_nat (frame_words (arm_lr c))" "arm_msp c' = arm_msp c0"
    "load s' x = load s x" "current_task s' = current_task s" "PSP_Array s' = PSP_Array s" "next_task s' = next_task s"
proof -
  have f: "load s (p + 4 * of_nat k) = ((arm_r c)(2 := arm_lr c, 3 := arm_control c)) (2 + k)" if "k < 10" for k
    using assms(1) that by (simp add: pendsv_frame_def)
  have fp: "load s (p + 40 + 4 * of_nat k) = arm_s c (16 + k)" if "k < 16" "uses_fp (arm_lr c)" for k
    using assms(1) that by (simp add: pendsv_frame_def)
  have g: "load_gprs pushed_regs p s (arm_r c0) r = ((arm_r c)(2 := arm_lr c, 3 := arm_control c)) r" if r: "2 \<le> r" "r \<le> 11" for r
  proof -
    obtain k where k: "r = 2 + k" using le_Suc_ex [OF r(1)] by blast
    then have "k < 10" using r(2) by simp
    with k show ?thesis using f [of k] by (simp add: pushed_regs_def load_gprs_upt del: upt_rec_numeral)
  qed
  have h: "load_gprs fp_regs (p + 40) s (arm_s c0) r = arm_s c r" if "16 \<le> r" "r \<le> 31" "uses_fp (arm_lr c)" for r
    using fp [of "r - 16"] that by (simp add: fp_regs_def load_gprs_upt del: upt_rec_numeral)
  have lr: "load_gprs pushed_regs p s (arm_r c0) 2 = arm_lr c" "load_gprs pushed_regs p s (arm_r c0) 3 = arm_control c"
    by (simp_all add: g)
  have r: "arm_lr c' = arm_lr c" "arm_control c' = arm_control c" "arm_r c' = load_gprs pushed_regs p s (arm_r c0)"
    "uses_fp (arm_lr c) \<Longrightarrow> arm_s c' = load_gprs fp_regs (p + 40) s (arm_s c0)"
    "s' = on_mcu (\<lambda>m. m\<lparr>psp_reg := p + 4 * of_nat (frame_words (arm_lr c))\<rparr>) s" "arm_msp c' = arm_msp c0"
    using assms(2) by (auto simp: pendsv_restore_def Let_def lr frame_words_def algebra_simps split: if_splits)
  show "arm_lr c' = arm_lr c" "arm_control c' = arm_control c" "\<And>r. 4 \<le> r \<Longrightarrow> r \<le> 11 \<Longrightarrow> arm_r c' r = arm_r c r"
    "\<And>r. uses_fp (arm_lr c) \<Longrightarrow> 16 \<le> r \<Longrightarrow> r \<le> 31 \<Longrightarrow> arm_s c' r = arm_s c r"
    "psp_reg (mcu s') = p + 4 * of_nat (frame_words (arm_lr c))" "arm_msp c' = arm_msp c0"
    "load s' x = load s x" "current_task s' = current_task s" "PSP_Array s' = PSP_Array s" "next_task s' = next_task s"
    using g h by (simp_all add: r load_def on_mcu_def)
qed

section \<open>Switching tasks\<close>

abbreviation (input) MPU_regs :: "u32 set" where "MPU_regs \<equiv> {MPUCTRL, MPURBAR, MPURASR}"

lemma load_mpu: "x \<notin> MPU_regs \<Longrightarrow> load (on_mcu (pendsv_mpu T t) s) x = load s x"
  by (simp add: load_def on_mcu_def pendsv_mpu_def hwreg_store_def)

lemma mpu_frame [simp]:
  "PSP_Array (on_mcu g s) = PSP_Array s" "current_task (on_mcu g s) = current_task s" "next_task (on_mcu g s) = next_task s"
  by (simp_all add: on_mcu_def)

lemma handler_parts:
  assumes "asm_pendsv_handler T (c, s) = (c', s')"
  obtains p s1 where "pendsv_save (c, s) = (p, s1)"
    "pendsv_restore (((PSP_Array s)(unat (current_task s) := p)) (unat (next_task s)))
       (c, on_mcu (pendsv_mpu T (unat (next_task s))) (context_switch p s1)) = (c', s')"
proof -
  obtain p s1 where sv: "pendsv_save (c, s) = (p, s1)" by (cases "pendsv_save (c, s)")
  let ?q = "((PSP_Array s)(unat (current_task s) := p)) (unat (next_task s))"
  have "asm_pendsv_handler T (c, s) = pendsv_restore ?q (c, on_mcu (pendsv_mpu T (unat (next_task s))) (context_switch p s1))"
    using save_frame(4-6) [OF sv] by (simp add: asm_pendsv_handler_def sv context_switch_def Let_def)
  with assms show thesis by (intro that [OF sv]) (simp only:)
qed

text \<open>The state of the kernel after the handler is the one of the model without registers, on the stored stack.\<close>

lemma asm_pendsv_is_pendsv:
  assumes "asm_pendsv_handler T (c, s) = (c', s')"
  obtains s1 where "pendsv_save (c, s) = (psp_reg (mcu s) - 4 * of_nat (frame_words (arm_lr c)), s1)"
    "s' = pendsv_handler T (4 * of_nat (frame_words (arm_lr c))) (4 * of_nat (frame_words (arm_lr c'))) s1"
proof (rule handler_parts [OF assms])
  fix p s1
  let ?q = "((PSP_Array s)(unat (current_task s) := p)) (unat (next_task s))"
  assume sv: "pendsv_save (c, s) = (p, s1)"
    and r: "pendsv_restore ?q (c, on_mcu (pendsv_mpu T (unat (next_task s))) (context_switch p s1)) = (c', s')"
  note f = save_frame [OF sv]
  have psp: "psp_reg (mcu s1) = psp_reg (mcu s)"
  proof -
    have "psp_reg (mcu (store_all a vs s)) = psp_reg (mcu s)" for a vs s
      by (induction vs arbitrary: a s) (simp_all add: store_def on_mcu_def mem_store_def)
    then show ?thesis using sv by (auto simp: pendsv_save_def Let_def split: if_splits)
  qed
  have "s' = on_mcu (\<lambda>m. m\<lparr>psp_reg := ?q + 4 * of_nat (frame_words (arm_lr c'))\<rparr>)
      (on_mcu (pendsv_mpu T (unat (next_task s))) (context_switch p s1))"
    using r by (auto simp: pendsv_restore_def Let_def frame_words_def algebra_simps split: if_splits)
  then have "s' = pendsv_handler T (4 * of_nat (frame_words (arm_lr c))) (4 * of_nat (frame_words (arm_lr c'))) s1"
    using f(1,4-6) psp
    by (simp add: pendsv_handler_def context_switch_def pendsv_mpu_def on_mcu_def Let_def comp_assoc)
  with sv show thesis by (intro that) (simp_all add: f(1))
qed

text \<open>Nothing but the frame, below the stack pointer, and the registers of the MPU is written.\<close>

lemma handler_out:
  assumes "asm_pendsv_handler T (c, s) = (c', s')" and p: "p = psp_reg (mcu s) - 4 * of_nat (frame_words (arm_lr c))"
  shows "PSP_Array s' = (PSP_Array s)(unat (current_task s) := p)" "current_task s' = next_task s" "next_task s' = next_task s"
    "\<And>x. x \<notin> words p (frame_words (arm_lr c)) \<Longrightarrow> x \<notin> MPU_regs \<Longrightarrow> load s' x = load s x"
    "words p (frame_words (arm_lr c)) \<inter> MPU_regs = {} \<Longrightarrow> pendsv_frame p c s'"
proof -
  obtain s1 where sv: "pendsv_save (c, s) = (p, s1)"
    and s': "s' = pendsv_handler T (4 * of_nat (frame_words (arm_lr c))) (4 * of_nat (frame_words (arm_lr c'))) s1"
    unfolding p by (rule asm_pendsv_is_pendsv [OF assms(1)])
  note f = save_frame [OF sv]
  have psp: "psp_reg (mcu s1) - 4 * of_nat (frame_words (arm_lr c)) = p"
  proof -
    have "psp_reg (mcu (store_all a vs s)) = psp_reg (mcu s)" for a vs s
      by (induction vs arbitrary: a s) (simp_all add: store_def on_mcu_def mem_store_def)
    then show ?thesis using sv f(1) by (auto simp: pendsv_save_def Let_def split: if_splits)
  qed
  show "PSP_Array s' = (PSP_Array s)(unat (current_task s) := p)" "current_task s' = next_task s" "next_task s' = next_task s"
    by (simp_all add: s' pendsv_handler_def context_switch_def Let_def psp f(4-6))
  have l: "load s' x = load s1 x" if "x \<notin> MPU_regs" for x
    using that by (simp add: s' pendsv_handler_def context_switch_def Let_def load_def on_mcu_def hwreg_store_def)
  show "load s' x = load s x" if "x \<notin> words p (frame_words (arm_lr c))" "x \<notin> MPU_regs" for x
    using l [OF that(2)] f(3) [OF that(1)] by simp
  show "pendsv_frame p c s'" if "words p (frame_words (arm_lr c)) \<inter> MPU_regs = {}"
    using f(2) pendsv_frame_cong [of p c s' s1] l that by blast
qed

lemma handler_in:
  assumes h: "asm_pendsv_handler T (c2, s2) = (c3, s3)" and fr: "pendsv_frame p c s2"
    and q: "PSP_Array s2 (unat (next_task s2)) = p" and ne: "next_task s2 \<noteq> current_task s2"
    and dev: "words p (frame_words (arm_lr c)) \<inter> MPU_regs = {}"
    and dis: "words p (frame_words (arm_lr c)) \<inter>
      words (psp_reg (mcu s2) - 4 * of_nat (frame_words (arm_lr c2))) (frame_words (arm_lr c2)) = {}"
  shows "arm_lr c3 = arm_lr c" "arm_control c3 = arm_control c" "\<And>r. 4 \<le> r \<Longrightarrow> r \<le> 11 \<Longrightarrow> arm_r c3 r = arm_r c r"
    "\<And>r. uses_fp (arm_lr c) \<Longrightarrow> 16 \<le> r \<Longrightarrow> r \<le> 31 \<Longrightarrow> arm_s c3 r = arm_s c r"
    "psp_reg (mcu s3) = p + 4 * of_nat (frame_words (arm_lr c))" "arm_msp c3 = arm_msp c2"
proof (atomize (full), rule handler_parts [OF h], goal_cases)
  case (1 p' s1)
  note f = save_frame [OF 1(1)]
  let ?s = "on_mcu (pendsv_mpu T (unat (next_task s2))) (context_switch p' s1)"
  have "((PSP_Array s2)(unat (current_task s2) := p')) (unat (next_task s2)) = p" using q ne by (simp add: word_unat_eq_iff)
  then have r: "pendsv_restore p (c2, ?s) = (c3, s3)" using 1(2) by simp
  have "load ?s x = load s2 x" if x: "x \<in> words p (frame_words (arm_lr c))" for x
  proof -
    have "x \<notin> MPU_regs" "x \<notin> words p' (frame_words (arm_lr c2))" using x dev dis f(1) by blast+
    then show ?thesis using f(3) load_mpu [of x T _ "context_switch p' s1"] by (simp add: load_def context_switch_def Let_def)
  qed
  then have "pendsv_frame p c ?s" using fr pendsv_frame_cong [of p c ?s s2] by blast
  from restore_frame [OF this r] show ?case by blast
qed

text \<open>
  C22. A task on ARM that is switched out and, any time later, in again continues with its stack pointer, exception
  return, privilege, the registers 4 to 11 and, if it used them, the floating point registers 16 to 31, provided that
  nothing wrote to its pushed frame and its saved stack pointer. The handler writes no word from the
  stack pointer upwards, where the processor keeps the other registers, and the MPU gets the region of the task.
\<close>

theorem arm_task_resumes:
  assumes out: "asm_pendsv_handler T (c, s) = (c1, s1)" and p: "p = psp_reg (mcu s) - 4 * of_nat (frame_words (arm_lr c))"
    and dev: "words p (frame_words (arm_lr c)) \<inter> MPU_regs = {}"
    and keep: "PSP_Array s2 (unat (current_task s)) = PSP_Array s1 (unat (current_task s))"
      "\<forall>x \<in> words p (frame_words (arm_lr c)). load s2 x = load s1 x"
    and again: "asm_pendsv_handler T (c2, s2) = (c3, s3)" "next_task s2 = current_task s" "current_task s2 \<noteq> current_task s"
    and dis: "words p (frame_words (arm_lr c)) \<inter>
      words (psp_reg (mcu s2) - 4 * of_nat (frame_words (arm_lr c2))) (frame_words (arm_lr c2)) = {}"
  shows "psp_reg (mcu s3) = psp_reg (mcu s) \<and> arm_lr c3 = arm_lr c \<and> arm_control c3 = arm_control c \<and>
    (\<forall>r. 4 \<le> r \<and> r \<le> 11 \<longrightarrow> arm_r c3 r = arm_r c r) \<and>
    (uses_fp (arm_lr c) \<longrightarrow> (\<forall>r. 16 \<le> r \<and> r \<le> 31 \<longrightarrow> arm_s c3 r = arm_s c r)) \<and>
    (\<forall>x. x \<notin> words p (frame_words (arm_lr c)) \<and> x \<notin> MPU_regs \<longrightarrow> load s1 x = load s x) \<and>
    current_task s3 = current_task s \<and> HWREG MPURBAR (mcu s3) = T (2 * unat (current_task s))"
proof -
  note o = handler_out [OF out p]
  have fr: "pendsv_frame p c s2" using keep(2) o(5) [OF dev] pendsv_frame_cong [of p c s2 s1] by blast
  have q: "PSP_Array s2 (unat (next_task s2)) = p" "next_task s2 \<noteq> current_task s2" using keep(1) again(2,3) o(1) by simp_all
  note i = handler_in [OF again(1) fr q dev dis]
  obtain s4 where s4: "s3 = pendsv_handler T (4 * of_nat (frame_words (arm_lr c2))) (4 * of_nat (frame_words (arm_lr c3))) s4"
    "pendsv_save (c2, s2) = (psp_reg (mcu s2) - 4 * of_nat (frame_words (arm_lr c2)), s4)"
    using asm_pendsv_is_pendsv [OF again(1)] by blast
  have "HWREG MPURBAR (mcu s3) = T (2 * unat (current_task s))"
    using save_frame(5) [OF s4(2)] again(2)
    by (simp add: s4(1) pendsv_handler_def context_switch_def Let_def on_mcu_def hwreg_store_def HWREG_def)
  then show ?thesis using i handler_out(2) [OF again(1) refl] o(4) again(2) p by simp
qed

definition demo_arm_core :: arm_core where
  "demo_arm_core = \<lparr>arm_r = of_nat, arm_s = of_nat, arm_lr = 0xFFFFFFED, arm_control = 3, arm_msp = 0x20007000\<rparr>"

definition demo_stacks :: "u32 \<Rightarrow> kstate" where
  "demo_stacks psp = demo_state\<lparr>next_task := 2, current_task := 1, mcu := demo_mcu\<lparr>psp_reg := psp\<rparr>\<rparr>"

theorem arm_task_resumes_witness:
  "\<exists>c3 s3. asm_pendsv_handler (\<lambda>_. 0) (demo_arm_core, on_mcu (\<lambda>m. m\<lparr>psp_reg := 0x20003000\<rparr>)
      ((snd (asm_pendsv_handler (\<lambda>_. 0) (demo_arm_core, demo_stacks 0x20002000)))\<lparr>next_task := 1\<rparr>)) = (c3, s3) \<and>
    psp_reg (mcu s3) = 0x20002000 \<and> arm_r c3 11 = 11"
proof -
  let ?s = "demo_stacks 0x20002000"
  obtain c1 s1 where o: "asm_pendsv_handler (\<lambda>_. 0) (demo_arm_core, ?s) = (c1, s1)"
    by (cases "asm_pendsv_handler (\<lambda>_. 0) (demo_arm_core, ?s)")
  let ?s2 = "on_mcu (\<lambda>m. m\<lparr>psp_reg := 0x20003000\<rparr>) (s1\<lparr>next_task := 1\<rparr>)"
  obtain c3 s3 where i: "asm_pendsv_handler (\<lambda>_. 0) (demo_arm_core, ?s2) = (c3, s3)"
    by (cases "asm_pendsv_handler (\<lambda>_. 0) (demo_arm_core, ?s2)")
  have n: "frame_words (arm_lr demo_arm_core) = 26" by (simp add: frame_words_def demo_arm_core_def)
  have p: "(0x20001F98 :: u32) = psp_reg (mcu ?s) - 4 * of_nat (frame_words (arm_lr demo_arm_core))"
    by (simp add: n demo_stacks_def)
  have d: "words 0x20001F98 (frame_words (arm_lr demo_arm_core)) \<inter> MPU_regs = {}"
    unfolding n by (rule words_below [where b = "0xE0000000"]) auto
  have e: "words 0x20001F98 (frame_words (arm_lr demo_arm_core)) \<inter>
      words (psp_reg (mcu ?s2) - 4 * of_nat (frame_words (arm_lr demo_arm_core))) (frame_words (arm_lr demo_arm_core)) = {}"
    unfolding n by (rule words_disjoint) (simp_all add: on_mcu_def)
  have "psp_reg (mcu s3) = psp_reg (mcu ?s) \<and> (\<forall>r. 4 \<le> r \<and> r \<le> 11 \<longrightarrow> arm_r c3 r = arm_r demo_arm_core r)"
    using arm_task_resumes [OF o p d _ _ i _ _ e] handler_out(2) [OF o p]
    by (simp add: demo_stacks_def on_mcu_def load_def)
  then show ?thesis using o i by (auto simp: demo_stacks_def demo_arm_core_def)
qed

text \<open>
  C31. The first activation of a task on ARM: from the frame of \<open>arch_task_stack_init\<close> the handler returns to
  unprivileged thread mode on the stack of the task, where the frame of the processor holds the argument of the task, \<open>resolve_end\<close> as
  return address, and the function of the task as the next instruction. This frame ends one word below the end of the stack.
\<close>

theorem arm_first_start:
  assumes init: "s1 = arm_task_stack_init P i f a s" and p: "p = PSP_Array s1 i"
    and dev: "words p 18 \<inter> MPU_regs = {}"
    and stk: "23 < TASK_STACK_SIZE P" "unat (PSP_Array s i) + 4 * TASK_STACK_SIZE P \<le> 2 ^ 32"
    and keep: "PSP_Array s2 i = p" "\<forall>x \<in> words p 18. load s2 x = load s1 x"
    and sw: "asm_pendsv_handler T (c, s2) = (c', s')" "unat (next_task s2) = i" "current_task s2 \<noteq> next_task s2"
    and dis: "words p 18 \<inter> words (psp_reg (mcu s2) - 4 * of_nat (frame_words (arm_lr c))) (frame_words (arm_lr c)) = {}"
  shows "arm_lr c' = 0xFFFFFFFD \<and> arm_control c' = 3 \<and>
    (let psp = psp_reg (mcu s') in load s' psp = a \<and> load s' (psp + 20) = resolve_end_addr P \<and>
       load s' (psp + 24) = f \<and> load s' (psp + 28) = 0x01000000 \<and>
       unat psp + 36 = unat (PSP_Array s i) + 4 * TASK_STACK_SIZE P)"
proof -
  have pe: "p = PSP_Array s i + of_nat (TASK_STACK_SIZE P - 1) * 4 - 18 * 4"
    by (simp add: p init arm_task_stack_init_def on_mcu_def Let_def)
  have mem: "load s1 x = (if x = p + 4 * 17 then 0x01000000 else if x = p + 4 * 16 then f
      else if x = p + 4 * 15 then resolve_end_addr P else if x = p + 4 * 10 then a else if x = p + 4 * 1 then 0x3
      else if x = p + 4 * 0 then 0xFFFFFFFD else load s x)" for x
    unfolding pe by (simp add: init arm_task_stack_init_def load_def on_mcu_def mem_stores Let_def)
  have l2: "load s2 (p + 4 * of_nat k) = load s1 (p + 4 * of_nat k)" if "k < 18" for k
    using keep(2) in_words [OF that] by blast
  define c0 where "c0 = \<lparr>arm_r = (\<lambda>r. load s2 (p + 4 * of_nat (r - 2))), arm_s = (\<lambda>_. 0), arm_lr = 0xFFFFFFFD,
    arm_control = 3, arm_msp = 0\<rparr>"
  have n: "frame_words (arm_lr c0) = 10" by (simp add: c0_def frame_words_def)
  have fr: "pendsv_frame p c0 s2"
    using l2 [of 0] l2 [of 1] by (auto simp: pendsv_frame_def c0_def mem)
  have sub: "words p 10 \<subseteq> words p 18" by (auto simp: words_def)
  have d: "words p (frame_words (arm_lr c0)) \<inter> MPU_regs = {}" "words p (frame_words (arm_lr c0)) \<inter>
      words (psp_reg (mcu s2) - 4 * of_nat (frame_words (arm_lr c))) (frame_words (arm_lr c)) = {}"
    unfolding n using sub dev dis by blast+
  note h = handler_in [OF sw(1) fr keep(1) [folded sw(2)] sw(3) [symmetric] d]
  have psp: "psp_reg (mcu s') = p + 40" using h(5) by (simp add: n)
  have l3: "load s' (p + 4 * of_nat k) = load s1 (p + 4 * of_nat k)" if "k < 18" for k
  proof -
    have "p + 4 * of_nat k \<notin> MPU_regs"
      "p + 4 * of_nat k \<notin> words (psp_reg (mcu s2) - 4 * of_nat (frame_words (arm_lr c))) (frame_words (arm_lr c))"
      using in_words [OF that, of p] dev dis by blast+
    then show ?thesis using handler_out(4) [OF sw(1) refl] l2 [OF that] by simp
  qed
  have fr3: "load s' (p + 40) = a" "load s' (p + 40 + 20) = resolve_end_addr P" "load s' (p + 40 + 24) = f"
    "load s' (p + 40 + 28) = 0x01000000"
    using l3 [of 10] l3 [of 15] l3 [of 16] l3 [of 17] by (simp_all add: mem add.assoc)
  let ?n = "TASK_STACK_SIZE P"
  have "p + 40 = PSP_Array s i + of_nat (4 * (?n - 9))"
    using stk(1) by (simp add: pe of_nat_diff algebra_simps)
  moreover have "unat (PSP_Array s i + of_nat (4 * (?n - 9))) = unat (PSP_Array s i) + 4 * (?n - 9)"
  proof -
    have "unat (of_nat (4 * (?n - 9)) :: u32) = 4 * (?n - 9)" using stk by (intro unat_of_nat_u32) simp
    then show ?thesis using stk by (simp add: unat_word_ariths del: of_nat_mult)
  qed
  ultimately have "unat (p + 40) = unat (PSP_Array s i) + 4 * (?n - 9)" by (simp only:)
  then have "unat (p + 40) + 36 = unat (PSP_Array s i) + 4 * ?n" using stk(1) by simp
  then show ?thesis unfolding psp Let_def using fr3 h(1,2) by (simp add: c0_def)
qed

theorem arm_first_start_witness:
  "\<exists>c' s'. asm_pendsv_handler (\<lambda>_. 0) (demo_arm_core, (arm_task_stack_init demo_params 2 0x4001 9
      ((demo_stacks 0x20002000)\<lparr>PSP_Array := \<lambda>_. 0x20001000\<rparr>))) = (c', s') \<and> arm_control c' = 3 \<and> load s' (psp_reg (mcu s')) = 9"
proof -
  let ?s = "(demo_stacks 0x20002000)\<lparr>PSP_Array := \<lambda>_. 0x20001000\<rparr>"
  let ?s1 = "arm_task_stack_init demo_params 2 0x4001 9 ?s"
  obtain c' s' where i: "asm_pendsv_handler (\<lambda>_. 0) (demo_arm_core, ?s1) = (c', s')"
    by (cases "asm_pendsv_handler (\<lambda>_. 0) (demo_arm_core, ?s1)")
  have p: "PSP_Array ?s1 2 = 0x200011B4" by (simp add: arm_task_stack_init_def Let_def demo_params_def)
  have n: "frame_words (arm_lr demo_arm_core) = 26" by (simp add: frame_words_def demo_arm_core_def)
  have q: "psp_reg (mcu ?s1) - 4 * of_nat 26 = 0x20001F98"
    by (simp add: arm_task_stack_init_def demo_stacks_def on_mcu_def mem_store_def Let_def)
  have d: "words (PSP_Array ?s1 2) 18 \<inter> MPU_regs = {}" unfolding p by (rule words_below [where b = "0xE0000000"]) auto
  have e: "words (PSP_Array ?s1 2) 18 \<inter> words (psp_reg (mcu ?s1) - 4 * of_nat (frame_words (arm_lr demo_arm_core)))
      (frame_words (arm_lr demo_arm_core)) = {}"
    unfolding p n q by (rule words_disjoint) simp_all
  have t: "current_task ?s1 = 1" "next_task ?s1 = 2"
    by (simp_all add: arm_task_stack_init_def demo_stacks_def on_mcu_def Let_def)
  have "arm_control c' = 3 \<and> load s' (psp_reg (mcu s')) = 9"
    using arm_first_start [OF refl refl d _ _ refl _ i _ _ e] t by (auto simp: demo_params_def Let_def)
  then show ?thesis using i by blast
qed

end
