(* ===== verification/ArmCalls.thy ===== *)
theory ArmCalls
  imports ArmAsmProps SvcProps
begin

text \<open>
  Supervisor calls on ARM: the handler in assembly finds the code and the arguments, and gives the result of the service
  to the caller.
\<close>

section \<open>The handler\<close>

lemma asm_svc_call_keeps [simp]:
  "r \<notin> {0, 1, 2, 3, 12} \<Longrightarrow> arm_r (asm_svc_call vol v c s) r = arm_r c r"
  "arm_msp (asm_svc_call vol v c s) = arm_msp c" "arm_s (asm_svc_call vol v c s) = arm_s c"
  "arm_control (asm_svc_call vol v c s) = arm_control c"
  by (simp_all add: asm_svc_call_def)

text \<open>What the rounds keep: the registers 7 to 11, the stack pointer of the kernel and the control register.\<close>

definition same_frame :: "arm_core \<Rightarrow> arm_core \<Rightarrow> bool" where
  "same_frame c c' \<longleftrightarrow> (\<forall>r. 7 \<le> r \<and> r \<le> 11 \<longrightarrow> arm_r c' r = arm_r c r) \<and> arm_msp c' = arm_msp c \<and>
     arm_control c' = arm_control c \<and> arm_s c' = arm_s c"

lemma svc_cycle_keeps:
  assumes "asm_svc_cycle A vol (c, s) = Some (c', s')"
  shows "same_frame c c'"
proof -
  have "same_frame (fst cs) (fst r)" if "asm_svc_cycle A vol cs = Some r" for cs r
    using that
  proof (rule asm_svc_cycle.raw_induct [where P = "\<lambda>A vol cs (r :: arm_core \<times> kstate). same_frame (fst cs) (fst r)", rotated],
      goal_cases)
    case (1 cyc A vol cs r)
    have ih: "same_frame (fst cs') (fst r)" if "cyc A vol cs' = Some r" for cs' using 1(1) that by blast
    show ?case
    proof (cases "map_of svc_dispatch (arm_r (fst cs) 2)")
      case None
      then show ?thesis using 1(2) by (auto simp: Let_def same_frame_def)
    next
      case (Some svc)
      then obtain v s3 where "(let c1 = asm_svc_call vol v (fst cs) s3
          in if arm_r c1 2 = arm_r c1 3 then Some (c1, s3) else cyc A vol (c1, s3)) = Some r"
        using 1(2) by (auto simp: Let_def bind_eq_Some_conv)
      then have "same_frame (asm_svc_call vol v (fst cs) s3) (fst r)"
        using ih by (fastforce simp: Let_def same_frame_def split: if_splits)
      then show ?thesis by (simp add: same_frame_def)
    qed
  qed
  from this [OF assms] show ?thesis by simp
qed

text \<open>The six words below the kernel's stack pointer: the code, \<open>EXC_RETURN\<close> and the registers 4 to 7.\<close>

lemma svc_prologue_frame:
  assumes "asm_svc_prologue (c, s) = (c1, s1)" and q: "q = arm_msp c - 24"
  shows "map (load s1 \<circ> (+) q) [0, 4, 8, 12, 16, 20] =
      [ldrb (load s (svc_frame c s + 24) - 2) (mcu s), arm_lr c, arm_r c 4, arm_r c 5, arm_r c 6, arm_r c 7]"
    "arm_r c1 1 = svc_frame c s" "arm_r c1 2 = ldrb (load s (svc_frame c s + 24) - 2) (mcu s)" "arm_r c1 7 = q"
    "arm_msp c1 = q" "\<And>r. r \<notin> {1, 2, 7} \<Longrightarrow> arm_r c1 r = arm_r c r" "arm_control c1 = arm_control c" "arm_s c1 = arm_s c"
    "\<And>x. x \<notin> words q 6 \<Longrightarrow> load s1 x = load s x" "psp_reg (mcu s1) = psp_reg (mcu s)" "current_task s1 = current_task s"
proof -
  have r: "[4..<8] = [4, 5, 6, 7 :: nat]" by (simp add: upt_rec)
  have s1: "s1 = store q (ldrb (load s (svc_frame c s + 24) - 2) (mcu s)) (store (q + 4) (arm_lr c)
      (store (q + 20) (arm_r c 7) (store (q + 16) (arm_r c 6) (store (q + 12) (arm_r c 5) (store (q + 8) (arm_r c 4) s)))))"
    "c1 = c\<lparr>arm_r := (arm_r c)(1 := svc_frame c s, 2 := ldrb (load s (svc_frame c s + 24) - 2) (mcu s), 7 := q), arm_msp := q\<rparr>"
    using assms(1) by (auto simp: asm_svc_prologue_def Let_def svc_regs_def r q add.assoc)
  show "map (load s1 \<circ> (+) q) [0, 4, 8, 12, 16, 20] =
      [ldrb (load s (svc_frame c s + 24) - 2) (mcu s), arm_lr c, arm_r c 4, arm_r c 5, arm_r c 6, arm_r c 7]"
    by (simp add: s1(1))
  show "load s1 x = load s x" if "x \<notin> words q 6" for x
    using that by (auto simp: s1(1) words_Suc numeral_eq_Suc add.assoc add.commute)
  show "arm_r c1 1 = svc_frame c s" "arm_r c1 2 = ldrb (load s (svc_frame c s + 24) - 2) (mcu s)" "arm_r c1 7 = q"
    "arm_msp c1 = q" "\<And>r. r \<notin> {1, 2, 7} \<Longrightarrow> arm_r c1 r = arm_r c r" "arm_control c1 = arm_control c" "arm_s c1 = arm_s c"
    by (simp_all add: s1(2))
  show "psp_reg (mcu s1) = psp_reg (mcu s)" "current_task s1 = current_task s"
    by (simp_all add: s1(1)) (simp add: store_def on_mcu_def mem_store_def)
qed

lemma svc_epilogue_result:
  assumes "asm_svc_epilogue (c, s) = (c', s')"
  shows "arm_lr c' = load s (arm_r c 7 + 4)" "arm_msp c' = arm_r c 7 + 24" "arm_control c' = arm_control c"
    "map (arm_r c') [4, 5, 6, 7] = map (load s \<circ> (+) (arm_r c 7)) [8, 12, 16, 20]"
    "\<And>r. 8 \<le> r \<Longrightarrow> arm_r c' r = arm_r c r" "s' = store (svc_frame c' s) (arm_r c 0) s"
proof -
  have r: "svc_regs = [4, 5, 6, 7]" by (simp add: svc_regs_def upt_rec)
  show "arm_lr c' = load s (arm_r c 7 + 4)" "arm_msp c' = arm_r c 7 + 24" "arm_control c' = arm_control c"
    "map (arm_r c') [4, 5, 6, 7] = map (load s \<circ> (+) (arm_r c 7)) [8, 12, 16, 20]"
    "\<And>r. 8 \<le> r \<Longrightarrow> arm_r c' r = arm_r c r" "s' = store (svc_frame c' s) (arm_r c 0) s"
    using assms by (auto simp: asm_svc_epilogue_def Let_def load_gprs_def r add.assoc)
qed

text \<open>
  C34. A supervisor call on ARM, from thread or from handler mode: the service code is the byte below the return
  address, and the services see the caller's registers 0 to 3 as their arguments. When they end,
  having left the kernel's frame and the caller's stack pointer alone, the handler returns with the result of the last
  service in register 0 of the caller, and with the stack pointer, \<open>EXC_RETURN\<close> and the registers 4 to 11 as they were.
\<close>

theorem arm_call_returns:
  assumes q: "q = arm_msp c - 24" and dis: "words (svc_frame c s) 4 \<inter> words q 6 = {}"
    and run: "asm_svc_prologue (c, s) = (c1, s1)" "asm_svc_cycle A vol (c1, s1) = Some (c2, s2)"
    and keep: "\<forall>x \<in> words (q + 4) 5. load s2 x = load s1 x" "psp_reg (mcu s2) = psp_reg (mcu s)"
  shows "arm_r c1 2 = ldrb (load s (svc_frame c s + 24) - 2) (mcu s) \<and>
    (\<forall>k < 4. load s1 (arm_r c1 1 + 4 * of_nat k) = load s (svc_frame c s + 4 * of_nat k)) \<and>
    (\<exists>c3. asm_svc_handler A vol (c, s) = Some (c3, store (svc_frame c s) (arm_r c2 0) s2) \<and> arm_lr c3 = arm_lr c \<and>
       arm_msp c3 = arm_msp c \<and> arm_control c3 = arm_control c \<and> (\<forall>r. 4 \<le> r \<and> r \<le> 11 \<longrightarrow> arm_r c3 r = arm_r c r))"
proof -
  note f = svc_prologue_frame [OF run(1) q]
  have k: "arm_r c2 r = arm_r c1 r" if "7 \<le> r" "r \<le> 11" for r
    using svc_cycle_keeps [OF run(2)] that by (simp add: same_frame_def)
  have k': "arm_msp c2 = arm_msp c1" "arm_control c2 = arm_control c1"
    using svc_cycle_keeps [OF run(2)] by (simp_all add: same_frame_def)
  obtain c3 s3 where e: "asm_svc_epilogue (c2, s2) = (c3, s3)" by (cases "asm_svc_epilogue (c2, s2)")
  note r = svc_epilogue_result [OF e, unfolded k [of 7, simplified] f(4)]
  have w: "q + d \<in> words (q + 4) 5" if "d \<in> {4, 8, 12, 16, 20}" for d
    using that by (auto simp: words_Suc numeral_eq_Suc add.assoc)
  have l: "load s2 (q + d) = load s1 (q + d)" if "d \<in> {4, 8, 12, 16, 20}" for d
    using keep(1) w [OF that] by blast
  have lr: "arm_lr c3 = arm_lr c" using r(1) f(1) l [of 4] by simp
  have msp: "arm_msp c3 = arm_msp c" using r(2) by (simp add: q)
  have m: "map (arm_r c3) [4, 5, 6, 7] = map (arm_r c) [4, 5, 6, 7]"
    using r(4) f(1) l [of 8] l [of 12] l [of 16] l [of 20] by simp
  have regs: "arm_r c3 i = arm_r c i" if i: "4 \<le> i" "i \<le> 11" for i
  proof (cases "8 \<le> i")
    case True
    then show ?thesis using r(5) k [of i] f(6) [of i] i by simp
  next
    case False
    then have "i \<in> {4, 5, 6, 7}" using i by (auto simp: le_Suc_eq numeral_eq_Suc)
    then show ?thesis using m by auto
  qed
  have "svc_frame c3 s2 = svc_frame c s" by (simp add: svc_frame_def lr msp keep(2))
  then have "asm_svc_handler A vol (c, s) = Some (c3, store (svc_frame c s) (arm_r c2 0) s2)"
    using e r(6) by (simp add: asm_svc_handler_def run)
  moreover have "\<forall>k < 4. load s1 (arm_r c1 1 + 4 * of_nat k) = load s (svc_frame c s + 4 * of_nat k)"
    unfolding f(2) using f(9) in_words [of _ 4 "svc_frame c s"] dis by blast
  ultimately show ?thesis using f(3,7) k' lr msp r(3) regs by auto
qed

text \<open>A task without the right asks for a permission: one service runs and refuses.\<close>

lemma refused_round:
  assumes "arm_r c 2 = GRANT_PERMISSION" and "current_task s \<noteq> 0" and "load (asm_svc_push c s) (arm_r c 7) = GRANT_PERMISSION"
  shows "asm_svc_cycle A vol (c, s) =
    Some (asm_svc_call vol ERROR_INSUFFICIENT_PERMISSION c (asm_svc_push c s), asm_svc_push c s)"
proof -
  have m: "map_of svc_dispatch GRANT_PERMISSION = Some svc_service_grant_permission" by (simp add: svc_dispatch_def)
  have cur: "current_task (asm_svc_push c s) \<noteq> 0" using assms(2) by (simp add: asm_svc_push_def)
  have g: "arm_r (asm_svc_call vol v c (asm_svc_push c s)) 2 = arm_r (asm_svc_call vol v c (asm_svc_push c s)) 3" for v
    using assms(1,3) by (simp add: asm_svc_call_def asm_svc_push_def add.assoc)
  show ?thesis
    by (subst asm_svc_cycle.simps)
      (simp add: Let_def assms(1) m svc_service_grant_permission_def cur svc_writes_def g)
qed

definition demo_call_state :: kstate where
  "demo_call_state = demo_state\<lparr>current_task := 1, mcu := demo_mcu\<lparr>psp_reg := 0x20002000,
     mem := (mem demo_mcu)(0x20002018 := 0x4102, 0x4100 := 0xDF00 OR GRANT_PERMISSION)\<rparr>\<rparr>"

theorem arm_call_returns_witness:
  "\<exists>c3 s3. asm_svc_handler demo_arm demo_arm_core (demo_arm_core, demo_call_state) = Some (c3, s3) \<and>
    load s3 0x20002000 = ERROR_INSUFFICIENT_PERMISSION \<and> arm_r c3 7 = 7"
proof -
  let ?c = demo_arm_core and ?s = demo_call_state
  obtain c1 s1 where r: "asm_svc_prologue (?c, ?s) = (c1, s1)" by (cases "asm_svc_prologue (?c, ?s)")
  have q: "(0x20006FE8 :: u32) = arm_msp ?c - 24" by (simp add: demo_arm_core_def)
  have fr: "svc_frame ?c ?s = 0x20002000" by (simp add: svc_frame_def demo_arm_core_def demo_call_state_def)
  have code: "ldrb (load ?s (0x20002000 + 24) - 2) (mcu ?s) = GRANT_PERMISSION"
    by (simp add: demo_call_state_def load_def ldrb_def)
  have d: "words (svc_frame ?c ?s) 4 \<inter> words 0x20006FE8 6 = {}" unfolding fr by (rule words_disjoint) simp_all
  note f = svc_prologue_frame [OF r q, unfolded code fr]
  let ?s2 = "asm_svc_push c1 s1"
  have push: "load ?s2 x = load s1 x" if "x \<notin> words 0x20006FE0 2" for x
    unfolding asm_svc_push_def f(5) using that by (subst load_store_all_other) (simp_all add: numeral_2_eq_2)
  have dw: "words 0x20006FE0 2 \<inter> words 0x20006FE8 6 = {}" by (rule words_disjoint) simp_all
  have sub: "words (0x20006FE8 + 4) 5 \<subseteq> words 0x20006FE8 6" "0x20006FE8 \<in> words 0x20006FE8 6"
    by (auto simp: words_Suc numeral_eq_Suc)
  have "0x20006FE8 \<notin> words 0x20006FE0 2" using sub(2) dw by blast
  then have "load ?s2 0x20006FE8 = GRANT_PERMISSION" using push f(1) by simp
  then have cy: "asm_svc_cycle demo_arm ?c (c1, s1) =
      Some (asm_svc_call ?c ERROR_INSUFFICIENT_PERMISSION c1 ?s2, ?s2)"
    using f(3,4,11) by (intro refused_round) (simp_all add: demo_call_state_def)
  have kp: "\<forall>x \<in> words (0x20006FE8 + 4) 5. load ?s2 x = load s1 x" using push sub(1) dw by blast
  have ps: "psp_reg (mcu ?s2) = psp_reg (mcu ?s)"
    using f(10) by (simp add: asm_svc_push_def store_def on_mcu_def mem_store_def)
  obtain c3 where c3: "asm_svc_handler demo_arm ?c (?c, ?s) = Some (c3, store 0x20002000
      (arm_r (asm_svc_call ?c ERROR_INSUFFICIENT_PERMISSION c1 ?s2) 0) ?s2)" "arm_r c3 7 = arm_r ?c 7"
    using arm_call_returns [OF q d r cy kp ps] unfolding fr by auto
  have "arm_r ?c 7 = 7" "arm_r (asm_svc_call ?c ERROR_INSUFFICIENT_PERMISSION c1 ?s2) 0 = ERROR_INSUFFICIENT_PERMISSION"
    by (simp_all add: demo_arm_core_def asm_svc_call_def)
  with c3 show ?thesis by auto
qed

end
