(* ===== verification/MpuTable.thy ===== *)
theory MpuTable
  imports SvrUmpu
begin

text \<open>
  Memory protection on ARM: the table of stack regions and the constants that \<^verbatim>\<open>objgen/objgen.py\<close> and
  \<^verbatim>\<open>arch/arm-m3m4/script/devattrb.py\<close> generate for a build, and what a task can write with the regions of
  \<open>arch_mpu_init\<close> and of the context switch.
\<close>

section \<open>Region sizes (mpu.h)\<close>

definition MPU_REGION_SIZE :: "(nat \<times> u32) list" where
  "MPU_REGION_SIZE = [
     (32, 0b00100), (64, 0b00101), (128, 0b00110), (256, 0b00111), (512, 0b01000),
     (1 * 1024, 0b01001), (2 * 1024, 0b01010), (4 * 1024, 0b01011), (8 * 1024, 0b01100), (16 * 1024, 0b01101),
     (32 * 1024, 0b01110), (64 * 1024, 0b01111), (128 * 1024, 0b10000), (256 * 1024, 0b10001), (512 * 1024, 0b10010),
     (1 * 1048576, 0b10011), (2 * 1048576, 0b10100), (4 * 1048576, 0b10101), (8 * 1048576, 0b10110),
     (16 * 1048576, 0b10111), (32 * 1048576, 0b11000), (64 * 1048576, 0b11001), (128 * 1048576, 0b11010),
     (256 * 1048576, 0b11011), (512 * 1048576, 0b11100),
     (1 * 1073741824, 0b11101), (2 * 1073741824, 0b11110), (4 * 1073741824, 0b11111)]"

text \<open>Every code means the size its name says: a region has \<open>2 ^ (code + 1)\<close> bytes.\<close>

lemma region_size_code: "(bytes, code) \<in> set MPU_REGION_SIZE \<Longrightarrow> bytes = 2 ^ (unat code + 1)"
  by (auto simp: MPU_REGION_SIZE_def)

section \<open>The generated constants\<close>

record build =
  kernel_section_size :: nat
  upper_region_size :: nat
  ghmb_region_size :: nat
  task_stack_size :: nat

definition max_task_count :: "build \<Rightarrow> nat" where
  "max_task_count G =
     (kernel_section_size G - (upper_region_size G + ghmb_region_size G)) * 1024 div task_stack_size G"

definition proc_heap_address :: "build \<Rightarrow> nat \<Rightarrow> nat" where
  "proc_heap_address G kernel_sram_address = kernel_sram_address + upper_region_size G * 1024"

text \<open>The loop shifts the number to the right until it is 0.\<close>

fun shift_count :: "nat \<Rightarrow> nat" where
  "shift_count number = (if 0 < number then Suc (shift_count (number div 2)) else 0)"

declare shift_count.simps [simp del]

definition next_power_of_2 :: "nat \<Rightarrow> nat" where
  "next_power_of_2 temp =
     (let number = 2 ^ shift_count temp in if temp * 2 = number then temp else number)"

text \<open>\<open>int(8 - (next - size) * 8 / next)\<close> with the fraction cut off.\<close>

definition srd_bit :: "nat \<Rightarrow> nat" where
  "srd_bit kb =
     (let next_fit = next_power_of_2 kb;
          srd_shift = (8 * next_fit - (next_fit - kb) * 8) div next_fit
      in 255 AND push_bit srd_shift 255)"

text \<open>The name of a size; the empty string of an unsupported one does not compile.\<close>

definition pstack_size_to_string :: "nat \<Rightarrow> u32 option" where
  "pstack_size_to_string bytes =
     (if bytes = 512 then map_of MPU_REGION_SIZE 512
      else if bytes = 1024 then map_of MPU_REGION_SIZE 1024 else None)"

definition kernel_region_to_string :: "nat \<Rightarrow> u32 option" where
  "kernel_region_to_string kb =
     (let v = next_power_of_2 kb
      in if v = 8 \<or> v = 16 \<or> v = 32 \<or> v = 64 then map_of MPU_REGION_SIZE (v * 1024) else None)"

definition generate_pcs_mpu_table :: "build \<Rightarrow> nat \<Rightarrow> u32 \<Rightarrow> u32 list" where
  "generate_pcs_mpu_table G kernel_sram_address size_code =
     concat (map (\<lambda>i. [of_nat (proc_heap_address G kernel_sram_address + i * task_stack_size G + 23),
         push_bit 1 size_code OR MPU_KERNEL_DEFAULT OR push_bit 24 MPU_AP_PRW_URW OR MPU_REGION_ENABLE])
       [0..<max_task_count G])"

text \<open>\<open>P\<close> and \<open>E\<close> are what the scripts generate for the build \<open>G\<close>, with the kernel at the start of the RAM.\<close>

definition generated :: "build \<Rightarrow> params \<Rightarrow> arm_env \<Rightarrow> bool" where
  "generated G P E \<longleftrightarrow>
     KERNEL_START_ADDRESS P = 0x20000000 \<and> MAX_TASK_COUNT P = max_task_count G \<and>
     TASK_STACK_SIZE P = task_stack_size G div 4 \<and> HEAP_BOOKEEPING_SIZE P = ghmb_region_size G * 256 \<and>
     proc_heap_addr P = of_nat (proc_heap_address G 0x20000000) \<and>
     kernel_region_to_string (kernel_section_size G) = Some (KERNEL_REGION_SIZE E) \<and>
     pstack_size_to_string (task_stack_size G) = Some (MPU_PSTACK_SIZE E) \<and>
     KERNEL_REGION_SRD E = of_nat (srd_bit (kernel_section_size G)) \<and>
     (\<forall>i < 2 * max_task_count G. mpu_table E i = generate_pcs_mpu_table G 0x20000000 (MPU_PSTACK_SIZE E) ! i)"

text \<open>The sizes the README lists.\<close>

definition supported :: "build \<Rightarrow> bool" where
  "supported G \<longleftrightarrow> kernel_section_size G \<in> {8, 10, 12, 14, 16, 20, 24, 28, 32, 40, 48, 56, 64} \<and>
     upper_region_size G + ghmb_region_size G < kernel_section_size G"

section \<open>The protection unit\<close>

text \<open>
  As the architecture manual of ARMv7-M has it: a region matches an address when it is enabled, the address has the upper
  bits of the base, and, from 256 bytes on, the eighth of the region that holds the address is not disabled. The matching
  region with the highest number decides; 3 is the permission to write for every mode.
\<close>

definition mpu_hit :: "mpu_regs \<Rightarrow> nat \<Rightarrow> u32 \<Rightarrow> bool" where
  "mpu_hit d r x =
     (let a = rasr d (of_nat r); n = unat (take_bit 5 (drop_bit 1 a)) + 1
      in bit a 0 \<and> drop_bit n x = drop_bit n (rbar d (of_nat r)) \<and>
         (8 \<le> n \<longrightarrow> \<not> bit a (8 + unat (take_bit 3 (drop_bit (n - 3) x)))))"

definition user_write :: "mpu_regs \<Rightarrow> u32 \<Rightarrow> bool" where
  "user_write d x =
     (case find (\<lambda>r. mpu_hit d r x) [7, 6, 5, 4, 3, 2, 1, 0] of
        None \<Rightarrow> False
      | Some r \<Rightarrow> take_bit 3 (drop_bit 24 (rasr d (of_nat r))) = 3)"

text \<open>The addresses of the stack of a task.\<close>

definition task_stack :: "build \<Rightarrow> nat \<Rightarrow> nat set" where
  "task_stack G t = {proc_heap_address G 0x20000000 + t * task_stack_size G ..<
     proc_heap_address G 0x20000000 + t * task_stack_size G + task_stack_size G}"

section \<open>Regions and addresses\<close>

lemma unat_drop_bit: "unat (drop_bit n (x :: u32)) = unat x div 2 ^ n"
proof -
  have "unat x < 2 ^ LENGTH(32)" by (rule unsigned_less)
  then have "unat (drop_bit n x) = drop_bit n (unat x)" by (simp add: unsigned_drop_bit_eq take_bit_nat_eq_self)
  then show ?thesis by (simp only: drop_bit_eq_div)
qed

lemma drop_bit_eq_iff: "drop_bit n (x :: u32) = drop_bit n y \<longleftrightarrow> unat x div 2 ^ n = unat y div 2 ^ n"
  by (simp add: word_unat_eq_iff unat_drop_bit)

lemma div_block:
  assumes "B mod m = 0" and "0 < (m :: nat)"
  shows "x div m = B div m \<longleftrightarrow> B \<le> x \<and> x < B + m"
proof -
  obtain q where q: "B = m * q" using assms(1) by blast
  have "x div m = q \<longleftrightarrow> q \<le> x div m \<and> x div m < q + 1" by linarith
  also have "\<dots> \<longleftrightarrow> B \<le> x \<and> x < B + m"
    using assms(2) by (simp only: less_eq_div_iff_mult_less_eq div_less_iff_less_mult) (simp add: q algebra_simps)
  finally show ?thesis using assms(2) by (simp add: q)
qed

lemma sub_index:
  assumes "x = 8 * m * b + y" and "y < m * j" and "j \<le> 8" and "0 < (m :: nat)"
  shows "x div m mod 8 < j"
proof -
  have "x div m = 8 * b + y div m" using assms(1,4) by (simp add: mult.assoc div_mult_self4 mult.left_commute)
  moreover have "y div m < j" using assms(2) by (simp add: less_mult_imp_div_less mult.commute)
  ultimately show ?thesis using assms(3) by simp
qed

section \<open>The region of the kernel\<close>

abbreviation (input) kernel_sizes :: "nat list" where
  "kernel_sizes \<equiv> [8, 10, 12, 14, 16, 20, 24, 28, 32, 40, 48, 56, 64]"

lemma shift_count_eval:
  "shift_count 0 = 0" "shift_count (Suc 0) = 1"
  "shift_count (numeral (num.Bit0 k)) = Suc (shift_count (numeral k))"
  "shift_count (numeral (num.Bit1 k)) = Suc (shift_count (numeral k))"
  by (subst shift_count.simps; simp add: shift_count.simps [of 0])+

text \<open>The powers of two around the supported sizes, and the bits of their unused eighths.\<close>

lemma region_table:
  "map next_power_of_2 kernel_sizes = [8, 16, 16, 16, 16, 32, 32, 32, 32, 64, 64, 64, 64]"
  "map srd_bit kernel_sizes = [0, 0xE0, 0xC0, 0x80, 0, 0xE0, 0xC0, 0x80, 0, 0xE0, 0xC0, 0x80, 0]"
proof -
  show p: "map next_power_of_2 kernel_sizes = [8, 16, 16, 16, 16, 32, 32, 32, 32, 64, 64, 64, 64]"
    by (simp add: next_power_of_2_def shift_count_eval)
  show "map srd_bit kernel_sizes = [0, 0xE0, 0xC0, 0x80, 0, 0xE0, 0xC0, 0x80, 0, 0xE0, 0xC0, 0x80, 0]"
    using p by (simp add: srd_bit_def)
qed

definition kernel_rasr :: "u32 \<Rightarrow> u32 \<Rightarrow> u32" where
  "kernel_rasr code srd = push_bit 1 code OR MPU_KERNEL_DEFAULT OR push_bit 24 2 OR push_bit 8 srd OR 1"

text \<open>What a region register has to say for the first \<open>kb\<close> KB from the start of the RAM to be covered.\<close>

definition covers :: "u32 \<Rightarrow> nat \<Rightarrow> bool" where
  "covers a kb \<longleftrightarrow>
     (let n = unat (take_bit 5 (drop_bit 1 a)) + 1; j = 1024 * kb div 2 ^ (n - 3)
      in 13 \<le> n \<and> n \<le> 16 \<and> bit a 0 \<and> j \<le> 8 \<and> 1024 * kb = 2 ^ (n - 3) * j \<and>
         take_bit j (drop_bit 8 a) = 0 \<and> take_bit 3 (drop_bit 24 a) = 2)"

lemma covers_hit:
  assumes c: "covers (rasr d 6) kb" and b: "rbar d 6 = 0x20000000"
    and x: "0x20000000 \<le> unat x" "unat x < 0x20000000 + 1024 * kb"
  shows "mpu_hit d 6 x"
proof -
  obtain n j where h: "unat (take_bit 5 (drop_bit 1 (rasr d 6))) + 1 = n" "13 \<le> n" "n \<le> 16" "bit (rasr d 6) 0" "j \<le> 8"
    "1024 * kb = 2 ^ (n - 3) * j" "take_bit j (drop_bit 8 (rasr d 6)) = 0"
    using c unfolding covers_def Let_def by blast
  have sub: "\<not> bit (rasr d 6) (8 + i)" if "i < j" for i
    using arg_cong [OF h(7), of "\<lambda>w. bit w i"] that h(5) by (simp add: bit_take_bit_iff bit_drop_bit_eq)
  have n: "n = 13 \<or> n = 14 \<or> n = 15 \<or> n = 16" using h(2,3) by linarith
  have pow: "(2::nat) ^ n = 8 * 2 ^ (n - 3)" using n by auto
  have blk: "(0x20000000 :: nat) mod 2 ^ n = 0" using n by auto
  have le: "1024 * kb \<le> 2 ^ n" unfolding h(6) pow using h(5) by simp
  have "unat x div 2 ^ n = 0x20000000 div 2 ^ n" using x le div_block [OF blk] by simp
  then have hi: "drop_bit n x = drop_bit n (rbar d 6)" by (simp add: drop_bit_eq_iff b)
  obtain q where q: "(0x20000000 :: nat) = 8 * 2 ^ (n - 3) * q" using blk unfolding pow by blast
  have "unat x div 2 ^ (n - 3) mod 8 < j"
  proof (rule sub_index)
    show "unat x = 8 * 2 ^ (n - 3) * q + (unat x - 0x20000000)" using x(1) unfolding q [symmetric] by simp
    show "unat x - 0x20000000 < 2 ^ (n - 3) * j" using x unfolding h(6) [symmetric] by simp
  qed (use h(5) in simp_all)
  moreover have "unat (take_bit 3 (drop_bit (n - 3) x)) = unat x div 2 ^ (n - 3) mod 8"
    by (simp only: unsigned_take_bit_eq unat_drop_bit) (simp add: take_bit_eq_mod)
  ultimately have "\<not> bit (rasr d 6) (8 + unat (take_bit 3 (drop_bit (n - 3) x)))" using sub by simp
  then show ?thesis using h(4) hi unfolding mpu_hit_def of_nat_numeral Let_def h(1) by blast
qed

lemma rasr_values:
  "kernel_rasr 12 0 = 0x12060019" "kernel_rasr 13 0xE0 = 0x1206E01B" "kernel_rasr 13 0xC0 = 0x1206C01B"
  "kernel_rasr 13 0x80 = 0x1206801B" "kernel_rasr 13 0 = 0x1206001B" "kernel_rasr 14 0xE0 = 0x1206E01D"
  "kernel_rasr 14 0xC0 = 0x1206C01D" "kernel_rasr 14 0x80 = 0x1206801D" "kernel_rasr 14 0 = 0x1206001D"
  "kernel_rasr 15 0xE0 = 0x1206E01F" "kernel_rasr 15 0xC0 = 0x1206C01F" "kernel_rasr 15 0x80 = 0x1206801F"
  "kernel_rasr 15 0 = 0x1206001F"
  by (simp_all add: kernel_rasr_def MPU_KERNEL_DEFAULT_def)

lemma covers_values:
  "covers 0x12060019 8" "covers 0x1206E01B 10" "covers 0x1206C01B 12" "covers 0x1206801B 14" "covers 0x1206001B 16"
  "covers 0x1206E01D 20" "covers 0x1206C01D 24" "covers 0x1206801D 28" "covers 0x1206001D 32"
  "covers 0x1206E01F 40" "covers 0x1206C01F 48" "covers 0x1206801F 56" "covers 0x1206001F 64"
  by (simp_all add: covers_def)

lemma kernel_codes:
  "map kernel_region_to_string kernel_sizes = map Some [12, 13, 13, 13, 13, 14, 14, 14, 14, 15, 15, 15, 15]"
  using region_table(1) by (simp add: kernel_region_to_string_def MPU_REGION_SIZE_def)

lemma kernel_covers:
  assumes "kb \<in> set kernel_sizes" and "kernel_region_to_string kb = Some c"
  shows "covers (kernel_rasr c (of_nat (srd_bit kb))) kb"
proof -
  have "list_all (\<lambda>k. covers (kernel_rasr (the (kernel_region_to_string k)) (of_nat (srd_bit k))) k) kernel_sizes"
    using region_table(2) kernel_codes by (simp add: rasr_values covers_values)
  then show ?thesis using assms unfolding list_all_iff by force
qed

section \<open>The region of the running task\<close>

lemma nth_pairs:
  assumes "t < n"
  shows "concat (map (\<lambda>i. [f i, g i]) [0..<n]) ! (2 * t) = f t"
    and "concat (map (\<lambda>i. [f i, g i]) [0..<n]) ! (2 * t + 1) = g t"
proof -
  have len: "length (concat (map (\<lambda>i. [f i, g i]) [0..<n])) = 2 * n" for n by (induction n) simp_all
  have "concat (map (\<lambda>i. [f i, g i]) [0..<n]) ! (2 * t) = f t \<and>
      concat (map (\<lambda>i. [f i, g i]) [0..<n]) ! (2 * t + 1) = g t"
    using assms by (induction n) (auto simp: nth_append len less_Suc_eq)
  then show "concat (map (\<lambda>i. [f i, g i]) [0..<n]) ! (2 * t) = f t"
    and "concat (map (\<lambda>i. [f i, g i]) [0..<n]) ! (2 * t + 1) = g t" by simp_all
qed

text \<open>The two sizes of a stack and their attributes.\<close>

definition task_rasr :: "u32 \<Rightarrow> u32" where
  "task_rasr c = push_bit 1 c OR MPU_KERNEL_DEFAULT OR push_bit 24 3 OR 0x00000001"

definition stack_region :: "u32 \<Rightarrow> nat \<Rightarrow> bool" where
  "stack_region a n \<longleftrightarrow> unat (take_bit 5 (drop_bit 1 a)) + 1 = n \<and> bit a 0 \<and> take_bit 8 (drop_bit 8 a) = 0 \<and>
     take_bit 3 (drop_bit 24 a) = 3"

lemma stack_sizes:
  assumes "pstack_size_to_string ts = Some c"
  shows "ts = 512 \<and> stack_region (task_rasr c) 9 \<or> ts = 1024 \<and> stack_region (task_rasr c) 10"
  using assms
  by (auto simp: pstack_size_to_string_def MPU_REGION_SIZE_def task_rasr_def stack_region_def MPU_KERNEL_DEFAULT_def
      split: if_splits)

text \<open>The entry for the stack at \<open>A\<close> selects region 7, which then holds exactly the stack.\<close>

lemma stack_entry:
  assumes "A mod 512 = 0" and "A + 512 \<le> 2 ^ 32" and v: "v = (of_nat (A + 23) :: u32)"
  shows "unat v = A + 23" "bit v 4" "v AND 0xF = 7"
proof -
  obtain q where q: "A = 512 * q" using assms(1) by blast
  show u: "unat v = A + 23" unfolding v by (simp only: unat_of_nat) (use assms(2) in simp)
  have "(512 * q + 23) div 2 ^ 4 = 32 * q + 1" by simp
  then have "bit (unat v) 4" unfolding u q by (simp only: bit_iff_odd) simp
  then show "bit v 4" by (simp add: bit_unsigned_iff)
  have e: "512 * q + 23 = 7 + 16 * (32 * q + 1)" and p: "(2 :: nat) ^ 4 = 16" by simp_all
  have "(512 * q + 23) mod 2 ^ 4 = (7 :: nat)" unfolding e p mod_mult_self2 by simp
  then have "take_bit 4 (unat v) = 7" unfolding u q take_bit_eq_mod .
  then have "unat (take_bit 4 v) = unat (7 :: u32)" by (simp add: unsigned_take_bit_eq)
  then have "take_bit 4 v = 7" by (simp only: word_unat_eq_iff)
  then show "v AND 0xF = 7" by (simp add: take_bit_eq_mask mask_eq_exp_minus_1)
qed

lemma stack_hit:
  assumes a: "stack_region (rasr d 7) n" and n: "n = 9 \<or> n = 10"
    and A: "A mod 2 ^ n = 0" "A + 512 \<le> 2 ^ 32" and b: "rbar d 7 = of_nat (A + 23)"
  shows "mpu_hit d 7 x \<longleftrightarrow> A \<le> unat x \<and> unat x < A + 2 ^ n"
proof -
  have "A mod 512 = 0" using A(1) n by auto
  then have u: "unat (rbar d 7) = A + 23" unfolding b by (rule stack_entry(1) [OF _ A(2) refl])
  have "(A + 23) div 2 ^ n = A div 2 ^ n" using div_block [OF A(1), of "A + 23"] n by auto
  then have hi: "drop_bit n x = drop_bit n (rbar d 7) \<longleftrightarrow> A \<le> unat x \<and> unat x < A + 2 ^ n"
    using div_block [OF A(1), of "unat x"] by (simp add: drop_bit_eq_iff u)
  have z: "take_bit 8 (drop_bit 8 (rasr d 7)) = 0" using a by (simp add: stack_region_def)
  have sub: "\<not> bit (rasr d 7) (8 + i)" if "i < 8" for i
    using arg_cong [OF z, of "\<lambda>w. bit w i"] that
    by (simp add: bit_take_bit_iff bit_drop_bit_eq)
  have "unat (take_bit 3 (drop_bit (n - 3) x)) < 8"
    by (simp only: unsigned_take_bit_eq) (simp add: take_bit_eq_mod)
  then show ?thesis using a hi sub unfolding mpu_hit_def of_nat_numeral Let_def stack_region_def by auto
qed

text \<open>The context switch programs region 7 from the table and leaves the others.\<close>

lemma switch_regions:
  assumes "bit (table (2 * unat (next_task s))) 4" and "table (2 * unat (next_task s)) AND 0xF = 7"
  shows "mpu_after d (mcu (pendsv_handler table f f' s)) = (mpu_after d (mcu s))\<lparr>rnr := 7,
    rbar := (rbar (mpu_after d (mcu s)))(7 := table (2 * unat (next_task s))),
    rasr := (rasr (mpu_after d (mcu s)))(7 := table (2 * unat (next_task s) + 1))\<rparr>"
proof -
  have [simp]: "mpu_after d (m\<lparr>psp_reg := p\<rparr>) = mpu_after d m" for m p by (simp add: mpu_after_def)
  show ?thesis using assms by (simp add: pendsv_handler_def context_switch_def Let_def on_mcu_def mpu_store_def)
qed

lemma generated_entry:
  assumes "generated G P E" and "t < max_task_count G"
  shows "mpu_table E (2 * t) = of_nat (proc_heap_address G 0x20000000 + t * task_stack_size G + 23)"
    and "mpu_table E (2 * t + 1) = task_rasr (MPU_PSTACK_SIZE E)"
  using assms nth_pairs [OF assms(2)] by (simp_all add: generated_def generate_pcs_mpu_table_def task_rasr_def)

text \<open>The stacks lie between the upper region and the shared region at the end of the section.\<close>

lemma stacks_inside:
  assumes "t < max_task_count G"
  shows "proc_heap_address G b + t * task_stack_size G + task_stack_size G
    \<le> b + (kernel_section_size G - ghmb_region_size G) * 1024"
proof -
  let ?k = "kernel_section_size G - (upper_region_size G + ghmb_region_size G)"
  have "(t + 1) * task_stack_size G \<le> max_task_count G * task_stack_size G" using assms by (intro mult_right_mono) auto
  also have "\<dots> \<le> ?k * 1024" unfolding max_task_count_def by (rule div_times_less_eq_dividend)
  finally have le: "(t + 1) * task_stack_size G \<le> ?k * 1024" .
  show ?thesis
  proof (cases "?k = 0")
    case True
    then show ?thesis using assms by (simp add: max_task_count_def)
  next
    case False
    then have "upper_region_size G + ?k = kernel_section_size G - ghmb_region_size G" by simp
    then have "upper_region_size G * 1024 + ?k * 1024 = (kernel_section_size G - ghmb_region_size G) * 1024"
      by (simp only: add_mult_distrib [symmetric])
    then show ?thesis using le by (simp add: proc_heap_address_def)
  qed
qed

lemma stack_region_hit:
  assumes g: "generated G P E" and k: "supported G" and t: "t < max_task_count G"
  defines "v \<equiv> mpu_table E (2 * t)"
  shows "bit v 4" "v AND 0xF = 7"
    and "\<lbrakk>rbar d 7 = v; rasr d 7 = mpu_table E (2 * t + 1)\<rbrakk> \<Longrightarrow>
      take_bit 3 (drop_bit 24 (rasr d 7)) = 3 \<and> (mpu_hit d 7 x \<longleftrightarrow> unat x \<in> task_stack G t)"
proof -
  let ?A = "proc_heap_address G 0x20000000 + t * task_stack_size G"
  obtain n where n: "task_stack_size G = 2 ^ n" "n = 9 \<or> n = 10" "stack_region (task_rasr (MPU_PSTACK_SIZE E)) n"
  proof -
    have "pstack_size_to_string (task_stack_size G) = Some (MPU_PSTACK_SIZE E)" using g by (simp add: generated_def)
    from stack_sizes [OF this] show thesis using that [of 9] that [of 10] by auto
  qed
  have "kernel_section_size G \<le> 64" using k by (auto simp: supported_def)
  then have top: "?A + 512 \<le> 2 ^ 32" using stacks_inside [OF t, of "0x20000000"] n(1,2) by auto
  have al: "?A mod 2 ^ n = 0" "?A mod 512 = 0" using n(1,2) by (auto simp: proc_heap_address_def)
  note e = stack_entry [OF al(2) top] and ge = generated_entry [OF g t]
  show "bit v 4" "v AND 0xF = 7" unfolding v_def by (rule e(2,3) [OF ge(1)])+
  assume r: "rbar d 7 = v" "rasr d 7 = mpu_table E (2 * t + 1)"
  then have "stack_region (rasr d 7) n" and "rbar d 7 = of_nat (?A + 23)" using n(3) unfolding v_def ge by simp_all
  then show "take_bit 3 (drop_bit 24 (rasr d 7)) = 3 \<and> (mpu_hit d 7 x \<longleftrightarrow> unat x \<in> task_stack G t)"
    using stack_hit [OF _ n(2) al(1) top] by (simp add: stack_region_def task_stack_def n(1))
qed

text \<open>After \<open>arch_mpu_init\<close>, region 6 is the section of the kernel, which every mode may read and no task may write.\<close>

lemma init_region:
  assumes "generated G P E" and "0 < max_task_count G" and "supported G" and "arm_mpu_init P E s = (ERROR_NONE, s')"
  shows "rbar (mpu_after d (mcu s')) 6 = 0x20000000"
    and "covers (rasr (mpu_after d (mcu s')) 6) (kernel_section_size G)"
proof -
  note g = assms(1) [unfolded generated_def]
  have m: "HWREG MPUTYPE (mcu s) \<noteq> 0" using assms(4) by (auto simp: arm_mpu_init_def split: if_splits)
  have e: "bit (mpu_table E 0) 4 \<longrightarrow> mpu_table E 0 AND 0xF = 7"
    using stack_region_hit(2) [OF assms(1,3,2)] by simp
  have b: "KERNEL_START_ADDRESS P = 0x20000000" using g by blast
  from mpu_init_regions [OF m e b, of d] assms(4)
  have r: "rbar (mpu_after d (mcu s')) 6 = 0x20000000"
    "rasr (mpu_after d (mcu s')) 6 = kernel_rasr (KERNEL_REGION_SIZE E) (KERNEL_REGION_SRD E)"
    by (auto simp: kernel_rasr_def)
  show "rbar (mpu_after d (mcu s')) 6 = 0x20000000" by (rule r)
  have "kernel_section_size G \<in> set kernel_sizes" using assms(3) by (simp add: supported_def)
  then show "covers (rasr (mpu_after d (mcu s')) 6) (kernel_section_size G)"
    using kernel_covers [of "kernel_section_size G" "KERNEL_REGION_SIZE E"] g unfolding r by (simp only:)
qed

section \<open>Property\<close>

text \<open>
  C29. For the builds with the kernel at the start of the RAM, \<open>0x20000000\<close>, and one of the section sizes the README
  lists (\<open>generated\<close>, \<open>supported\<close>), after the context switch to a task, user code can write an address of the kernel's
  section of the RAM exactly when it is in the stack of that task, whatever the user's regions hold, as long as region 6
  is as \<open>arch_mpu_init\<close> left it; and the stack lies in the section, between the upper region and the shared one. The
  scripts accept other addresses and sizes, for which this is false: \<open>arch_mpu_init\<close> protects \<open>0x20000000\<close> all the same, and
  \<open>srd_bit\<close> rounds down, so the end of a section of 9 KB is open to every task.
\<close>

theorem arm_isolation:
  assumes g: "generated G P E" and k: "supported G" and i: "arm_mpu_init P E s0 = (ERROR_NONE, s1)"
    and kept: "rbar (mpu_after d (mcu s)) 6 = rbar (mpu_after d (mcu s1)) 6"
      "rasr (mpu_after d (mcu s)) 6 = rasr (mpu_after d (mcu s1)) 6"
    and t: "unat (next_task s) < MAX_TASK_COUNT P"
    and x: "0x20000000 \<le> unat x" "unat x < 0x20000000 + 1024 * kernel_section_size G"
  shows "(user_write (mpu_after d (mcu (pendsv_handler (mpu_table E) f f' s))) x \<longleftrightarrow>
      unat x \<in> task_stack G (unat (next_task s))) \<and>
    task_stack G (unat (next_task s)) \<subseteq> {0x20000000 + upper_region_size G * 1024 ..<
      0x20000000 + (kernel_section_size G - ghmb_region_size G) * 1024}"
proof -
  let ?d = "mpu_after d (mcu (pendsv_handler (mpu_table E) f f' s))"
  have n: "unat (next_task s) < max_task_count G" using t g by (simp add: generated_def)
  note h = stack_region_hit [OF g k n]
  note sw = switch_regions [of "mpu_table E" s, OF h(1,2)]
  have six: "mpu_hit ?d 6 x" "take_bit 3 (drop_bit 24 (rasr ?d 6)) = 2"
    using covers_hit [of ?d "kernel_section_size G" x] init_region [OF g _ k i] n x
    by (simp_all add: sw kept covers_def Let_def)
  have "take_bit 3 (drop_bit 24 (rasr ?d 7)) = 3 \<and> (mpu_hit ?d 7 x \<longleftrightarrow> unat x \<in> task_stack G (unat (next_task s)))"
    by (rule h(3)) (simp_all add: sw)
  then have "user_write ?d x \<longleftrightarrow> unat x \<in> task_stack G (unat (next_task s))"
    using six by (simp add: user_write_def)
  moreover have "task_stack G (unat (next_task s)) \<subseteq> {0x20000000 + upper_region_size G * 1024 ..<
      0x20000000 + (kernel_section_size G - ghmb_region_size G) * 1024}"
    using stacks_inside [OF n, of "0x20000000"] by (auto simp: task_stack_def proc_heap_address_def)
  ultimately show ?thesis ..
qed

text \<open>Eight stacks of 512 bytes from \<open>0x20001000\<close> on, in a section of 10 KB.\<close>

definition guard_build :: build where
  "guard_build = \<lparr>kernel_section_size = 10, upper_region_size = 4, ghmb_region_size = 2, task_stack_size = 512\<rparr>"

definition guard_params :: params where
  "guard_params = demo_params\<lparr>MAX_TASK_COUNT := 8, TASK_STACK_SIZE := 128, HEAP_BOOKEEPING_SIZE := 512,
     proc_heap_addr := of_nat (proc_heap_address guard_build 0x20000000)\<rparr>"

definition guard_env :: arm_env where
  "guard_env = demo_env\<lparr>KERNEL_REGION_SIZE := 13, KERNEL_REGION_SRD := 0xE0, MPU_PSTACK_SIZE := 8,
     mpu_table := (\<lambda>i. generate_pcs_mpu_table guard_build 0x20000000 8 ! i)\<rparr>"

definition guard_state :: kstate where
  "guard_state = umpu_demo\<lparr>next_task := 2\<rparr>"

lemma guard_generated: "generated guard_build guard_params guard_env" "supported guard_build"
proof -
  have "max_task_count guard_build = 8" by (simp add: max_task_count_def guard_build_def)
  moreover have "kernel_region_to_string 10 = Some 13" "srd_bit 10 = 0xE0" using kernel_codes region_table by simp_all
  ultimately show "generated guard_build guard_params guard_env"
    by (simp add: generated_def guard_params_def guard_env_def guard_build_def pstack_size_to_string_def
        MPU_REGION_SIZE_def demo_params_def)
  show "supported guard_build" by (simp add: supported_def guard_build_def)
qed

theorem arm_isolation_witness:
  "\<exists>s. arm_mpu_init guard_params guard_env guard_state = (ERROR_NONE, s) \<and>
    user_write (mpu_after mpu_reset (mcu (pendsv_handler (mpu_table guard_env) 0 0 s))) 0x20001400 \<and>
    \<not> user_write (mpu_after mpu_reset (mcu (pendsv_handler (mpu_table guard_env) 0 0 s))) 0x20001200"
proof -
  have "HWREG MPUTYPE (mcu guard_state) \<noteq> 0" using umpu_demo_type by (simp add: guard_state_def)
  then obtain s where i: "arm_mpu_init guard_params guard_env guard_state = (ERROR_NONE, s)"
    and n: "next_task s = 2"
    by (simp add: arm_mpu_init_def on_mcu_def guard_state_def)
  have "user_write (mpu_after mpu_reset (mcu (pendsv_handler (mpu_table guard_env) 0 0 s))) x \<longleftrightarrow>
      unat x \<in> task_stack guard_build 2" if "0x20000000 \<le> unat x" "unat x < 0x20002800" for x
    using arm_isolation [OF guard_generated i refl refl, where x = x] that n
    by (simp add: guard_params_def guard_build_def)
  from this [of "0x20001400"] this [of "0x20001200"] i show ?thesis
    by (simp add: task_stack_def proc_heap_address_def guard_build_def)
qed

end
