(* ===== verification/SimTest.thy ===== *)
theory SimTest
  imports StartSteps OssimProps
begin

text \<open>
  The start of the kernel in the simulator, and the test program \<^verbatim>\<open>ossim/test.c\<close>: four tasks of level 1, each an
  endless loop that counts. What the program prints is left out but for the counts.
\<close>

section \<open>The simulator as a way to call the kernel\<close>

text \<open>
  The macros of the simulator pass all four arguments in one call. The lock of the kernel is obtained: the wait has no
  limit of time, and no thread ends while it holds the lock.
\<close>

abbreviation (input) WAIT_OBJECT_0 :: u32 where "WAIT_OBJECT_0 \<equiv> 0"

definition ossim_call :: "params \<Rightarrow> ossim_env \<Rightarrow> u8 \<Rightarrow> svc_args \<Rightarrow> supervisor" where
  "ossim_call P W garbage block svc_code args =
     ossim_call_kernel_service (ossim_port P W) garbage block WAIT_OBJECT_0 svc_code (args 0) (args 1) (args 2) (args 3)"

definition ossim_boot :: "params \<Rightarrow> ossim_env \<Rightarrow> u8 \<Rightarrow> svc_args \<Rightarrow> boot_port" where
  "ossim_boot P W garbage block = \<lparr>
     vector_table_relocate = ossim_vector_table_relocate,
     arch_kernel_init = ossim_kernel_init W,
     os_timer_init = ossim_os_timer_init W,
     arch_mpu_init = ossim_mpu_init,
     boot_heap_init = ossim_heap_init,
     switch_mcu_mode = ossim_switch_mcu_mode (ossim_port P W) garbage block WAIT_OBJECT_0\<rparr>"

section \<open>The test program (test.c)\<close>

text \<open>Addresses of the four task objects and of the functions.\<close>

record test_env =
  mytask1 :: u32
  mytask2 :: u32
  mytask3 :: u32
  mytask4 :: u32
  task1 :: u32
  task2 :: u32
  task3 :: u32
  task4 :: u32

definition test_tasks :: "test_env \<Rightarrow> (u32 \<times> u32) list" where
  "test_tasks T = [(mytask1 T, task1 T), (mytask2 T, task2 T), (mytask3 T, task3 T), (mytask4 T, task4 T)]"

definition test_start :: "params \<Rightarrow> supervisor \<Rightarrow> u32 \<times> u32 \<Rightarrow> kstate \<Rightarrow> kstate option" where
  "test_start P call = (\<lambda>(obj, f) s.
     let s1 = snd (task_init P obj s);
         s2 = on_mcu (obj_update obj (\<lambda>t. t\<lparr>t_ptr_func := f\<rparr>)) s1;
         s3 = on_mcu (obj_update obj (\<lambda>t. t\<lparr>t_priority := 1\<rparr>)) s2
     in map_option snd (task_start P call (\<lambda>_. 0) obj s3))"

text \<open>\<open>main\<close> up to its endless loop.\<close>

definition test_main :: "params \<Rightarrow> ossim_env \<Rightarrow> u8 \<Rightarrow> svc_args \<Rightarrow> test_env \<Rightarrow> kstate \<Rightarrow> kstate option" where
  "test_main P W garbage block T s =
     (let call = ossim_call P W garbage block; B = ossim_boot P W garbage block in
      do {
        (_, s1) \<leftarrow> kernel_init P B call (\<lambda>_. 0) s;
        s2 \<leftarrow> foldo (test_start P call) (test_tasks T) s1;
        (_, s3) \<leftarrow> start_scheduler True B s2;
        Some s3
      })"

text \<open>One turn of a task's loop, from its count to the new count and the number it prints.\<close>

partial_function (option) delay :: "u32 \<Rightarrow> u32 \<Rightarrow> u32 option" where
  "delay n i = (if i < n then delay n (i + 1) else Some i)"

definition task1_turn :: "u16 \<Rightarrow> (u16 \<times> u16) option" where
  "task1_turn count = (let count = count + 1 in do { i \<leftarrow> delay 0x08000000 0; Some (count, count) })"

definition task2_turn :: "u16 \<Rightarrow> (u16 \<times> u16) option" where
  "task2_turn count = do { i \<leftarrow> delay 0x0E000000 0; let count = count + 1; Some (count, count) }"

definition task3_turn :: "u16 \<Rightarrow> (u16 \<times> u16) option" where
  "task3_turn count = do { i \<leftarrow> delay 0x18000000 0; let count = count + 1; Some (count, count) }"

definition task4_turn :: "u16 \<Rightarrow> (u16 \<times> u16) option" where
  "task4_turn count = do { i \<leftarrow> delay 0x1E000000 0; let count = count + 1; Some (count, count) }"

text \<open>The numbers printed by \<open>k\<close> turns.\<close>

fun printed :: "(u16 \<Rightarrow> (u16 \<times> u16) option) \<Rightarrow> nat \<Rightarrow> u16 \<Rightarrow> u16 list option" where
  "printed turn 0 count = Some []"
| "printed turn (Suc k) count = do { (count', out) \<leftarrow> turn count; ns \<leftarrow> printed turn k count'; Some (out # ns) }"

lemma delay_ends:
  assumes "unat i \<le> unat n"
  shows "delay n i = Some n"
  using assms
proof (induction "unat n - unat i" arbitrary: i)
  case 0
  then have "i = n" by (simp add: word_unat_eq_iff)
  then show ?case by (subst delay.simps) simp
next
  case (Suc k)
  then have lt: "i < n" by (simp add: word_less_nat_alt)
  have "unat n < 2 ^ LENGTH(32)" by (rule unsigned_less)
  then have u: "unat (i + 1) = unat i + 1" using lt by (simp add: word_less_nat_alt unat_word_ariths)
  have "k = unat n - unat (i + 1)" "unat (i + 1) \<le> unat n" using Suc.hyps(2) Suc.prems lt by (simp_all add: u word_less_nat_alt)
  then have "delay n (i + 1) = Some n" by (rule Suc.hyps(1))
  then show ?case using lt by (subst delay.simps) simp
qed

text \<open>Every turn ends, and the numbers are those of the turns, modulo \<open>2 ^ 16\<close>.\<close>

lemma turn_counts:
  "turn \<in> {task1_turn, task2_turn, task3_turn, task4_turn} \<Longrightarrow> turn count = Some (count + 1, count + 1)"
  by (auto simp: task1_turn_def task2_turn_def task3_turn_def task4_turn_def delay_ends Let_def)

lemma tasks_count:
  assumes "turn \<in> {task1_turn, task2_turn, task3_turn, task4_turn}"
  shows "printed turn k count = Some (map (\<lambda>j. count + of_nat (Suc j)) [0..<k])"
proof (induction k arbitrary: count)
  case (Suc k)
  show ?case
    unfolding map_upt_Suc using Suc [of "count + 1"] by (simp add: turn_counts [OF assms] add.assoc)
qed simp

section \<open>The start of the kernel in the simulator\<close>

interpretation simc: kernel_call "ossim_port P W" P "ossim_call P W garbage block" for P W garbage block
proof unfold_locales
  fix a s
  show "\<exists>b. b 0 = a 0 \<and> (\<forall>s'. svc_service_task_create (ossim_port P W) CREATE_TASK b s =
      Some (ERROR_NONE, CREATE_TASK, b, s') \<longrightarrow> (\<exists>r. ossim_call P W garbage block CREATE_TASK a s = Some (r, s')))"
    by (rule exI [of _ "block(0 := a 0, 1 := a 1, 3 := a 2, 4 := a 3)"])
      (auto simp: ossim_call_def ossim_call_kernel_service_def svc_dispatch_def ossim_svc_handler.simps [of _ _ CREATE_TASK])
qed simp

text \<open>Slot 0 holds the base task and the slots after it the objects \<open>os\<close> of level 1; the other slots are idle.\<close>

definition tasks_of :: "nat \<Rightarrow> u32 \<Rightarrow> u32 list \<Rightarrow> kstate \<Rightarrow> bool" where
  "tasks_of n stk xs s \<longleftrightarrow> boot_ok n s \<and> xs \<noteq> [] \<and> length xs \<le> n \<and> \<not> first_start s \<and> pstack_addr s = stk \<and>
     total_task_count s = of_nat (length xs) \<and>
     (\<forall>i < n. state s i = (if i < length xs then TASK_STATE_SLEEP else TASK_STATE_IDLE)) \<and>
     (\<forall>i < length xs. task_obj s i = xs ! i \<and> priority_cur s i = (if i = 0 then 0 else 1)) \<and>
     set (levels (level_stash s) (lstash_ptr s)) = (if length xs = 1 then {0} else {0, 1})"

lemma tasks_of_mcu: "tasks_of n stk xs (on_mcu f s) = tasks_of n stk xs s"
proof -
  have "live (on_mcu f s) = live s" by (simp add: live_def fun_eq_iff)
  then have "kernel_ok n (on_mcu f s) = kernel_ok n s"
    using kernel_ok_cong [of n s "on_mcu f s"] kernel_ok_cong [of n "on_mcu f s" s] by auto
  then show ?thesis by (simp add: tasks_of_def boot_ok_def)
qed

text \<open>With at most two levels in use, the stash has room for the level 1.\<close>

lemma tasks_of_stash:
  assumes t: "tasks_of n stk xs s"
  shows "unat (lstash_ptr s) \<le> 2" "level_in_order s 1" "1 < length xs \<Longrightarrow> 1 < unat (lstash_ptr s)"
proof -
  let ?l = "levels (level_stash s) (lstash_ptr s)"
  have inc: "incr_upto (unat (lstash_ptr s)) (level_stash s)"
    using t by (simp add: tasks_of_def boot_ok_def kernel_ok_def stash_ok_def)
  have d: "distinct ?l"
    using inc by (auto simp: levels_def distinct_map inj_on_def incr_upto_def) (metis less_irrefl linorder_neqE_nat)
  have len: "card (set ?l) = unat (lstash_ptr s)" using distinct_card [OF d] by (simp add: levels_def)
  have s: "set ?l = (if length xs = 1 then {0} else {0, 1})" using t by (simp add: tasks_of_def)
  show "unat (lstash_ptr s) \<le> 2" "1 < length xs \<Longrightarrow> 1 < unat (lstash_ptr s)"
    using len unfolding s by (auto split: if_splits)
  show "level_in_order s 1" unfolding level_in_order_def s by simp
qed

lemma tasks_of_count:
  assumes t: "tasks_of n stk xs s"
  shows "unat (task_count s) = length xs" "n \<le> 120"
proof -
  have k: "kinv n s" using t by (simp add: tasks_of_def boot_ok_def kernel_ok_def)
  have st: "\<forall>i < n. state s i = (if i < length xs then TASK_STATE_SLEEP else TASK_STATE_IDLE)" "length xs \<le> n"
    using t by (simp_all add: tasks_of_def)
  have "filter (live s) [0..<n] = filter (\<lambda>i. i < length xs) [0..<n]"
    using st(1) by (intro filter_cong) (auto simp: live_def)
  also have "\<dots> = [0..<length xs]" using st(2) by (induction n) (auto simp: le_Suc_eq filter_id_conv)
  finally show "unat (task_count s) = length xs" using k by (simp add: kinv_def)
  show "n \<le> 120" using k ring_ok_bound by (auto simp: kinv_def)
qed

context kernel_call
begin

text \<open>The creation of one more task of level 1.\<close>

lemma create_app:
  assumes t: "tasks_of (MAX_TASK_COUNT A) stk xs s" and n: "length xs < MAX_TASK_COUNT A" "2 < MAX_TASK_COUNT A"
    and obj: "a 0 = obj" "obj \<noteq> 0" "t_priority (objs (mcu s) obj) = 1" "t_hibernate (objs (mcu s) obj) = 0"
    and room: "0 < unat stk" "unat stk + MAX_TASK_COUNT A * TASK_STACK_SIZE A * 4 < 2 ^ 32"
  shows "\<exists>r s'. call CREATE_TASK a s = Some (r, s') \<and> tasks_of (MAX_TASK_COUNT A) stk (xs @ [obj]) s'"
proof -
  let ?n = "MAX_TASK_COUNT A" and ?i = "length xs"
  note T = t [unfolded tasks_of_def boot_ok_def]
  have k: "kernel_ok ?n s" using T by blast
  have st: "\<And>i. i < ?n \<Longrightarrow> state s i = (if i < ?i then TASK_STATE_SLEEP else TASK_STATE_IDLE)" using T by blast
  obtain b where b: "b 0 = obj" and ret: "\<And>s'. svc_service_task_create A CREATE_TASK b s =
      Some (ERROR_NONE, CREATE_TASK, b, s') \<Longrightarrow> \<exists>r. call CREATE_TASK a s = Some (r, s')"
    using call_create [of a s] obj(1) by auto
  have slot: "create_slot ?n s = ?i"
    unfolding create_slot_def by (rule first_idx_eqI) (use st n(1) in auto)
  have p: "t_priority (objs (mcu s) (b 0)) = 1" using obj b by simp
  have "?i * TASK_STACK_SIZE A * 4 \<le> ?n * TASK_STACK_SIZE A * 4" using n(1) by (intro mult_right_mono) auto
  then have "unat stk + ?i * TASK_STACK_SIZE A * 4 < 2 ^ 32" using room(2) by linarith
  then have lt: "unat stk + ?i * TASK_STACK_SIZE A * 4 < 2 ^ LENGTH(32)" by simp
  have "unat (stk + of_nat (?i * TASK_STACK_SIZE A * 4)) = unat stk + ?i * TASK_STACK_SIZE A * 4"
    using lt by (subst unat_word_ariths) (simp only: unat_of_nat mod_less mod_add_right_eq)
  then have "stk + of_nat (?i * TASK_STACK_SIZE A * 4) \<noteq> 0" using room(1) by auto
  moreover have "unat (total_task_count s) < 65535"
    using T n(1) tasks_of_count(2) [OF t] by (simp add: unat_of_nat)
  ultimately have ready: "create_ready A b s"
    using T n(1) p obj b tasks_of_count(1) [OF t] by (simp add: create_ready_def create_checks_def slot)
  have ptr: "unat (lstash_ptr s) < ?n" using tasks_of_stash(1) [OF t] n(2) by simp
  have ord: "level_in_order s (t_priority (objs (mcu s) (b 0)))" unfolding p by (rule tasks_of_stash(2) [OF t])
  have so: "stash_ok ?n s" using k by (simp add: kernel_ok_def)
  obtain ls lp where lv: "level_add ?n 1 (level_stash s, lstash_ptr s) = Some (ls, lp)"
    and ls: "set (levels ls lp) = insert 1 (set (levels (level_stash s) (lstash_ptr s)))"
    using stash_add [OF so tasks_of_count(2) [OF t] ptr tasks_of_stash(2) [OF t]] by blast
  obtain s' where c: "svc_service_task_create A CREATE_TASK b s = Some (ERROR_NONE, CREATE_TASK, b, s')"
    and f: "state s' = (state s)(?i := TASK_STATE_SLEEP)" "task_obj s' = (task_obj s)(?i := b 0)"
      "priority_cur s' = (priority_cur s)(?i := 1)" "total_task_count s' = total_task_count s + 1"
      "level_stash s' = ls" "lstash_ptr s' = lp" "current_task s' = current_task s" "next_task s' = next_task s"
      "enable_dws s' = enable_dws s" "first_start s' = first_start s" "normal_schedule s' = normal_schedule s"
      "self_kill s' = self_kill s" "pstack_addr s' = pstack_addr s"
    by (rule create_success [OF ready slot [symmetric] n(1) p [symmetric] lv, of CREATE_TASK]) blast
  obtain s'' where "svc_service_task_create A CREATE_TASK b s = Some (ERROR_NONE, CREATE_TASK, b, s'')" "kernel_ok ?n s''"
    by (rule create_preserves [OF ready k ptr ord, of CREATE_TASK]) blast
  with c have k': "kernel_ok ?n s'" by simp
  have i0: "0 < ?i" using T by simp
  have "tasks_of ?n stk (xs @ [obj]) s'"
    unfolding tasks_of_def boot_ok_def
  proof (intro conjI allI impI)
    show "set (levels (level_stash s') (lstash_ptr s')) = (if length (xs @ [obj]) = 1 then {0} else {0, 1})"
      using T i0 unfolding f ls by auto
  qed (use T k' n(1) i0 f b in \<open>auto simp: nth_append less_Suc_eq\<close>)
  then show ?thesis using ret [OF c] by blast
qed

lemma test_start_one:
  assumes t: "tasks_of (MAX_TASK_COUNT A) stk xs s" and n: "length xs < MAX_TASK_COUNT A" "2 < MAX_TASK_COUNT A"
    and obj: "obj \<noteq> 0" "obj \<notin> set xs"
    and room: "0 < unat stk" "unat stk + MAX_TASK_COUNT A * TASK_STACK_SIZE A * 4 < 2 ^ 32"
  shows "\<exists>s'. test_start P call (obj, f) s = Some s' \<and> tasks_of (MAX_TASK_COUNT A) stk (xs @ [obj]) s'"
proof -
  let ?n = "MAX_TASK_COUNT A"
  have tab: "table_ok ?n s" using t by (simp add: tasks_of_def boot_ok_def kernel_ok_def kinv_def)
  have free: "task_obj s i \<noteq> obj" if "i < ?n" for i
  proof (cases "i < length xs")
    case True
    then show ?thesis using t obj(2) by (auto simp: tasks_of_def)
  next
    case False
    then have "\<not> live s i" using t that by (simp add: tasks_of_def live_def)
    then show ?thesis using tab that obj(1) by (auto simp: table_ok_def)
  qed
  then have none: "\<not> find_obj (MAX_TASK_COUNT P) obj s < MAX_TASK_COUNT P"
    using first_idx_hit [of "\<lambda>i. task_obj s i = obj"] by (auto simp: find_obj_def call_tasks)
  define g where "g = obj_update obj (\<lambda>t. t\<lparr>t_priority := 1\<rparr>) \<circ> obj_update obj (\<lambda>t. t\<lparr>t_ptr_func := f\<rparr>) \<circ>
    obj_update obj (\<lambda>t. t\<lparr>t_priority := 1, t_task_id := 0, t_hibernate := 0, t_op1 := 0, t_op2 := 0, t_value := 0\<rparr>)"
  have o3: "t_priority (objs (mcu (on_mcu g s)) obj) = 1" "t_hibernate (objs (mcu (on_mcu g s)) obj) = 0"
    by (simp_all add: g_def on_mcu_def obj_update_def)
  obtain r s' where c: "call CREATE_TASK ((\<lambda>_. 0)(0 := obj, 1 := 0)) (on_mcu g s) = Some (r, s')"
    "tasks_of ?n stk (xs @ [obj]) s'"
    using create_app [of stk xs "on_mcu g s" "(\<lambda>_. 0)(0 := obj, 1 := 0)" obj] t n obj(1) o3 room
    by (auto simp: tasks_of_mcu)
  have "find_obj (MAX_TASK_COUNT P) obj (on_mcu g s) = find_obj (MAX_TASK_COUNT P) obj s" by (simp add: find_obj_def)
  then have "test_start P call (obj, f) s = Some s'"
    using none c(1) by (simp add: test_start_def task_init_def task_start_def on_mcu_comp g_def svc_macro_defs comp_assoc Let_def)
  then show ?thesis using c(2) by blast
qed

lemma test_start_all:
  assumes "tasks_of (MAX_TASK_COUNT A) stk xs s" and "length xs + length ts \<le> MAX_TASK_COUNT A" "2 < MAX_TASK_COUNT A"
    and "distinct (xs @ map fst ts)" "0 \<notin> set (map fst ts)"
    and room: "0 < unat stk" "unat stk + MAX_TASK_COUNT A * TASK_STACK_SIZE A * 4 < 2 ^ 32"
  shows "\<exists>s'. foldo (test_start P call) ts s = Some s' \<and> tasks_of (MAX_TASK_COUNT A) stk (xs @ map fst ts) s'"
  using assms(1-5)
proof (induction ts arbitrary: xs s)
  case (Cons x ts)
  obtain obj f where x: "x = (obj, f)" by (cases x)
  obtain s1 where s1: "test_start P call x s = Some s1" "tasks_of (MAX_TASK_COUNT A) stk (xs @ [obj]) s1"
    using test_start_one [OF Cons.prems(1) _ Cons.prems(3) _ _ room, of obj f] Cons.prems(2,4,5) x by auto
  have "\<exists>s'. foldo (test_start P call) ts s1 = Some s' \<and> tasks_of (MAX_TASK_COUNT A) stk ((xs @ [obj]) @ map fst ts) s'"
    by (rule Cons.IH [OF s1(2)]) (use Cons.prems x in auto)
  then show ?case using s1(1) x by auto
qed simp

end

text \<open>A build of the simulator with the test program: distinct objects, room for five tasks, and the API calls succeed.\<close>

definition sim_build :: "params \<Rightarrow> ossim_env \<Rightarrow> test_env \<Rightarrow> bool" where
  "sim_build P W T \<longleftrightarrow> 5 \<le> MAX_TASK_COUNT P \<and> MAX_TASK_COUNT P \<le> 120 \<and> CreateMutex W \<noteq> 0 \<and> CreateTimerQueue W \<noteq> 0 \<and>
     proc_heap_addr P = sim_kernel_region W + UPPER_REGION_SIZE W * 1024 \<and> proc_heap_addr P \<noteq> 0 \<and>
     unat (proc_heap_addr P) + MAX_TASK_COUNT P * TASK_STACK_SIZE P * 4 < 2 ^ 32 \<and>
     distinct (0 # base_task_addr P # map fst (test_tasks T))"

lemma kernel_init_sim:
  assumes b: "sim_build P W T"
  obtains s where "kernel_init P (ossim_boot P W garbage block) (ossim_call P W garbage block) regs (kvar_init m) =
      Some (ERROR_NONE, s)" "tasks_of (MAX_TASK_COUNT P) (proc_heap_addr P) [base_task_addr P] s"
proof -
  let ?n = "MAX_TASK_COUNT P" and ?call = "ossim_call P W garbage block"
  define s2 where "s2 = on_mcu (mem_store (first_schedule_addr W) 0 \<circ>
      mem_store (proc_heap_var W) (sim_kernel_region W + UPPER_REGION_SIZE W * 1024)) ((kvar_init m)\<lparr>first_start := False\<rparr>)"
  define s5 where "s5 = (init_states ?n s2)\<lparr>pstack_addr := proc_heap_addr P\<rparr>"
  have wf: "wf_params P" "base_task_addr P \<noteq> 0" using b by (auto simp: sim_build_def wf_params_def)
  have emp: "empty_table ?n s5"
    by (simp add: s5_def s2_def on_mcu_def init_states_eq kvar_init_def empty_table_def)
  have ph: "proc_heap_addr P \<noteq> 0" and api: "CreateMutex W \<noteq> 0" "CreateTimerQueue W \<noteq> 0" using b unfolding sim_build_def by blast+
  have f5: "pstack_addr s5 \<noteq> 0" "next_task s5 = 0" "enable_dws s5" "normal_schedule s5" "\<not> self_kill s5"
    "pstack_addr s5 = proc_heap_addr P"
    using ph by (simp_all add: s5_def s2_def on_mcu_def init_states_eq kvar_init_def)
  show thesis
  proof (rule simc.init_base_call [OF wf emp f5(1-5), of W garbage block regs])
    fix s
    assume i: "init_base P ?call regs s5 = Some s" and k: "kernel_ok ?n s"
      and lv: "\<And>i. i < ?n \<Longrightarrow> live s i = (i = 0)"
      and f: "current_task s = 0" "next_task s = 0" "state s 0 = TASK_STATE_SLEEP" "task_obj s 0 = base_task_addr P"
      "priority_cur s 0 = 0" "enable_dws s" "normal_schedule s" "\<not> self_kill s" "lstash_ptr s = 1" "\<not> first_start s"
      "total_task_count s = 1" "pstack_addr s = pstack_addr s5"
    have "kernel_init P (ossim_boot P W garbage block) ?call regs (kvar_init m) = Some (ERROR_NONE, s)"
      using api i by (simp add: kernel_init_def ossim_boot_def Let_def ossim_vector_table_relocate_def ossim_kernel_init_def
          ossim_os_timer_init_def ossim_os_timer_config_def ossim_mpu_init_def ossim_heap_init_def
          s2_def [symmetric] s5_def [symmetric])
    moreover have "level_stash s 0 = 0" using k by (simp add: kernel_ok_def stash_ok_def)
    then have "set (levels (level_stash s) (lstash_ptr s)) = {0}" by (simp add: levels_def f)
    moreover have "state s i = (if i < 1 then TASK_STATE_SLEEP else TASK_STATE_IDLE)" if "i < ?n" for i
      using lv [OF that] f(3) by (auto simp: live_def)
    ultimately show thesis
      using k f f5(6) wf(1) by (intro that [of s]) (auto simp: tasks_of_def boot_ok_def wf_params_def)
  qed
qed

end
