(* ===== verification/SimRuns.thy ===== *)
theory SimRuns
  imports SimTest SchedFair
begin

text \<open>
  The test program under the timer of the simulator: its four tasks take turns.
\<close>

section \<open>A tick\<close>

text \<open>Task \<open>c\<close> of the four is running; before the first tick that is the base task, which sleeps.\<close>

definition sim_state :: "nat \<Rightarrow> u32 list \<Rightarrow> nat \<Rightarrow> kstate \<Rightarrow> bool" where
  "sim_state n xs c s \<longleftrightarrow> sched_pre n s \<and> first_start s \<and> 5 \<le> n \<and> c \<le> 4 \<and> unat (current_task s) = c \<and>
     normal_schedule s = (0 < c) \<and>
     (\<forall>i < n. state s i = (if i = c \<and> 0 < c then TASK_STATE_ACTIVE else if i \<le> 4 then TASK_STATE_SLEEP else TASK_STATE_IDLE)) \<and>
     (\<forall>i \<le> 4. priority_cur s i = (if i = 0 then 0 else 1) \<and> task_obj s i = xs ! i)"

lemma sim_live: "sim_state n xs c s \<Longrightarrow> i < n \<Longrightarrow> live s i \<longleftrightarrow> i \<le> 4"
  by (auto simp: sim_state_def live_def)

lemma sim_next:
  assumes s: "sim_state n xs c s" and i: "i \<le> 4"
  shows "ring_nxt s i = (if i < 4 then i + 1 else 0)"
proof -
  have ring: "ring_ok n (live s) (jmp_list s)" and n: "5 \<le> n"
    using s by (simp_all add: sim_state_def sched_pre_def kernel_ok_def kinv_def)
  have i': "i < n" using i n by simp
  then have lv: "live s i" using sim_live [OF s] i by simp
  obtain k where k: "is_succ (live s) n i k" "int i + sint (jmp_list s i) = int k"
    by (rule ring_okD [OF ring i' lv])
  have "is_succ (live s) n i (if i < 4 then i + 1 else 0)"
    using sim_live [OF s] n i by (auto simp: is_succ_def)
  then have "k = (if i < 4 then i + 1 else 0)" using k(1) is_succ_unique by blast
  then show ?thesis using k(2) by (simp add: ring_nxt_def jmp_nxt_def)
qed

text \<open>The tick chooses the next task of level 1 in the order of the slots.\<close>

lemma sim_pick:
  assumes s: "sim_state (MAX_TASK_COUNT A) xs c s"
  shows "sched_pick A s = Some (if c = 4 then 1 else c + 1, 1)"
    and "i < MAX_TASK_COUNT A \<Longrightarrow> state (woken A s) i = (if i \<le> 4 then TASK_STATE_SLEEP else TASK_STATE_IDLE)"
proof -
  let ?n = "MAX_TASK_COUNT A" and ?w = "woken A s"
  note S = s [unfolded sim_state_def]
  have pre: "sched_pre ?n s" and n: "5 \<le> ?n" and c: "c \<le> 4" "unat (current_task s) = c" using S by blast+
  note wk = woken_kernel_ok [OF pre]
  have e: "state (entered A s) i = (if i \<le> 4 then TASK_STATE_SLEEP else TASK_STATE_IDLE)" if "i < ?n" for i
    using S that by (simp add: entered_state)
  then show w: "state ?w i = (if i \<le> 4 then TASK_STATE_SLEEP else TASK_STATE_IDLE)" if "i < ?n" for i
    using that by (simp add: woken_state [OF pre] due_def Let_def)
  have p: "priority_cur ?w i = (if i = 0 then 0 else 1)" if "i \<le> 4" for i using S that by (simp add: woken_frame)
  have m: "max_level ?w = 1"
  proof -
    have mx: "max_ok ?n s" using pre by (simp add: sched_pre_def kernel_ok_def)
    then obtain i where i: "i < ?n" "live s i" "priority_cur s i = max_level s" by (auto simp: max_ok_def)
    have "1 < ?n" using n by simp
    then have "priority_cur s 1 \<le> max_level s" using mx sim_live [OF s, of 1] by (simp add: max_ok_def)
    moreover have "priority_cur s 1 = 1" "i \<le> 4" using S sim_live [OF s i(1)] i(2) by auto
    ultimately show ?thesis using i(3) S by (auto simp: woken_frame split: if_splits)
  qed
  have ring: "ring_ok ?n (live ?w) (jmp_list ?w)" using wk(1) by (simp add: kernel_ok_def kinv_def)
  have cw: "c < ?n" "live ?w c" using sim_live [OF s, of c] n c(1) by (simp_all add: wk(2))
  have nx: "ring_nxt ?w i = (if i < 4 then i + 1 else 0)" if "i \<le> 4" for i
    using sim_next [OF s that] by (simp only: ring_nxt_def wk(2) woken_frame(1))
  have "live_slots ?n ?w = filter (\<lambda>i. i \<le> 4) [0..<?n]"
    unfolding live_slots_def wk(2) by (rule filter_cong) (use sim_live [OF s] in auto)
  also have "\<dots> = [0..<5]"
  proof -
    have "[0..<?n] = [0..<5] @ [5..<?n]" using n by (metis le_add_diff_inverse upt_add_eq_append zero_le)
    then show ?thesis by (simp add: filter_id_conv filter_empty_conv del: upt_rec_numeral)
  qed
  finally have len: "length (live_slots ?n ?w) - 1 = 4" by simp
  have tl: "tl (round_at ?n ?w c 1) = map (\<lambda>m. ((ring_nxt ?w ^^ Suc m) c, 1)) [0..<4]"
    unfolding round_at_def map_tl [symmetric] ring_tl [OF ring cw] len by simp
  have "find (is_ready ?w) (tl (round_at ?n ?w c 1)) = Some (if c = 4 then 1 else c + 1, 1)"
  proof (cases "c = 4")
    case True
    then show ?thesis using w p nx n unfolding tl by (simp add: is_ready_def ready_def upt_rec)
  next
    case False
    then show ?thesis using w p nx n c(1) unfolding tl by (simp add: is_ready_def ready_def upt_rec)
  qed
  then show "sched_pick A s = Some (if c = 4 then 1 else c + 1, 1)"
    by (simp add: sched_pick_def sched_order_def find_append_case c(2) m del: funpow.simps)
qed

lemma woken_start: "first_start (woken A s) = first_start s"
proof -
  have "first_start (fold hib_check xs t) = first_start t" for xs t
    by (induction xs arbitrary: t) (simp_all add: hib_check_due hib_wake_def Let_def)
  then show ?thesis by (simp add: woken_def entered_def Let_def)
qed

lemma sim_tick:
  assumes s: "sim_state (MAX_TASK_COUNT P) xs c s" and wait: "wait_result \<noteq> WAIT_ABANDONED"
  obtains s' where "timer_routine W (ossim_port P W) wait_result s = Some s'"
    "sim_state (MAX_TASK_COUNT P) xs (if c = 4 then 1 else c + 1) s'"
proof -
  let ?A = "ossim_port P W" and ?i = "if c = 4 then 1 else c + 1 :: nat"
  let ?n = "MAX_TASK_COUNT P" and ?w = "woken ?A s"
  note S = s [unfolded sim_state_def]
  have sA: "sim_state (MAX_TASK_COUNT ?A) xs c s" using s by simp
  have pre: "sched_pre (MAX_TASK_COUNT ?A) s" and n: "5 \<le> ?n" and c: "c \<le> 4" using S by simp_all
  note wk = woken_kernel_ok [OF pre]
  have w: "state ?w i = (if i \<le> 4 then TASK_STATE_SLEEP else TASK_STATE_IDLE)" if "i < ?n" for i
    using sim_pick(2) [OF sA, of i] that by simp
  define s1 where "s1 = sched_leave ?A 1 (?w\<lparr>next_task := of_nat ?i\<rparr>)"
  have s1: "scheduler ?A s = Some s1"
    using scheduler_pick [OF sched_preD [OF pre]] sim_pick(1) [OF sA] by (simp add: s1_def)
  have fs: "first_start s" using S by blast
  obtain s' where r: "timer_routine W ?A wait_result s = Some s'"
    and eq: "s' = (context_switch 0 s1)\<lparr>PSP_Array := PSP_Array s', mcu := mcu s'\<rparr>"
    by (rule timer_routine_switch [OF fs wait s1])
  have iw: "?i < ?n" "live ?w ?i" using n c w by (auto simp: live_def)
  have "enable_dws ?w" using pre by (simp add: sched_pre_def woken_frame)
  from leave_result [OF wk(1) this woken_normal _ _ iw(2) refl, where psp = 0 and A = ?A and l = 1] w iw(1)
  have t: "current_task (context_switch 0 s1) = of_nat ?i" "next_task (context_switch 0 s1) = of_nat ?i"
    "state (context_switch 0 s1) = (state ?w)(?i := TASK_STATE_ACTIVE)"
    "priority_cur (context_switch 0 s1) = priority_cur ?w" "run_ok ?n (context_switch 0 s1)"
    unfolding s1_def by simp_all
  have f: "first_start s' = first_start (context_switch 0 s1)" "task_obj s' = task_obj (context_switch 0 s1)"
    "current_task s' = current_task (context_switch 0 s1)" "state s' = state (context_switch 0 s1)"
    "priority_cur s' = priority_cur (context_switch 0 s1)"
    by (subst eq, simp)+
  have "first_start (context_switch 0 s1)" "task_obj (context_switch 0 s1) = task_obj s"
    using fs by (simp_all add: s1_def context_switch_def Let_def sched_leave_def woken_start woken_frame)
  moreover have "run_ok ?n s'" by (subst eq) (rule run_ok_frame [OF t(5)])
  moreover have "unat (of_nat ?i :: u32) = ?i" using c by (intro unat_of_nat_u32) auto
  ultimately have "sim_state ?n xs ?i s'"
    using S t w n c unfolding sim_state_def f by (auto simp: run_ok_sched_pre woken_frame run_ok_def)
  then show thesis by (rule that [OF r])
qed

section \<open>The start\<close>

lemma sim_starts:
  assumes t: "tasks_of (MAX_TASK_COUNT P) stk xs s" and n: "length xs = 5"
  obtains s' where "start_scheduler True (ossim_boot P W garbage block) s = Some (ERROR_NONE, s')"
    "sim_state (MAX_TASK_COUNT P) xs 0 s'"
proof -
  let ?A = "ossim_port P W" and ?n = "MAX_TASK_COUNT P"
  note T = t [unfolded tasks_of_def]
  have ok: "boot_ok (MAX_TASK_COUNT ?A) s" using T by simp
  have cur: "s\<lparr>current_task := 0\<rparr> = s" using ok by (simp add: boot_ok_def)
  show thesis
  proof (rule pending_port.start_services [OF ossim.pending_port_axioms ok])
    fix u s1
    assume c: "\<And>arguments. svc_service_start_scheduler ?A START_SCHEDULER arguments s = Some (ERROR_NONE, HAND_OVER, arguments, u)"
      "\<And>arguments. svc_service_hand_over ?A HAND_OVER arguments u = Some (ERROR_NONE, HAND_OVER, arguments, s1)"
      and f: "\<not> normal_schedule s1" "step_pre (MAX_TASK_COUNT ?A) s1" "first_start s1"
      "state s1 = (state s)(0 := TASK_STATE_SLEEP)" "priority_cur s1 = priority_cur s" "task_obj s1 = task_obj s"
      "current_task s1 = 0"
    have "ossim_svc_handler ?A garbage START_SCHEDULER a s = Some (0, s1)" for a
      using c by (simp add: svc_dispatch_def ossim_svc_handler.simps [of _ _ START_SCHEDULER]
          ossim_svc_handler.simps [of _ _ HAND_OVER])
    then have "start_scheduler True (ossim_boot P W garbage block) s = Some (ERROR_NONE, s1)"
      using T by (simp add: start_scheduler_def cur ossim_boot_def ossim_switch_mcu_mode_def ossim_call_kernel_service_def)
    moreover have "sim_state ?n xs 0 s1"
      using T f n by (auto simp: sim_state_def step_pre_def)
    ultimately show thesis by (rule that)
  qed
qed

section \<open>Property\<close>

text \<open>A number of callbacks of the timer, with the same result of the wait for the lock.\<close>

primrec timer_ticks :: "ossim_env \<Rightarrow> port \<Rightarrow> u32 \<Rightarrow> nat \<Rightarrow> kstate \<Rightarrow> kstate option" where
  "timer_ticks W A wait_result 0 s = Some s"
| "timer_ticks W A wait_result (Suc k) s = timer_ticks W A wait_result k s \<bind> timer_routine W A wait_result"

text \<open>
  C27. The test program of the simulator runs: \<open>main\<close> initialises the kernel, creates its four tasks and starts the
  scheduler, and all of it returns; from then on the callbacks of the timer let the four tasks take turns in the order of
  their creation. After \<open>k + 1\<close> callbacks task \<open>k mod 4 + 1\<close> is the only active one and the base task and the other three
  sleep.
\<close>

theorem simulator_test_runs:
  assumes "sim_build P W T" and "wait_result \<noteq> WAIT_ABANDONED"
  shows "\<exists>s s'. test_main P W garbage block T (kvar_init m) = Some s \<and>
    timer_ticks W (ossim_port P W) wait_result (k + 1) s = Some s' \<and> unat (current_task s') = k mod 4 + 1 \<and>
    task_obj s' (k mod 4 + 1) = fst (test_tasks T ! (k mod 4)) \<and>
    (\<forall>i < MAX_TASK_COUNT P. state s' i = (if i = k mod 4 + 1 then TASK_STATE_ACTIVE
      else if i \<le> 4 then TASK_STATE_SLEEP else TASK_STATE_IDLE))"
proof -
  let ?n = "MAX_TASK_COUNT P" and ?A = "ossim_port P W" and ?xs = "base_task_addr P # map fst (test_tasks T)"
  have b: "5 \<le> ?n" "unat (proc_heap_addr P) + ?n * TASK_STACK_SIZE P * 4 < 2 ^ 32" "proc_heap_addr P \<noteq> 0"
    "distinct (0 # ?xs)" using assms(1) unfolding sim_build_def by blast+
  have len: "length (test_tasks T) = 4" by (simp add: test_tasks_def)
  obtain s1 where s1: "kernel_init P (ossim_boot P W garbage block) (ossim_call P W garbage block) (\<lambda>_. 0) (kvar_init m) =
      Some (ERROR_NONE, s1)" "tasks_of ?n (proc_heap_addr P) [base_task_addr P] s1"
    by (rule kernel_init_sim [OF assms(1)])
  obtain s2 where s2: "foldo (test_start P (ossim_call P W garbage block)) (test_tasks T) s1 = Some s2"
    "tasks_of ?n (proc_heap_addr P) ?xs s2"
    using simc.test_start_all [of P W "proc_heap_addr P" "[base_task_addr P]" s1 "test_tasks T" garbage block] s1(2) b len
    by (auto simp: ossim_port_def unat_gt_0)
  have l5: "length ?xs = 5" by (simp add: len)
  obtain s3 where s3: "start_scheduler True (ossim_boot P W garbage block) s2 = Some (ERROR_NONE, s3)" "sim_state ?n ?xs 0 s3"
    by (rule sim_starts [OF s2(2) l5])
  have main: "test_main P W garbage block T (kvar_init m) = Some s3" by (simp add: test_main_def Let_def s1(1) s2(1) s3(1))
  have "\<exists>s'. timer_ticks W ?A wait_result (k + 1) s3 = Some s' \<and> sim_state ?n ?xs (k mod 4 + 1) s'" for k
  proof (induction k)
    case 0
    show ?case by (rule sim_tick [OF s3(2) assms(2), of W]) simp
  next
    case (Suc k)
    then obtain s' where s': "timer_ticks W ?A wait_result (k + 1) s3 = Some s'" "sim_state ?n ?xs (k mod 4 + 1) s'" by blast
    have nx: "(if k mod 4 + 1 = 4 then 1 else k mod 4 + 1 + 1) = Suc k mod 4 + 1" by (simp add: mod_Suc)
    show ?case by (rule sim_tick [OF s'(2) assms(2), of W]) (use s'(1) nx in auto)
  qed
  then obtain s' where "timer_ticks W ?A wait_result (k + 1) s3 = Some s'" "sim_state ?n ?xs (k mod 4 + 1) s'" by blast
  then show ?thesis using main by (intro exI [of _ s3] exI [of _ s']) (auto simp: sim_state_def nth_append len)
qed

definition demo_test :: test_env where
  "demo_test = \<lparr>mytask1 = 0x901, mytask2 = 0x902, mytask3 = 0x903, mytask4 = 0x904,
     task1 = 0x4001, task2 = 0x4002, task3 = 0x4003, task4 = 0x4004\<rparr>"

theorem simulator_test_runs_witness:
  "let P = demo_params\<lparr>MAX_TASK_COUNT := 8, proc_heap_addr := 0x11000\<rparr> in
    \<exists>s s'. test_main P demo_sim 0 (\<lambda>_. 0) demo_test (kvar_init demo_mcu) = Some s \<and>
      timer_ticks demo_sim (ossim_port P demo_sim) 0 7 s = Some s' \<and> unat (current_task s') = 3 \<and> task_obj s' 3 = 0x903"
proof -
  let ?P = "demo_params\<lparr>MAX_TASK_COUNT := 8, proc_heap_addr := 0x11000\<rparr>"
  have "sim_build ?P demo_sim demo_test"
    by (simp add: sim_build_def demo_sim_def demo_params_def demo_test_def test_tasks_def)
  from simulator_test_runs [OF this, of 0 0 "\<lambda>_. 0" demo_mcu 6]
  show ?thesis by (auto simp: test_tasks_def demo_test_def Let_def)
qed

end
