(* ===== verification/Deviations.thy ===== *)
theory Deviations
  imports TaskProps LevelProps ShareProps HeapRuns BaseTask MpcProps OssimProps SvrUmpu EndProps SvcCalls
begin

text \<open>
  Concrete runs in which the code does something else than its comments or its interface say. They
  mark the limits of the hypotheses of the properties.
\<close>

section \<open>Levels\<close>

text \<open>One step of the search, for every outcome of the comparison.\<close>

lemma level_search_steps:
  fixes lo :: u8 and j :: u32
  defines "si \<equiv> ucast (ucast lo + (j - ucast lo) div 2) :: u8"
  shows "j < ucast lo \<Longrightarrow> level_search n ls p lo j k = Some (False, k)"
    "ucast lo \<le> j \<Longrightarrow> \<not> unat si < n \<Longrightarrow> level_search n ls p lo j k = None"
    "ucast lo \<le> j \<Longrightarrow> unat si < n \<Longrightarrow> ls (unat si) < p \<Longrightarrow> level_search n ls p lo j k = level_search n ls p (si + 1) j si"
    "ucast lo \<le> j \<Longrightarrow> unat si < n \<Longrightarrow> p < ls (unat si) \<Longrightarrow> level_search n ls p lo j k = level_search n ls p lo (ucast si - 1) si"
  by (subst level_search.simps; auto simp: si_def Let_def)+

text \<open>A level between two others is not inserted at its place.\<close>

theorem level_add_misplaces:
  "map_option (\<lambda>(ls, ptr). levels ls ptr) (level_add 8 3 ((\<lambda>_. 0)(1 := 5), 2)) = Some [3, 0, 5]"
proof -
  let ?ls = "(\<lambda>_. 0)(1 := 5) :: u8 arr"
  have "level_search 8 ?ls 3 0 2 0 = Some (False, 0)" by (simp add: level_search_steps)
  moreover have "shift_up 0 2 ?ls = (\<lambda>_. 0)(2 := 5)" by (auto simp: shift_up_def numeral_2_eq_2)
  moreover have "levels ((\<lambda>_. 0)(2 := 5, 0 := 3)) 3 = [3, 0, 5]" by (simp add: levels_def upt_rec)
  ultimately show ?thesis by (simp add: level_add_def)
qed

text \<open>A search below the first entry leaves the array.\<close>

theorem level_search_underflow: "level_add 8 1 ((\<lambda>_. 0)(0 := 3, 1 := 5), 2) = None"
  by (simp add: level_add_def level_search_steps)

text \<open>The states of a hibernating task do not have the bit by which they are counted.\<close>

theorem hibernate_mask_never_set: "\<not> hib_masked TASK_STATE_HIBERNATE_G \<and> \<not> hib_masked TASK_STATE_HIBERNATE_L"
  by (simp add: hib_masked_def)

section \<open>Kill and identifiers\<close>

text \<open>The identifier of the task that is created after 65535 others carries into the slot number.\<close>

theorem task_id_carries: "pid_slot (make_task_id 2 0xFFFF) = 3"
  by (simp add: pid_slot_def make_task_id_def)

text \<open>
  A task killed while an idle slot still has its priority leaves its level in the stash, where no task has it. Levels
  that nobody uses add up until the array is full.
\<close>

theorem kill_leaves_level:
  assumes "kernel_ok (MAX_TASK_COUNT A) s" "i < MAX_TASK_COUNT A" "live s i" "i \<noteq> 0" "arguments 0 = task_id s i"
    and "unat (lstash_ptr s) < MAX_TASK_COUNT A" "priority_cur s 0 = 0"
    and idle: "j < MAX_TASK_COUNT A" "\<not> live s j" "priority_cur s j = priority_cur s i"
    and alone: "\<forall>k < MAX_TASK_COUNT A. live s k \<and> priority_cur s k = priority_cur s i \<longrightarrow> k = i"
  shows "\<exists>r s'. svc_service_task_kill A svc_num arguments s = Some (ERROR_NONE, r, arguments, s') \<and>
    priority_cur s i \<in> set (levels (level_stash s') (lstash_ptr s')) \<and>
    (\<forall>k < MAX_TASK_COUNT A. live s' k \<longrightarrow> priority_cur s' k \<noteq> priority_cur s i)"
proof (rule kill_preserves [where arguments = arguments and svc_num = svc_num, OF assms(1-7)])
  fix s'
  assume r: "svc_service_task_kill A svc_num arguments s =
      Some (ERROR_NONE, if arguments 1 = 1 then HAND_OVER else svc_num, arguments, s')"
    and v: "live s' = (live s)(i := False)" "priority_cur s' = priority_cur s"
    and l: "set (levels (level_stash s') (lstash_ptr s')) = set (levels (level_stash s) (lstash_ptr s)) -
      (if \<exists>j < MAX_TASK_COUNT A. j \<noteq> i \<and> priority_cur s j = priority_cur s i then {} else {priority_cur s i})"
  have "j \<noteq> i" using idle(2) assms(3) by auto
  then have "set (levels (level_stash s') (lstash_ptr s')) = set (levels (level_stash s) (lstash_ptr s))"
    using l idle(1,3) by auto
  then have "priority_cur s i \<in> set (levels (level_stash s') (lstash_ptr s'))"
    using assms(1-3) by (simp add: kernel_ok_def stash_ok_def)
  then show ?thesis
    by (intro exI [of _ "if arguments 1 = 1 then HAND_OVER else svc_num"] exI [of _ s']) (use r v alone in auto)
qed

text \<open>
  The level of a promoted task is above 127 and not in the stash: when such a task is killed, the pointer goes
  down all the same, and the highest level is lost.
\<close>

lemma level_drop_none: "p \<notin> ls ` {..<m} \<Longrightarrow> m \<le> n \<Longrightarrow> foldo (level_drop_step n p) [0..<m] (False, ls) = Some (False, ls)"
proof (induction m)
  case (Suc m)
  then have "ls m \<noteq> p" by auto
  with Suc show ?case by (simp add: foldo_append level_drop_step_def lessThan_Suc)
qed simp

theorem level_drop_absent:
  assumes "p \<notin> set (levels ls ptr)" and "unat ptr \<le> n"
  shows "level_drop n p (ls, ptr) = Some (ls, ptr - 1)"
  using level_drop_none [of p ls "unat ptr" n] assms by (simp add: level_drop_def levels_def atLeast0LessThan)

section \<open>Shared resources\<close>

text \<open>Decrementing a semaphore of count 0 succeeds and changes nothing.\<close>

theorem semaphore_zero_succeeds:
  "ldrb a (mcu s) = 0 \<Longrightarrow> 0 < retry \<Longrightarrow> semaphore_decrement excl call regs a retry s = Some (ERROR_NONE, s)"
  by (cases "unat retry") (simp_all add: semaphore_decrement_def arch_semaphore_dec_def unat_eq_0)

text \<open>A mutex that holds an identifier with a zero low byte can be taken by another task.\<close>

theorem mutex_taken_twice:
  "unat (current_task s) < n \<Longrightarrow> mem (mcu s) a = 0x00010100 \<Longrightarrow>
    mutex_lock n True a s = Some (0, on_mcu (mem_store a (task_id s (unat (current_task s)))) s)"
  by (simp add: mutex_lock_def ldrb_def)

text \<open>
  A lock held by a task whose priority has been promoted, but not to the highest level: the caller of
  \<open>spin_lock\<close> on the highest level tries again without end and without handing over.
\<close>

definition holder :: "u32 \<Rightarrow> kstate \<Rightarrow> nat" where
  "holder mutex s = unat (ucast (drop_bit 16 (mem (mcu s) mutex)) :: u8)"

definition spins :: "nat \<Rightarrow> u32 \<Rightarrow> kstate \<Rightarrow> bool" where
  "spins n mutex s \<longleftrightarrow> ldrb mutex (mcu s) \<noteq> 0 \<and> holder mutex s < n \<and> unat (current_task s) < n \<and>
     127 < priority_cur s (holder mutex s) \<and> priority_cur s (holder mutex s) < max_level s \<and>
     priority_cur s (unat (current_task s)) = max_level s"

theorem spin_lock_spins:
  assumes "spins n mutex s" and "0 < retry"
  shows "spin_lock n excl call regs mutex retry s = None"
proof -
  have "\<not> (spins n mutex s \<and> lp < retry)" if "spin_lock_loop n excl call regs mutex retry lp s = Some r" for lp r
    using that
  proof (rule spin_lock_loop.raw_induct [where P = "\<lambda>n excl call regs mutex retry lp s r. \<not> (spins n mutex s \<and> lp < retry)", rotated])
  qed (auto simp: spins_def holder_def mutex_lock_def Let_def, blast)
  then show ?thesis using assms by (cases "spin_lock_loop n excl call regs mutex retry 0 s") (auto simp: spin_lock_def)
qed

section \<open>The heap\<close>

text \<open>An unaligned start of the heap stays unaligned.\<close>

theorem heap_start_unaligned:
  "heap_build P H \<Longrightarrow> heap_start_sym H = 0x20008001 \<Longrightarrow> mem (heap_init P H m) (hstart_addr H) = 0x20008002"
  by (simp add: heap_init_mem(6))

text \<open>
  Two blocks at the end of the RAM, 24 free bytes and 16 bytes in use, and 8 bytes behind them: 32 bytes
  are free in all, so \<open>heap_allocate\<close> lets a request for 32 bytes pass, and the service hands out a block that
  begins 8 bytes before the end of the RAM at \<open>0x20040000\<close>.
\<close>

definition nearly_full :: mcu where
  "nearly_full = demo_mcu\<lparr>mem := (\<lambda>_. 0)(0x20000100 := 0x2003FFD0, 0x20000104 := 0x200063FC, 0x20000108 := 32,
     0x2000010C := 0x200063FC, 0x20000110 := 0x200063F8, 0x20000114 := 2, 0x200063FC := 0xFFFF8018, 0x200063F8 := 16)\<rparr>"

lemma nearly_full_fields:
  "mem nearly_full (hstart_addr heap_demo) = 0x2003FFD0" "mem nearly_full (bstart_addr heap_demo) = 0x200063FC"
  "mem nearly_full (fsll_start heap_demo) = 0x200063FC" "mem nearly_full (fsll_end heap_demo) = 0x200063F8"
  "mem nearly_full (blist_size heap_demo) = 2" "mem nearly_full (heap_remaining heap_demo) = 32"
  "ldrh 0x200063FC nearly_full = 0x8018" "ldrh 0x200063F8 nearly_full = 16"
  "next_marker 0x200063FC nearly_full = 0x200063F8"
  by (simp_all add: nearly_full_def heap_demo_def ldrh_def next_marker_def ldrsh_def mask_eq_exp_minus_1)

lemma nearly_full_search: "search_free_marker demo_arm heap_demo 32 nearly_full = (0, nearly_full)"
proof -
  have "find_free (Suc (Suc 0)) 32 nearly_full 0x200063FC 0x2003FFD0 = None"
    by (simp add: nearly_full_fields)
  then show ?thesis by (simp add: search_free_marker_def nearly_full_fields numeral_2_eq_2 [symmetric])
qed

lemma nearly_full_new:
  "find_new 256 nearly_full 0x200063F8 0x200063FC 0 = Some (Some (0x200063F4, 0xFFFFFFFF))"
proof -
  have m: "mem nearly_full 0x200063FC = 0xFFFF8018" "mem nearly_full 0x200063F8 = 16" "mem nearly_full 0x200063F4 = 0"
    by (simp_all add: nearly_full_def)
  have d: "marker_dist 0x200063F8 0x200063F4 = 0xFFFFFFFF" "dist_ok 0xFFFFFFFF"
    by (simp_all add: marker_dist_def dist_ok_def)
  show ?thesis
    by (subst find_new.simps, simp add: m) (subst find_new.simps, simp add: m, subst find_new.simps, simp add: m d)
qed

lemma nearly_full_block:
  fixes m :: mcu
  assumes "mem m 0x200063FC = 0xFFFF8018" and "mem m 0x200063F8 = 0xFFFF0010"
  shows "block_addr m 0x200063F4 0x200063FC 0x2003FFD0 = Some 0x2003FFF8"
proof -
  have n: "next_marker 0x200063FC m = 0x200063F8" "next_marker 0x200063F8 m = 0x200063F4" "block_size 0x200063FC m = 24"
    "block_size 0x200063F8 m = 16"
    using assms by (simp_all add: next_marker_def ldrsh_def block_size_def ldrh_def mask_eq_exp_minus_1)
  show ?thesis
    by (subst block_addr.simps, simp add: n) (subst block_addr.simps, simp add: n, subst block_addr.simps, simp)
qed

theorem heap_past_ram:
  "\<exists>s'. svc_service_gheap_allocate heap_demo demo_arm GHEAP_ALLOCATE ((\<lambda>_. 0)(1 := 32)) (demo_state\<lparr>mcu := nearly_full\<rparr>) =
    Some (0x2003FFF8, GHEAP_ALLOCATE, (\<lambda>_. 0)(1 := 32), s')"
proof -
  let ?m = "mem_store (fsll_end heap_demo) 0x200063F4 (strh_hi 0x200063F8 0xFFFFFFFF (strh_lo 0x200063F4 32 nearly_full))"
  have hb: "HEAP_BOOKEEPING_SIZE demo_arm = 256" by (simp add: demo_params_port) (simp add: demo_params_def)
  have v: "mem ?m 0x200063FC = 0xFFFF8018" "mem ?m 0x200063F8 = 0xFFFF0010" "mem ?m (fsll_start heap_demo) = 0x200063FC"
    "mem ?m (hstart_addr heap_demo) = 0x2003FFD0"
    by (simp_all add: mem_store_def mem_strh nearly_full_def heap_demo_def)
  obtain m' where "add_new_allocated_marker demo_arm heap_demo 32 nearly_full = Some (0x2003FFF8, m')"
    using nearly_full_block [OF v(1,2)]
    by (simp add: add_new_allocated_marker_def hb nearly_full_fields nearly_full_new v Let_def)
  then show ?thesis
    by (simp add: svc_service_gheap_allocate_def nearly_full_search nearly_full_fields Let_def)
qed

section \<open>A heap that ends with a free block\<close>

text \<open>
  Two blocks of 16 bytes are released in order, and then three blocks of 8 bytes are requested. The second release leaves a
  free block at the end of the list. The first request splits it: the marker of the rest goes into the word before
  the bookkeeping region (\<open>0x20005FFC\<close>; the region begins at \<open>0x20006000\<close>) and links back to the block it was split from. The
  third request appends a block whose address leaves out the rest, and returns the address of the second one, which
  is in use. \<open>heap_words\<close> gives the memory by the words the routines read.
\<close>

definition heap_words :: "u32 \<Rightarrow> u32 \<Rightarrow> u32 \<Rightarrow> u32 \<Rightarrow> u32 \<Rightarrow> mcu \<Rightarrow> bool" where
  "heap_words fe bl w0 w1 w2 m \<longleftrightarrow> mem m (hstart_addr heap_demo) = 0x20008000 \<and> mem m (bstart_addr heap_demo) = 0x200063FC \<and>
     mem m (fsll_start heap_demo) = 0x200063FC \<and> mem m (fsll_end heap_demo) = fe \<and> mem m (blist_size heap_demo) = bl \<and>
     mem m 0x200063FC = w0 \<and> mem m 0x200063F8 = w1 \<and> mem m 0x20005FFC = w2"

lemma hbsz_demo: "HEAP_BOOKEEPING_SIZE demo_arm = 256"
  by (simp add: demo_params_port) (simp add: demo_params_def)

lemma demo_vars:
  "hstart_addr heap_demo = 0x20000100" "bstart_addr heap_demo = 0x20000104" "heap_remaining heap_demo = 0x20000108"
  "fsll_start heap_demo = 0x2000010C" "fsll_end heap_demo = 0x20000110" "blist_size heap_demo = 0x20000114"
  by (simp_all add: heap_demo_def)

lemmas half_word_defs = ldrh_def ldrsh_def next_marker_def block_size_def mem_strh mem_store_def mask_eq_exp_minus_1
  marker_dist_def dist_ok_def

lemma release_first:
  assumes "heap_words 0x200063F8 2 0xFFFF0010 16 0 m"
  shows "\<exists>m'. release_allocated_marker heap_demo 0x20008000 m = Some (2, m') \<and> heap_words 0x200063F8 2 0xFFFF8010 16 0 m'"
proof -
  have "find_block m 0x20008000 0x200063FC 0x20008000 2 = Some (Some 0x200063FC)" by (subst find_block.simps) simp
  then show ?thesis
    using assms by (simp add: heap_words_def release_allocated_marker_def demo_vars join_next_def Let_def half_word_defs)
qed

lemma release_second:
  assumes "heap_words 0x200063F8 2 0xFFFF8010 16 0 m"
  shows "\<exists>m'. release_allocated_marker heap_demo 0x20008010 m = Some (1, m') \<and> heap_words 0x200063FC 1 0x8010 0 0 m'"
proof -
  have f: "find_block m 0x20008010 0x200063FC 0x20008000 2 = Some (Some 0x200063F8)"
    using assms by (subst find_block.simps, simp add: heap_words_def half_word_defs) (subst find_block.simps, simp)
  have p: "find_pred u 0x200063F8 x 0x200063FC = Some 0x200063FC" if "mem u 0x200063FC = 0xFFFF8010" for u x
    by (subst find_pred.simps, simp add: half_word_defs that) (subst find_pred.simps, simp)
  show ?thesis
    using assms by (simp add: heap_words_def release_allocated_marker_def demo_vars join_next_def join_prev_def f p Let_def half_word_defs)
qed

lemma allocate_split:
  assumes "heap_words 0x200063FC 1 0x8010 0 0 m"
  shows "\<exists>m'. search_free_marker demo_arm heap_demo 8 m = (0x20008000, m') \<and> heap_words 0x200063FC 2 0xFF000008 0 0x01008008 m'"
proof -
  have f: "find_free (Suc 0) 8 m 0x200063FC 0x20008000 = Some (0x200063FC, 0x20008000)"
    using assms by (subst find_free.simps(2)) (simp add: heap_words_def half_word_defs)
  have "find_empty (Suc 255) m 0x200063FC = Some 0x20005FFC"
    using assms by (subst find_empty.simps(2)) (simp add: heap_words_def)
  then have e: "find_empty 256 m 0x200063FC = Some 0x20005FFC" by simp
  show ?thesis
    using assms e
    by (simp add: heap_words_def search_free_marker_def split_marker_def hbsz_demo demo_vars f Let_def half_word_defs
        del: find_free.simps(2) find_empty.simps(2))
qed

lemma allocate_rest:
  assumes "heap_words 0x200063FC 2 0xFF000008 0 0x01008008 m"
  shows "\<exists>m'. search_free_marker demo_arm heap_demo 8 m = (0x20008008, m') \<and> heap_words 0x200063FC 2 0xFF000008 0 0x01000008 m'"
proof -
  have "find_free (Suc (Suc 0)) 8 m 0x200063FC 0x20008000 = Some (0x20005FFC, 0x20008008)"
    using assms by (simp add: heap_words_def half_word_defs)
  then have f: "find_free 2 8 m 0x200063FC 0x20008000 = Some (0x20005FFC, 0x20008008)" by (simp only: numeral_2_eq_2)
  show ?thesis
    using assms f
    by (simp add: heap_words_def search_free_marker_def split_marker_def demo_vars Let_def half_word_defs)
qed

lemma allocate_again:
  assumes "heap_words 0x200063FC 2 0xFF000008 0 0x01000008 m"
  shows "\<exists>m'. search_free_marker demo_arm heap_demo 8 m = (0, m) \<and>
    add_new_allocated_marker demo_arm heap_demo 8 m = Some (0x20008008, m')"
proof -
  have "find_free (Suc (Suc 0)) 8 m 0x200063FC 0x20008000 = None"
    using assms by (simp add: heap_words_def half_word_defs)
  then have f: "find_free 2 8 m 0x200063FC 0x20008000 = None" by (simp only: numeral_2_eq_2)
  have n: "find_new 256 m 0x200063FC 0x200063FC 0 = Some (Some (0x200063F8, 0xFFFFFFFF))"
    using assms
    by (subst find_new.simps, simp add: heap_words_def) (subst find_new.simps, simp add: heap_words_def half_word_defs)
  have b: "block_addr u 0x200063F8 0x200063FC 0x20008000 = Some 0x20008008" if "mem u 0x200063FC = 0xFFFF0008" for u
    by (subst block_addr.simps, simp add: half_word_defs that) (subst block_addr.simps, simp)
  show ?thesis
    using assms f n
    by (simp add: heap_words_def search_free_marker_def add_new_allocated_marker_def hbsz_demo demo_vars Let_def half_word_defs b)
qed

text \<open>The five calls of the services, from a heap of two blocks of 16 bytes in use.\<close>

definition heap_arg :: "u32 \<Rightarrow> svc_args" where
  "heap_arg v = (\<lambda>_. 0)(1 := v)"

definition pair_in_use :: kstate where
  "pair_in_use = demo_state\<lparr>mcu := demo_mcu\<lparr>mem := (\<lambda>_. 0)(0x20000100 := 0x20008000, 0x20000104 := 0x200063FC,
     0x2000010C := 0x200063FC, 0x20000110 := 0x200063F8, 0x20000114 := 2, 0x200063FC := 0xFFFF0010, 0x200063F8 := 16)\<rparr>\<rparr>"

lemma pair_heap_words: "heap_words 0x200063F8 2 0xFFFF0010 16 0 (mcu pair_in_use)"
  by (simp add: heap_words_def demo_vars pair_in_use_def)

lemma heap_words_bl: "heap_words fe bl w0 w1 w2 m \<Longrightarrow> mem m (blist_size heap_demo) = bl"
  by (simp add: heap_words_def)

lemma heap_words_remaining: "heap_words fe bl w0 w1 w2 (mem_store (heap_remaining heap_demo) v m) = heap_words fe bl w0 w1 w2 m"
  by (simp add: heap_words_def demo_vars mem_store_def)

lemma search_service:
  assumes "heap_words fe bl w0 w1 w2 (mcu s)" "bl \<noteq> 0" "search_free_marker demo_arm heap_demo 8 (mcu s) = (a, m')" "a \<noteq> 0"
    and "heap_words fe' bl' w0' w1' w2' m'"
  obtains s' where "svc_service_gheap_allocate heap_demo demo_arm GHEAP_ALLOCATE (heap_arg 8) s =
      Some (a, GHEAP_ALLOCATE, heap_arg 8, s')" "heap_words fe' bl' w0' w1' w2' (mcu s')"
proof (rule that)
  show "heap_words fe' bl' w0' w1' w2' (mcu (s\<lparr>mcu := mem_store (heap_remaining heap_demo) (mem m' (heap_remaining heap_demo) - 8) m'\<rparr>))"
    using assms(5) by (simp add: heap_words_remaining)
qed (use heap_words_bl [OF assms(1)] assms(2-4) in \<open>simp add: svc_service_gheap_allocate_def heap_arg_def Let_def\<close>)

theorem heap_blocks_overlap:
  "\<exists>s1 s2 s3 s4 s5.
    svc_service_gheap_release heap_demo demo_arm GHEAP_RELEASE (heap_arg 0x20008000) pair_in_use =
      Some (ERROR_NONE, GHEAP_RELEASE, heap_arg 0x20008000, s1) \<and>
    svc_service_gheap_release heap_demo demo_arm GHEAP_RELEASE (heap_arg 0x20008010) s1 =
      Some (ERROR_NONE, GHEAP_RELEASE, heap_arg 0x20008010, s2) \<and>
    svc_service_gheap_allocate heap_demo demo_arm GHEAP_ALLOCATE (heap_arg 8) s2 =
      Some (0x20008000, GHEAP_ALLOCATE, heap_arg 8, s3) \<and> mem (mcu s3) (ghmb_addr_sym heap_demo - 4) \<noteq> 0 \<and>
    svc_service_gheap_allocate heap_demo demo_arm GHEAP_ALLOCATE (heap_arg 8) s3 =
      Some (0x20008008, GHEAP_ALLOCATE, heap_arg 8, s4) \<and>
    svc_service_gheap_allocate heap_demo demo_arm GHEAP_ALLOCATE (heap_arg 8) s4 =
      Some (0x20008008, GHEAP_ALLOCATE, heap_arg 8, s5)"
proof -
  obtain m1 where r1: "release_allocated_marker heap_demo 0x20008000 (mcu pair_in_use) = Some (2, m1)"
    "heap_words 0x200063F8 2 0xFFFF8010 16 0 m1"
    using release_first [OF pair_heap_words] by blast
  obtain m2 where r2: "release_allocated_marker heap_demo 0x20008010 m1 = Some (1, m2)" "heap_words 0x200063FC 1 0x8010 0 0 m2"
    using release_second [OF r1(2)] by blast
  let ?s1 = "pair_in_use\<lparr>mcu := m1\<rparr>" and ?s2 = "pair_in_use\<lparr>mcu := m2\<rparr>"
  have s1: "svc_service_gheap_release heap_demo demo_arm GHEAP_RELEASE (heap_arg 0x20008000) pair_in_use =
      Some (ERROR_NONE, GHEAP_RELEASE, heap_arg 0x20008000, ?s1)"
    using heap_words_bl [OF pair_heap_words] r1(1) by (simp add: svc_service_gheap_release_def heap_arg_def)
  have s2: "svc_service_gheap_release heap_demo demo_arm GHEAP_RELEASE (heap_arg 0x20008010) ?s1 =
      Some (ERROR_NONE, GHEAP_RELEASE, heap_arg 0x20008010, ?s2)"
    using heap_words_bl [OF r1(2)] r2(1) by (simp add: svc_service_gheap_release_def heap_arg_def)
  have w2: "heap_words 0x200063FC 1 0x8010 0 0 (mcu ?s2)" using r2(2) by simp
  obtain m3 where m3: "search_free_marker demo_arm heap_demo 8 (mcu ?s2) = (0x20008000, m3)"
    "heap_words 0x200063FC 2 0xFF000008 0 0x01008008 m3"
    using allocate_split [OF w2] by blast
  obtain s3 where s3: "svc_service_gheap_allocate heap_demo demo_arm GHEAP_ALLOCATE (heap_arg 8) ?s2 =
      Some (0x20008000, GHEAP_ALLOCATE, heap_arg 8, s3)" "heap_words 0x200063FC 2 0xFF000008 0 0x01008008 (mcu s3)"
    by (rule search_service [OF w2 _ m3(1) _ m3(2)]) simp_all
  obtain m4 where m4: "search_free_marker demo_arm heap_demo 8 (mcu s3) = (0x20008008, m4)"
    "heap_words 0x200063FC 2 0xFF000008 0 0x01000008 m4"
    using allocate_rest [OF s3(2)] by blast
  obtain s4 where s4: "svc_service_gheap_allocate heap_demo demo_arm GHEAP_ALLOCATE (heap_arg 8) s3 =
      Some (0x20008008, GHEAP_ALLOCATE, heap_arg 8, s4)" "heap_words 0x200063FC 2 0xFF000008 0 0x01000008 (mcu s4)"
    by (rule search_service [OF s3(2) _ m4(1) _ m4(2)]) simp_all
  obtain m5 where "search_free_marker demo_arm heap_demo 8 (mcu s4) = (0, mcu s4)"
    "add_new_allocated_marker demo_arm heap_demo 8 (mcu s4) = Some (0x20008008, m5)"
    using allocate_again [OF s4(2)] by blast
  then obtain s5 where "svc_service_gheap_allocate heap_demo demo_arm GHEAP_ALLOCATE (heap_arg 8) s4 =
      Some (0x20008008, GHEAP_ALLOCATE, heap_arg 8, s5)"
    using heap_words_bl [OF s4(2)] by (simp add: svc_service_gheap_allocate_def heap_arg_def Let_def)
  moreover have "mem (mcu s3) (ghmb_addr_sym heap_demo - 4) \<noteq> 0" using s3(2) by (simp add: heap_words_def heap_demo_def)
  ultimately show ?thesis using s1 s2 s3(1) s4(1) by blast
qed

section \<open>Ports\<close>

text \<open>
  On MPC57x8 a task that has been promoted because of a mutex is not demoted when it releases it: the word
  has been cleared before its value is compared with the old one.
\<close>

theorem mpc_unlock_never_demotes:
  assumes "unat (current_task s) < n" and "mutex_stash s (unat (current_task s)) = mutex" and "mem (mcu s) mutex \<noteq> 0"
  shows "mpc_mutex_unlock n call regs mutex s = Some (on_mcu (mem_store mutex 0) s)"
  using assms by (simp add: mpc_mutex_unlock_def mem_store_def on_mcu_def Let_def)

text \<open>In the simulator a task hibernates with the address of the second operand as its value.\<close>

theorem ossim_hibernate_shifted:
  assumes "svc_service_hibernate A HIBERNATE (block(0 := merged, 1 := a, 3 := b, 4 := v)) s =
    Some (ERROR_NONE, HIBERNATE, block', s')"
  shows "ossim_call_kernel_service A garbage block 0 HIBERNATE merged a b v s = Some (ERROR_NONE, s')"
  using assms by (subst ossim_call_kernel_service_def, subst ossim_svc_handler.simps) (simp add: svc_dispatch_def Let_def)

text \<open>The vector table of the third core goes to a reserved address behind \<open>IACKR[2]\<close>.\<close>

theorem third_core_vector: "int_vectors ! 2 = INTC_IACKR 2 + 4"
  by (simp add: int_vectors_def INTC_IACKR_def)

text \<open>Interrupts the services accept, for which the ARM port has no register in its tables.\<close>

theorem arm_interrupt_past_table: "144 \<le> unat i \<Longrightarrow> unat i < 155 \<Longrightarrow> arm_interrupt_enable i m = None"
proof -
  assume i: "144 \<le> unat i" "unat i < 155"
  then have "16 \<le> i" by (simp add: word_le_nat_alt)
  then have "unat (i - 16) = unat i - 16" by (simp add: unat_sub_if' word_le_nat_alt)
  then have "unat ((i - 16) div 32) = 4" using i by (simp add: unat_div)
  then show ?thesis using \<open>16 \<le> i\<close> by (simp add: arm_interrupt_enable_def g_pui32EnRegs_def not_less)
qed

text \<open>The region number wraps: a user can clear region 2, the devices.\<close>

theorem umpu_region_wraps: "user_mpu_disable call regs 255 s = call DISABLE_UMPU (regs(0 := 2)) s"
  by (simp add: user_mpu_disable_def SVC_DISABLE_UMPU_def)

end
