(* ===== verification/Spec2Isabelle.thy ===== *)
theory Spec2Isabelle
  imports TaskProps SchedProps SvcProps SystemProps ShareProps LevelProps BaseTask HeapRelease
    MpcProps OssimProps EndProps HeapRuns MpcCalls ArmCalls MpuTable SimRuns Deviations
begin

text \<open>
  Verification of the skibios real-time kernel.

  \<^bold>\<open>The program.\<close> skibios schedules at most 120 tasks of fixed stacks on ARM Cortex M3/M4 and MPC57x8, and
  simulates them on Windows. Everything that changes the kernel's variables runs as a service behind a
  supervisor call: the handler looks the code of the call up in a table and runs services
  until one leaves the code unchanged. A timer interrupt runs the scheduler, which wakes hibernating
  tasks and chooses the next one from a ring of slots by its priority level; the context switch follows it.

  \<^bold>\<open>State.\<close> \<open>kstate\<close> (theory \<open>Kvar\<close>) has one field per variable of \<^verbatim>\<open>src/kvar.c\<close>, at the widths of the
  source, and the machine (\<open>mcu\<close>): memory and device registers by address, the task objects of the
  application, and the log of register writes and calls of the Windows API. A C array is a function
  from indices; \<open>chk\<close> makes an access outside it the result \<open>None\<close>, as is a loop that does not end
  (\<open>partial_function (option)\<close>). So a theorem that a call returns \<open>Some\<close> says that it ends and
  stays inside its arrays. \<open>params\<close> are the constants of the generated \<^verbatim>\<open>param.h\<close> and the
  addresses of the linker, \<open>port\<close> what a directory of \<^verbatim>\<open>src/arch\<close> provides to the common code;
  both are arguments of the definitions.

  \<^bold>\<open>Theories and code.\<close>
  \<^item> \<open>Prelude\<close>: checked accesses, loops over ranges, endless loops, lemmas on words.
  \<^item> \<open>Kvar\<close>: \<^verbatim>\<open>kvar.c\<close>, \<^verbatim>\<open>include/*.h\<close>, the record of a port and its contract (locale \<open>kernel_port\<close>).
  \<^item> \<open>LevelStash\<close>, \<open>JmpList\<close>, \<open>SvrTask\<close>, \<open>TaskInv\<close>, \<open>TaskProps\<close>, \<open>LevelProps\<close>: \<^verbatim>\<open>service/svr_task.c\<close>. The stash of
    levels as a list, the jump list as a ring of slots (locale \<open>task_ring\<close>), creation, kill, hibernation,
    promotion and demotion.
  \<^item> \<open>Scheduler\<close>, \<open>SchedInv\<close>, \<open>SchedSafe\<close>, \<open>SchedFair\<close>, \<open>SchedProps\<close>, \<open>SelfEnd\<close>: \<open>scheduler\<close> of \<^verbatim>\<open>kernel.c\<close> and the context
    switch, against a search through the list of candidates; \<open>SelfEnd\<close> is the tick after the end of the running task.
  \<^item> \<open>KernelSvc\<close>, \<open>SvcTable\<close>, \<open>SvcMacros\<close>, \<open>SvcInv\<close>, \<open>SvcProps\<close>: the other services of \<^verbatim>\<open>kernel.c\<close>,
    \<^verbatim>\<open>service/svr_permissions.c\<close> and \<^verbatim>\<open>service/svr_interrupts.c\<close>, the table of \<^verbatim>\<open>svctable.c\<close>, the handlers of the ports and
    the macros of the calls on ARM (locales \<open>pending_port\<close>, \<open>guarded_service\<close>). \<open>SvcCalls\<close>: the macros of the other ports.
  \<^item> \<open>TaskApi\<close>, \<open>Share\<close>, \<open>ShareProps\<close>, \<open>BaseTask\<close>: what tasks call: \<^verbatim>\<open>task.c\<close>, \<^verbatim>\<open>permissions.c\<close>,
    \<^verbatim>\<open>interrupt.c\<close>, \<^verbatim>\<open>umpu.c\<close>, \<^verbatim>\<open>share.c\<close> with \<^verbatim>\<open>mutex.S\<close> and \<^verbatim>\<open>semaphore.S\<close>, and the base task of \<^verbatim>\<open>baset.c\<close>. The supervisor
    call is a parameter here, since other tasks may run before it returns.
  \<^item> \<open>Heap\<close>, \<open>HeapList\<close>, \<open>HeapInv\<close>, \<open>HeapAlloc\<close>, \<open>HeapProps\<close>, \<open>HeapRelease\<close>, \<open>HeapRuns\<close>: \<^verbatim>\<open>heap.c\<close> and \<^verbatim>\<open>service/svr_heap.c\<close>; the assembly
    routines instruction by instruction on the words of the bookkeeping region; runs of allocations and releases from the start.
  \<^item> \<open>ArmPort\<close>, \<open>Boot\<close>, \<open>BootInv\<close>, \<open>SvrUmpu\<close>: \<^verbatim>\<open>arch/arm-m3m4\<close>, \<open>kernel_init\<close> and \<open>start_scheduler\<close>, and
    \<^verbatim>\<open>service/svr_umpu.c\<close>.
  \<^item> \<open>MpuTable\<close>: the table of stack regions and the constants of the protection unit, as \<^verbatim>\<open>objgen/objgen.py\<close> and
    \<^verbatim>\<open>arch/arm-m3m4/script/devattrb.py\<close> generate them for a build, and the protection unit itself.
  \<^item> \<open>Memory\<close>, \<open>ArmAsm\<close>, \<open>ArmAsmProps\<close>, \<open>ArmCalls\<close>: words and stacks in memory; \<^verbatim>\<open>pendsv_handler.S\<close> and \<^verbatim>\<open>svc_handler.S\<close> of
    \<^verbatim>\<open>arch/arm-m3m4\<close> on the registers of the processor (\<open>arm_core\<close>).
  \<^item> \<open>MpcPort\<close>, \<open>MpcProps\<close>, \<open>OssimPort\<close>, \<open>OssimProps\<close>: the C files of \<^verbatim>\<open>arch/mpc57x8\<close> and \<^verbatim>\<open>arch/ossim\<close>.
  \<^item> \<open>MpcAsm\<close>, \<open>MpcAsmProps\<close>, \<open>MpcCalls\<close>: the assembly of \<^verbatim>\<open>arch/mpc57x8\<close> on the registers of the core (\<open>core\<close>): interrupt entry,
    context switch, supervisor call, switch to user mode.
  \<^item> \<open>Startup\<close>: \<^verbatim>\<open>startup.c\<close>.
  \<^item> \<open>CoreInv\<close>, \<open>CoreStart\<close>: the system on ARM as a step relation from the boot on. A step (\<open>kstep\<close>) is a tick or a supervisor call of any
    code with any arguments that returns; only an accepted creation needs a usable object and a kill a slot in use (\<open>call_ok\<close>).
    \<open>booted\<close> are the states after creations of any levels in any order, \<open>running\<close> those after the start. All of them keep \<open>core_ok\<close>: ring, table, counts
    and the one active task.
  \<^item> \<open>KernelSteps\<close>, \<open>StartSteps\<close>, \<open>TypeInv\<close>: the plain steps (\<open>plain_step\<close>, \<open>plain_booted\<close>, \<open>plain_running\<close>), which leave out promotion, demotion,
    the requests to the base task, the device reset and creations out of the order of their levels. They also keep the level stash and the highest
    level, which the other steps do not: a promoted task has a level above 127 that the stash does not hold. \<open>SystemProps\<close>, \<open>EndProps\<close>: what
    holds of the reachable states.
  \<^item> \<open>SimTest\<close>, \<open>SimRuns\<close>: the start of the kernel in the simulator and the program \<^verbatim>\<open>ossim/test.c\<close> under its timer. What a port's
    way to call the kernel promises is the locale \<open>kernel_call\<close> (theory \<open>BootInv\<close>), interpreted on ARM and in the simulator.
  \<^item> \<open>Demo\<close>: a concrete system, on which the statements are instantiated.
  \<^item> \<open>Deviations\<close>: runs in which the code differs from its comments or its interface.

  \<^bold>\<open>What the lemmas show.\<close> The invariant \<open>kernel_ok\<close> (ring of live slots, task table, stash, highest level) is kept by
  kill (C4) and by creation up to the order of the stash (C1), the effect, the refusals and the reversal of a creation are C2, C3, C5. The
  scheduler is the reference search (C6), wakes the right tasks (C7), leaves exactly one task active (C8), prefers
  higher levels except that it can pass over the interrupted task (C9), returns (C10) and is fair within a level (C11). Supervisor calls run at most three services (C12), respect the permissions (C13,
  C14, the latter for the services that do not store through the caller's addresses), and are the same calls on two ports (C15); a demotion restores the level (C17). The system boots (C18, C36), starts
  exactly when there is a task besides the base task (C19) and keeps its invariant (C20) and the types of its table (C30) in every reachable state; how a
  task ends, and when the call for it does not return, is C32. The
  user's regions of the protection unit are C21, the isolation of the stacks is C29, the base task C24, mutexes
  C25 and C26, the heap against a list of blocks C33, C35 and C40, the
  ports C37 to C39, the test program of the simulator C27. On ARM a task is entered (C31), resumed (C22) and returned to
  from a call (C34) with its registers, on MPC57x8 likewise (C16, C23, C28). The theorems without a number are
  parts or variants of these: the stash as a list (\<open>LevelProps\<close>), semaphores (\<open>ShareProps\<close>), the regions of the user
  (\<open>SvrUmpu\<close>), the blocks of one allocation (\<open>HeapProps\<close>).

  \<^bold>\<open>Bounds.\<close> \<open>wf_params\<close> bounds the number of tasks by 120, what the object generator allows, so that
  the indices fit 8 bits and the offsets of the jump list their signed bytes. Loops have no fuel: they are total
  recursions over ranges, or \<open>partial_function\<close>s. The loops of the handler, the wake-up, the allocation and the release return under the
  conditions of their theorems. Some loops need not return, and the theorems say when: the search of the scheduler when no task is
  ready at a level it comes to (C10, C19, C32), \<open>spin_lock_loop\<close> when a promoted task holds the mutex (C25), the loops after a reset or a fault never.
  \<open>svc_rounds\<close>, \<open>svc_run\<close> (theory \<open>SvcInv\<close>) are not code: they unfold the loop of the handler for a number of rounds, with a result
  of its own for a service still due, and three rounds are enough (C12).

  \<^bold>\<open>Limits of the hypotheses.\<close> For a sorted stash the levels have to be created in increasing order (the insertion is off
  by one), and the stash must have a free entry (killed tasks can leave their levels in it); a chosen level must not be empty of ready tasks; identifiers of
  tasks that use mutexes must not end with a zero byte; the last block of the heap must be in use and joined blocks must fit into 15 bits, so a
  release of the last block after a free one is excluded (two blocks in use overlap afterwards); the build for C29 has its kernel at \<open>0x20000000\<close> and a section
  size of the README. Most of these limits have a run in \<open>Deviations\<close> or \<open>EndProps\<close>. The
  services of the heap and of the user's MPU regions are modelled although the table has them commented out.

  \<^bold>\<open>Limits of the model.\<close> The kernel's variables and the task objects are fields of their own, apart from the memory \<open>mem\<close>. So a store
  through an address that the caller gives never reaches them: the register services (\<^verbatim>\<open>kernel.c:220\<close>, \<^verbatim>\<open>kernel.c:243\<close>), and the task object that creation and kill
  write (\<^verbatim>\<open>service/svr_task.c:46\<close>, \<^verbatim>\<open>:93\<close>, \<^verbatim>\<open>:237\<close>). In the source such an address can be that of \<open>permissions\<close> or of the task table; what is proved
  of the kernel's variables over these calls holds for addresses elsewhere, and C14 leaves them out. \<open>skibios_boot\<close> (theory \<open>Startup\<close>)
  starts \<open>kernel_init\<close> from the boot values \<open>kvar_init\<close>: that the sections the loops of \<^verbatim>\<open>startup.c\<close> copy and clear hold these values is not derived. A byte
  load-exclusive with a word store-exclusive (\<^verbatim>\<open>mutex.S:24\<close>) is an ordinary exclusive pair. Device registers are words that read back what was stored.

  \<^bold>\<open>Not modelled.\<close> What the hardware does by itself: the frame an exception of ARM pushes and pops (the model of
  the handlers starts after it and ends before it), and that an interrupt arrives (a step of the relation); stack memory that
  compiled C code uses; the messages the simulator prints; \<^verbatim>\<open>symgen.c\<close>, which only
  gives sizes of symbols to the linker script; the build scripts but for the table and the constants above. The Windows API,
  the application's \<open>main\<close> and the effect of other tasks during a call are parameters.
\<close>

end
